(* ===== verification/Prelude.thy ===== *)
theory Prelude
  imports Main "HOL-Library.Word" "HOL-Library.Multiset"
begin

text \<open>
  Shared vocabulary of the development: the Go base types as words and lists, the error values
  of the consensus code, the state-and-error computations in which the handlers of the engine
  are written (a Go function \<^verbatim>\<open>func (x *T) f(..) (V, error)\<close> that updates its receiver is
  a function \<open>'s \<Rightarrow> 's \<times> (error + 'v)\<close>), big-endian byte strings, and the list, map and word
  lemmas the components share.
\<close>

section \<open>Collections of rewrite and introduction rules\<close>

named_theorems comp_simps "evaluation of state-and-error computations"
named_theorems keeps_intros "introduction rules for relations kept by computations"

section \<open>Base types\<close>

type_synonym byte = "8 word"
type_synonym u8 = "8 word"
type_synonym u64 = "64 word"
type_synonym hash = "256 word"
type_synonym address = "160 word"
type_synonym signature = "byte list"

text \<open>
  \<^verbatim>\<open>common.Hash\<close> and \<^verbatim>\<open>common.Address\<close> are arrays of 32 and 20 bytes: words of 256 and 160
  bits, whose zero value \<^verbatim>\<open>common.Hash{}\<close> is 0. A \<^verbatim>\<open>*big.Int\<close> is an \<open>int\<close>; its methods
  \<^verbatim>\<open>Uint64\<close> and \<^verbatim>\<open>Int64\<close> return the low 64 bits, unsigned and signed.
\<close>

definition big_Uint64 :: "int \<Rightarrow> u64" where
  "big_Uint64 n = word_of_int n"

definition big_Int64 :: "int \<Rightarrow> int" where
  "big_Int64 n = sint (word_of_int n :: u64)"

section \<open>Errors\<close>

text \<open>
  The named errors of \<^verbatim>\<open>consensus/BRDPoS/utils/errors.go\<close> and \<^verbatim>\<open>consensus/errors.go\<close> that the
  modelled code returns, the three structured message errors, errors made on the spot
  (\<open>Errorf\<close> with the constant part of the text), a Go run-time panic (nil dereference,
  index out of range) and \<open>OutOfFuel\<close>, the value of a bounded loop whose bound is used up.
\<close>

datatype error =
    ErrUnknownBlock
  | ErrInvalidVote
  | ErrInvalidCheckpointVote
  | ErrInvalidCheckpointSigners
  | ErrValidatorsNotLegit
  | ErrPenaltiesNotLegit
  | ErrInvalidMixDigest
  | ErrInvalidUncleHash
  | ErrInvalidDifficulty
  | ErrInvalidTimestamp
  | ErrEmptyEpochSwitchValidators
  | ErrInvalidV2Extra
  | ErrInvalidQC
  | ErrInvalidQCSignatures
  | ErrInvalidTC
  | ErrInvalidTCSignatures
  | ErrInvalidFieldInNonEpochSwitch
  | ErrValidatorNotWithinMasternodes
  | ErrCoinbaseAndValidatorMismatch
  | ErrNotItsTurn
  | ErrRoundInvalid
  | ErrAlreadyMined
  | ErrUnknownAncestor
  | ErrFutureBlock
  | ErrNoValidatorSignatureV2
  | ErrNotReadyToPropose
  | ErrNotReadyToMine
  | ErrCoinbaseMismatch
  | ErrIncomingMessageRoundNotEqualCurrentRound string u64 u64
  | ErrIncomingMessageRoundTooFarFromCurrentRound string u64 u64
  | ErrIncomingMessageBlockNotFound string hash int error
  | Errorf string
  | Panic
  | OutOfFuel

section \<open>State-and-error computations\<close>

type_synonym ('s, 'e, 'a) comp = "'s \<Rightarrow> 's \<times> ('e + 'a)"

definition ok :: "'a \<Rightarrow> ('s, 'e, 'a) comp" where
  "ok a = (\<lambda>s. (s, Inr a))"

definition fail :: "'e \<Rightarrow> ('s, 'e, 'a) comp" where
  "fail e = (\<lambda>s. (s, Inl e))"

text \<open>\<open>bindE m f\<close>: run \<open>m\<close>; \<^verbatim>\<open>if err != nil { return err }\<close>; go on with its value.\<close>

definition bindE :: "('s, 'e, 'a) comp \<Rightarrow> ('a \<Rightarrow> ('s, 'e, 'b) comp) \<Rightarrow> ('s, 'e, 'b) comp" where
  "bindE m f = (\<lambda>s. case m s of (s', Inl e) \<Rightarrow> (s', Inl e) | (s', Inr a) \<Rightarrow> f a s')"

text \<open>\<open>tryE m f\<close>: run \<open>m\<close> and hand both outcomes to \<open>f\<close>, as code that inspects \<^verbatim>\<open>err\<close> does.\<close>

definition tryE :: "('s, 'e, 'a) comp \<Rightarrow> ('e + 'a \<Rightarrow> ('s, 'f, 'b) comp) \<Rightarrow> ('s, 'f, 'b) comp" where
  "tryE m f = (\<lambda>s. case m s of (s', r) \<Rightarrow> f r s')"

text \<open>
  \<open>handleE m f\<close> is the form \<open>tryE\<close> takes in the engine: \<open>f\<close> sees the values and the errors that
  \<open>m\<close> returns, while a run-time panic is not a value and unwinds through the caller.
\<close>

definition handleE :: "('s, error, 'a) comp \<Rightarrow> (error + 'a \<Rightarrow> ('s, error, 'b) comp) \<Rightarrow> ('s, error, 'b) comp"
where
  "handleE m f =
    tryE m (\<lambda>r. if r = Inl Panic then fail Panic else if r = Inl OutOfFuel then fail OutOfFuel else f r)"

definition thenE :: "('s, 'e, unit) comp \<Rightarrow> ('s, 'e, 'b) comp \<Rightarrow> ('s, 'e, 'b) comp" where
  "thenE m k = bindE m (\<lambda>_. k)"

definition reads :: "('s \<Rightarrow> 'a) \<Rightarrow> ('a \<Rightarrow> ('s, 'e, 'b) comp) \<Rightarrow> ('s, 'e, 'b) comp" where
  "reads f k = (\<lambda>s. k (f s) s)"

definition modify :: "('s \<Rightarrow> 's) \<Rightarrow> ('s, 'e, unit) comp" where
  "modify f = (\<lambda>s. (f s, Inr ()))"

definition liftE :: "'e + 'a \<Rightarrow> ('s, 'e, 'a) comp" where
  "liftE r = (\<lambda>s. (s, r))"

lemma comp_eval [comp_simps]:
  "ok a s = (s, Inr a)"
  "fail e s = (s, Inl e)"
  "modify f s = (f s, Inr ())"
  "liftE r s = (s, r)"
  "reads g k s = k (g s) s"
  by (simp_all add: ok_def fail_def modify_def liftE_def reads_def)

lemma bindE_eval [comp_simps]:
  "bindE m f s = (case m s of (s', Inl e) \<Rightarrow> (s', Inl e) | (s', Inr a) \<Rightarrow> f a s')"
  by (simp add: bindE_def)

lemma tryE_eval [comp_simps]: "tryE m f s = f (snd (m s)) (fst (m s))"
  by (simp add: tryE_def split: prod.splits)

lemma handleE_eval [comp_simps]:
  "handleE m f s =
    (case m s of (s', r) \<Rightarrow>
       if r = Inl Panic then (s', Inl Panic) else if r = Inl OutOfFuel then (s', Inl OutOfFuel) else f r s')"
  by (auto simp: handleE_def tryE_def fail_def split: prod.splits)

lemma thenE_eval [comp_simps]:
  "thenE m k s = (case m s of (s', Inl e) \<Rightarrow> (s', Inl e) | (s', Inr _) \<Rightarrow> k s')"
  by (simp add: thenE_def bindE_def)

text \<open>Inversion of a successful sequence: the standard way into a handler's success path.\<close>

lemma bindE_Inr_E:
  assumes "bindE m f s = (s', Inr b)"
  obtains s1 a where "m s = (s1, Inr a)" and "f a s1 = (s', Inr b)"
  using assms by (auto simp: bindE_def split: prod.splits sum.splits)

lemma thenE_Inr_E:
  assumes "thenE m k s = (s', Inr b)"
  obtains s1 where "m s = (s1, Inr ())" and "k s1 = (s', Inr b)"
  using assms unfolding thenE_def by (auto elim!: bindE_Inr_E)

subsection \<open>Relations between the state before and the state after\<close>

definition keeps :: "('s \<Rightarrow> 's \<Rightarrow> bool) \<Rightarrow> ('s, 'e, 'a) comp \<Rightarrow> bool" where
  "keeps R m \<longleftrightarrow> (\<forall>s. R s (fst (m s)))"

lemma keepsI: "(\<And>s. R s (fst (m s))) \<Longrightarrow> keeps R m"
  by (simp add: keeps_def)

lemma keepsD: "keeps R m \<Longrightarrow> R s (fst (m s))"
  by (simp add: keeps_def)

lemma keepsE: "keeps R m \<Longrightarrow> m s = (s', r) \<Longrightarrow> R s s'"
  by (metis fst_conv keeps_def)

text \<open>
  What every computation keeps when its parts do: \<open>step_rel\<close> is the interface of a reflexive and
  transitive relation on states (a frame, a monotone counter, an invariant as an implication).
  Each component interprets it for the relations it promises.
\<close>

locale step_rel =
  fixes R :: "'s \<Rightarrow> 's \<Rightarrow> bool"
  assumes R_refl: "R s s"
    and R_trans: "R s t \<Longrightarrow> R t u \<Longrightarrow> R s u"
begin

lemma keeps_ok: "keeps R (ok a)"
  by (simp add: keeps_def ok_def R_refl)

lemma keeps_fail: "keeps R (fail e)"
  by (simp add: keeps_def fail_def R_refl)

lemma keeps_liftE: "keeps R (liftE r)"
  by (simp add: keeps_def liftE_def R_refl)

lemma keeps_modify: "(\<And>s. R s (f s)) \<Longrightarrow> keeps R (modify f)"
  by (simp add: keeps_def modify_def)

lemma keeps_bindE:
  assumes m: "keeps R m" and f: "\<And>a. keeps R (f a)"
  shows "keeps R (bindE m f)"
proof (rule keepsI)
  fix s
  obtain s1 r where ms: "m s = (s1, r)" by (cases "m s")
  have 1: "R s s1" using keepsE [OF m ms] .
  show "R s (fst (bindE m f s))"
  proof (cases r)
    case (Inl e)
    then show ?thesis using 1 ms by (simp add: bindE_def)
  next
    case (Inr a)
    have "R s1 (fst (f a s1))" by (rule keepsD [OF f])
    then show ?thesis using 1 ms Inr by (auto simp: bindE_def intro: R_trans)
  qed
qed

lemma keeps_thenE: "keeps R m \<Longrightarrow> keeps R k \<Longrightarrow> keeps R (thenE m k)"
  unfolding thenE_def by (rule keeps_bindE)

lemma keeps_tryE:
  assumes m: "keeps R m" and f: "\<And>r. keeps R (f r)"
  shows "keeps R (tryE m f)"
proof (rule keepsI)
  fix s
  have "R s (fst (m s))" by (rule keepsD [OF m])
  moreover have "R (fst (m s)) (fst (f (snd (m s)) (fst (m s))))" by (rule keepsD [OF f])
  ultimately show "R s (fst (tryE m f s))" by (auto simp: tryE_eval intro: R_trans)
qed

lemma keeps_handleE: "keeps R m \<Longrightarrow> (\<And>r. keeps R (f r)) \<Longrightarrow> keeps R (handleE m f)"
  unfolding handleE_def by (rule keeps_tryE) (auto intro: keeps_fail)

lemma keeps_reads:
  assumes "\<And>a. keeps R (k a)"
  shows "keeps R (reads f k)"
  using assms by (simp add: keeps_def reads_def)

lemma keeps_if: "keeps R m \<Longrightarrow> keeps R k \<Longrightarrow> keeps R (if b then m else k)"
  by simp

lemma keeps_case_option:
  "keeps R m \<Longrightarrow> (\<And>a. keeps R (k a)) \<Longrightarrow> keeps R (case x of None \<Rightarrow> m | Some a \<Rightarrow> k a)"
  by (cases x) simp_all

lemma keeps_case_sum:
  "(\<And>e. keeps R (f e)) \<Longrightarrow> (\<And>a. keeps R (g a)) \<Longrightarrow>
   keeps R (case x of Inl e \<Rightarrow> f e | Inr a \<Rightarrow> g a)"
  by (cases x) simp_all

lemma keeps_case_prod:
  "(\<And>a b. keeps R (f a b)) \<Longrightarrow> keeps R (case x of (a, b) \<Rightarrow> f a b)"
  by (cases x) simp

lemma keeps_Let: "(\<And>a. keeps R (f a)) \<Longrightarrow> keeps R (let a = x in f a)"
  by simp

lemmas keeps_rules = keeps_ok keeps_fail keeps_liftE keeps_modify keeps_bindE keeps_thenE
  keeps_tryE keeps_handleE keeps_reads keeps_if keeps_case_option keeps_case_sum keeps_case_prod keeps_Let

end

subsection \<open>Invariants of the state\<close>

text \<open>
  \<open>maintains P m\<close>: from a state with \<open>P\<close> the computation \<open>m\<close> ends in one, whatever it returns. The rules
  hand on what is known of the values: where they were read from and under which tests.
\<close>

definition maintains :: "('s \<Rightarrow> bool) \<Rightarrow> ('s, 'e, 'a) comp \<Rightarrow> bool" where
  "maintains P m \<longleftrightarrow> (\<forall>s. P s \<longrightarrow> P (fst (m s)))"

lemma maintainsI: "(\<And>s. P s \<Longrightarrow> P (fst (m s))) \<Longrightarrow> maintains P m"
  by (simp add: maintains_def)

lemma maintainsE: "maintains P m \<Longrightarrow> m s = (t, r) \<Longrightarrow> P s \<Longrightarrow> P t"
  by (metis fst_conv maintains_def)

lemma keeps_maintains: "keeps R m \<Longrightarrow> (\<And>s t. R s t \<Longrightarrow> P s \<Longrightarrow> P t) \<Longrightarrow> maintains P m"
  by (auto simp: keeps_def maintains_def)

lemma maintains_basic: "maintains P (ok a)" "maintains P (fail e)" "maintains P (liftE r)"
  by (simp_all add: maintains_def comp_simps)

lemma maintains_modify: "(\<And>s. P s \<Longrightarrow> P (f s)) \<Longrightarrow> maintains P (modify f)"
  by (simp add: maintains_def comp_simps)

lemma maintains_reads: "(\<And>s. P s \<Longrightarrow> maintains P (k (f s))) \<Longrightarrow> maintains P (reads f k)"
  by (simp add: maintains_def comp_simps)

lemma maintains_bindE:
  assumes "maintains P m" and "\<And>s t a. P s \<Longrightarrow> m s = (t, Inr a) \<Longrightarrow> maintains P (f a)"
  shows "maintains P (bindE m f)"
proof (rule maintainsI)
  fix s assume s: "P s"
  obtain t r where m: "m s = (t, r)" by (cases "m s")
  have t: "P t" using maintainsE [OF assms(1) m s] .
  show "P (fst (bindE m f s))"
    using m t assms(2) [OF s] by (cases r) (auto simp: comp_simps maintains_def)
qed

lemma maintains_thenE:
  assumes "maintains P m" and "\<And>s t. P s \<Longrightarrow> m s = (t, Inr ()) \<Longrightarrow> maintains P k"
  shows "maintains P (thenE m k)"
  unfolding thenE_def by (rule maintains_bindE) (use assms in auto)

lemma maintains_handleE:
  assumes "maintains P m" and "\<And>r. maintains P (f r)"
  shows "maintains P (handleE m f)"
  using assms by (auto simp: maintains_def comp_simps split: prod.splits)

lemma maintains_if: "(b \<Longrightarrow> maintains P m) \<Longrightarrow> (\<not> b \<Longrightarrow> maintains P k) \<Longrightarrow> maintains P (if b then m else k)"
  by simp

lemma maintains_case_option:
  "(x = None \<Longrightarrow> maintains P m) \<Longrightarrow> (\<And>a. x = Some a \<Longrightarrow> maintains P (k a)) \<Longrightarrow>
   maintains P (case x of None \<Rightarrow> m | Some a \<Rightarrow> k a)"
  by (cases x) simp_all

lemma maintains_case_sum:
  "(\<And>e. x = Inl e \<Longrightarrow> maintains P (f e)) \<Longrightarrow> (\<And>a. x = Inr a \<Longrightarrow> maintains P (g a)) \<Longrightarrow>
   maintains P (case x of Inl e \<Rightarrow> f e | Inr a \<Rightarrow> g a)"
  by (cases x) simp_all

lemma maintains_case_prod:
  "(\<And>a b. x = (a, b) \<Longrightarrow> maintains P (f a b)) \<Longrightarrow> maintains P (case x of (a, b) \<Rightarrow> f a b)"
  by (cases x) simp

lemmas maintains_rules = maintains_basic maintains_modify maintains_reads maintains_bindE maintains_thenE
  maintains_handleE maintains_if maintains_case_option maintains_case_sum maintains_case_prod

subsection \<open>Computations that do not run out of fuel\<close>

definition fuelled :: "('s, error, 'a) comp \<Rightarrow> bool" where
  "fuelled m \<longleftrightarrow> (\<forall>s. snd (m s) \<noteq> Inl OutOfFuel)"

lemma fuelledI: "(\<And>s. snd (m s) \<noteq> Inl OutOfFuel) \<Longrightarrow> fuelled m"
  by (simp add: fuelled_def)

lemma fuelledD: "fuelled m \<Longrightarrow> snd (m s) \<noteq> Inl OutOfFuel"
  by (simp add: fuelled_def)

lemma fuelled_ok: "fuelled (ok a)"
  by (simp add: fuelled_def ok_def)

lemma fuelled_fail: "e \<noteq> OutOfFuel \<Longrightarrow> fuelled (fail e)"
  by (simp add: fuelled_def fail_def)

lemma fuelled_modify: "fuelled (modify f)"
  by (simp add: fuelled_def modify_def)

lemma fuelled_reads: "(\<And>a. fuelled (k a)) \<Longrightarrow> fuelled (reads f k)"
  by (simp add: fuelled_def reads_def)

lemma fuelled_bindE: "fuelled m \<Longrightarrow> (\<And>a. fuelled (f a)) \<Longrightarrow> fuelled (bindE m f)"
  by (auto simp: fuelled_def bindE_def split: prod.splits sum.splits) (metis snd_conv)

lemma fuelled_thenE: "fuelled m \<Longrightarrow> fuelled k \<Longrightarrow> fuelled (thenE m k)"
  unfolding thenE_def by (rule fuelled_bindE)

lemma fuelled_handleE: "fuelled m \<Longrightarrow> (\<And>r. r \<noteq> Inl OutOfFuel \<Longrightarrow> fuelled (f r)) \<Longrightarrow> fuelled (handleE m f)"
  by (auto simp: fuelled_def handleE_eval split: prod.splits) (metis snd_conv)

lemma fuelled_if: "(b \<Longrightarrow> fuelled m) \<Longrightarrow> (\<not> b \<Longrightarrow> fuelled k) \<Longrightarrow> fuelled (if b then m else k)"
  by simp

lemma fuelled_case_option:
  "(x = None \<Longrightarrow> fuelled m) \<Longrightarrow> (\<And>a. x = Some a \<Longrightarrow> fuelled (k a)) \<Longrightarrow>
   fuelled (case x of None \<Rightarrow> m | Some a \<Rightarrow> k a)"
  by (cases x) simp_all

lemma fuelled_case_sum:
  "(\<And>e. x = Inl e \<Longrightarrow> fuelled (f e)) \<Longrightarrow> (\<And>a. x = Inr a \<Longrightarrow> fuelled (g a)) \<Longrightarrow>
   fuelled (case x of Inl e \<Rightarrow> f e | Inr a \<Rightarrow> g a)"
  by (cases x) simp_all

lemma fuelled_case_prod: "(\<And>a b. x = (a, b) \<Longrightarrow> fuelled (f a b)) \<Longrightarrow> fuelled (case x of (a, b) \<Rightarrow> f a b)"
  by (cases x) simp

lemma fuelled_Let: "(\<And>a. fuelled (f a)) \<Longrightarrow> fuelled (let a = x in f a)"
  by simp

lemmas fuelled_rules = fuelled_ok fuelled_modify fuelled_reads fuelled_bindE fuelled_thenE fuelled_handleE
  fuelled_if fuelled_case_option fuelled_case_sum fuelled_case_prod fuelled_Let

section \<open>Big-endian byte strings\<close>

fun be_val :: "byte list \<Rightarrow> nat" where
  "be_val [] = 0"
| "be_val (b # bs) = unat b * 256 ^ length bs + be_val bs"

fun be_bytes :: "nat \<Rightarrow> nat \<Rightarrow> byte list" where
  "be_bytes 0 x = []"
| "be_bytes (Suc n) x = of_nat (x div 256 ^ n) # be_bytes n (x mod 256 ^ n)"

lemma length_be_bytes [simp]: "length (be_bytes n x) = n"
  by (induction n x rule: be_bytes.induct) simp_all

lemma unat_byte_less [simp]: "unat (b :: byte) < 256"
  using unsigned_less [where ?'a = nat, of b] by simp

lemma unat_byte_le [simp]: "unat (b :: byte) \<le> 255"
  using unat_byte_less [of b] by linarith

lemma be_val_less: "be_val bs < 256 ^ length bs"
proof (induction bs)
  case Nil
  then show ?case by simp
next
  case (Cons b bs)
  have "unat b * 256 ^ length bs + be_val bs < unat b * 256 ^ length bs + 256 ^ length bs"
    using Cons by simp
  also have "\<dots> = (unat b + 1) * 256 ^ length bs" by (simp add: algebra_simps)
  also have "\<dots> \<le> 256 * 256 ^ length bs"
    using unat_byte_less [of b] by (intro mult_right_mono) auto
  finally show ?case by simp
qed

lemma be_val_be_bytes: "x < 256 ^ n \<Longrightarrow> be_val (be_bytes n x) = x"
proof (induction n x rule: be_bytes.induct)
  case (1 x)
  then show ?case by simp
next
  case (2 n x)
  have "x div 256 ^ n < 256"
    using 2(2) by (simp add: less_mult_imp_div_less mult.commute)
  then have "unat (of_nat (x div 256 ^ n) :: byte) = x div 256 ^ n"
    by (simp add: unat_of_nat)
  then show ?case using 2(1) by (simp add: div_mult_mod_eq)
qed

lemma be_bytes_be_val: "be_bytes (length bs) (be_val bs) = bs"
proof (induction bs)
  case Nil
  then show ?case by simp
next
  case (Cons b bs)
  have l: "be_val bs < 256 ^ length bs" by (rule be_val_less)
  have d: "(unat b * 256 ^ length bs + be_val bs) div 256 ^ length bs = unat b"
    using l by simp
  have m: "(unat b * 256 ^ length bs + be_val bs) mod 256 ^ length bs = be_val bs"
    using l by simp
  show ?case using Cons d m by (simp del: div_mult_self1 div_mult_self3 mod_mult_self1 mod_mult_self3)
qed

lemma be_bytes_inj: "x < 256 ^ n \<Longrightarrow> y < 256 ^ n \<Longrightarrow> be_bytes n x = be_bytes n y \<Longrightarrow> x = y"
  by (metis be_val_be_bytes)

lemma be_val_inj: "length xs = length ys \<Longrightarrow> be_val xs = be_val ys \<Longrightarrow> xs = ys"
  by (metis be_bytes_be_val)

lemma be_bytes_alt: "be_bytes n x = map (\<lambda>k. of_nat (x div 256 ^ k)) (rev [0..<n])"
proof (induction n x rule: be_bytes.induct)
  case (1 x)
  then show ?case by simp
next
  case (2 n x)
  have "(of_nat ((x mod 256 ^ n) div 256 ^ k) :: byte) = of_nat (x div 256 ^ k)" if "k < n" for k
  proof -
    have n: "(256::nat) ^ n = 256 ^ k * 256 ^ (n - k)"
      using that by (simp add: power_add [symmetric])
    have "x mod 256 ^ n div 256 ^ k = x div 256 ^ k mod 256 ^ (n - k)"
      unfolding n by (simp add: mod_mult2_eq)
    then have "(x mod 256 ^ n div 256 ^ k) mod 256 = x div 256 ^ k mod 256 ^ (n - k) mod 256"
      by simp
    also have "\<dots> = x div 256 ^ k mod 256"
      using that by (simp add: mod_mod_cancel dvd_power)
    finally show ?thesis
      by (simp add: word_of_nat_eq_iff take_bit_eq_mod)
  qed
  then show ?case using 2 by simp
qed

lemma be_bytes_hd: "0 < n \<Longrightarrow> hd (be_bytes n x) = of_nat (x div 256 ^ (n - 1))"
  by (cases n) simp_all

text \<open>\<^verbatim>\<open>copy(arr[:], bs)\<close> into a zeroed array of \<open>n\<close> bytes.\<close>

definition copy_fixed :: "nat \<Rightarrow> byte list \<Rightarrow> byte list" where
  "copy_fixed n bs = take n bs @ replicate (n - length bs) 0"

lemma length_copy_fixed [simp]: "length (copy_fixed n bs) = n"
  by (simp add: copy_fixed_def)

definition address_of_bytes :: "byte list \<Rightarrow> address" where
  "address_of_bytes bs = of_nat (be_val (copy_fixed 20 bs))"

definition address_bytes :: "address \<Rightarrow> byte list" where
  "address_bytes a = be_bytes 20 (unat a)"

definition hash_bytes :: "hash \<Rightarrow> byte list" where
  "hash_bytes h = be_bytes 32 (unat h)"

definition hash_of_bytes :: "byte list \<Rightarrow> hash" where
  "hash_of_bytes bs = of_nat (be_val (copy_fixed 32 bs))"

lemma length_address_bytes [simp]: "length (address_bytes a) = 20"
  by (simp add: address_bytes_def)

lemma length_hash_bytes [simp]: "length (hash_bytes h) = 32"
  by (simp add: hash_bytes_def)

lemma unat_address_less: "unat (a :: address) < 256 ^ 20"
  using unsigned_less [where ?'a = nat, of a] by simp

lemma unat_hash_less: "unat (h :: hash) < 256 ^ 32"
  using unsigned_less [where ?'a = nat, of h] by simp

lemma address_of_bytes_address_bytes: "address_of_bytes (address_bytes a @ rest) = a"
proof -
  have "copy_fixed 20 (address_bytes a @ rest) = address_bytes a"
    by (simp add: copy_fixed_def)
  then show ?thesis
    using unat_address_less [of a]
    by (simp add: address_of_bytes_def address_bytes_def be_val_be_bytes)
qed

lemma hash_of_bytes_hash_bytes: "hash_of_bytes (hash_bytes h) = h"
proof -
  have "copy_fixed 32 (hash_bytes h) = hash_bytes h"
    by (simp add: copy_fixed_def)
  then show ?thesis
    using unat_hash_less [of h]
    by (simp add: hash_of_bytes_def hash_bytes_def be_val_be_bytes)
qed

lemma address_bytes_inj: "address_bytes a = address_bytes b \<Longrightarrow> a = b"
  by (metis address_of_bytes_address_bytes append_Nil2)

lemma hash_bytes_inj: "hash_bytes a = hash_bytes b \<Longrightarrow> a = b"
  by (metis hash_of_bytes_hash_bytes)

end
