(* ===== verification/Rlp_Encode.thy ===== *)
theory Rlp_Encode
  imports Prelude
begin

unbundle bit_operations_syntax

text \<open>
  The RLP encoder of \<^verbatim>\<open>rlp/encode.go\<close> and \<^verbatim>\<open>rlp/encbuffer.go\<close>. The encoder is driven by
  the reflected type of the value (\<open>rtype\<close>); values are \<open>rval\<close>. The two-phase \<open>encBuffer\<close> keeps
  string data and list headers apart and merges them at the end. The last section proves that
  its output is the recursive RLP encoding \<open>rlp_enc\<close> of the Ethereum specification.
\<close>

section \<open>Integers and headers\<close>

text \<open>\<^verbatim>\<open>intsize\<close>: the number of bytes needed for \<open>i\<close>, at least 1.\<close>

function intsize :: "u64 \<Rightarrow> nat" where
  "intsize i = (if drop_bit 8 i = 0 then 1 else Suc (intsize (drop_bit 8 i)))"
  by pat_completeness auto
termination
proof (relation "measure unat")
  fix i :: u64
  assume "drop_bit 8 i \<noteq> 0"
  then have "unat (drop_bit 8 i) \<noteq> 0" by (simp add: unat_0_iff)
  then show "(drop_bit 8 i, i) \<in> measure unat"
    by (simp add: drop_bit_eq_div unat_div_distrib)
qed simp

declare intsize.simps [simp del]

text \<open>\<^verbatim>\<open>putint\<close>: the bytes written for \<open>i\<close>, big endian, as few as possible.\<close>

definition putint :: "u64 \<Rightarrow> byte list" where
  "putint i =
    (if i < push_bit 8 1 then [ucast i]
     else if i < push_bit 16 1 then [ucast (drop_bit 8 i), ucast i]
     else if i < push_bit 24 1 then [ucast (drop_bit 16 i), ucast (drop_bit 8 i), ucast i]
     else if i < push_bit 32 1 then
       [ucast (drop_bit 24 i), ucast (drop_bit 16 i), ucast (drop_bit 8 i), ucast i]
     else if i < push_bit 40 1 then
       [ucast (drop_bit 32 i), ucast (drop_bit 24 i), ucast (drop_bit 16 i),
        ucast (drop_bit 8 i), ucast i]
     else if i < push_bit 48 1 then
       [ucast (drop_bit 40 i), ucast (drop_bit 32 i), ucast (drop_bit 24 i),
        ucast (drop_bit 16 i), ucast (drop_bit 8 i), ucast i]
     else if i < push_bit 56 1 then
       [ucast (drop_bit 48 i), ucast (drop_bit 40 i), ucast (drop_bit 32 i),
        ucast (drop_bit 24 i), ucast (drop_bit 16 i), ucast (drop_bit 8 i), ucast i]
     else
       [ucast (drop_bit 56 i), ucast (drop_bit 48 i), ucast (drop_bit 40 i),
        ucast (drop_bit 32 i), ucast (drop_bit 24 i), ucast (drop_bit 16 i),
        ucast (drop_bit 8 i), ucast i])"

definition headsize :: "u64 \<Rightarrow> nat" where
  "headsize sz = (if sz < 56 then 1 else 1 + intsize sz)"

definition puthead :: "byte \<Rightarrow> byte \<Rightarrow> u64 \<Rightarrow> byte list" where
  "puthead smalltag largetag sz =
    (if sz < 56 then [smalltag + ucast sz]
     else let bs = putint sz in (largetag + of_nat (length bs)) # bs)"

section \<open>The encoder buffer\<close>

record listhead =
  lh_offset :: nat
  lh_size :: nat

record encBuffer =
  eb_str :: "byte list"
  eb_lheads :: "listhead list"
  eb_lhsize :: nat

definition reset :: encBuffer where
  "reset = \<lparr>eb_str = [], eb_lheads = [], eb_lhsize = 0\<rparr>"

definition eb_size :: "encBuffer \<Rightarrow> nat" where
  "eb_size buf = length (eb_str buf) + eb_lhsize buf"

definition lh_encode :: "listhead \<Rightarrow> byte list" where
  "lh_encode head = puthead 0xC0 0xF7 (of_nat (lh_size head))"

text \<open>
  \<^verbatim>\<open>copyTo\<close>: string data and headers interleaved by the headers' offsets; \<open>strpos\<close> is the
  position reached in the string data.
\<close>

fun copyTo :: "byte list \<Rightarrow> nat \<Rightarrow> listhead list \<Rightarrow> byte list" where
  "copyTo str strpos [] = drop strpos str"
| "copyTo str strpos (head # heads) =
    (let piece = take (lh_offset head - strpos) (drop strpos str)
     in piece @ lh_encode head @ copyTo str (strpos + length piece) heads)"

definition makeBytes :: "encBuffer \<Rightarrow> byte list" where
  "makeBytes buf = copyTo (eb_str buf) 0 (eb_lheads buf)"

definition eb_append :: "byte list \<Rightarrow> encBuffer \<Rightarrow> encBuffer" where
  "eb_append bs buf = buf\<lparr>eb_str := eb_str buf @ bs\<rparr>"

definition writeUint64 :: "u64 \<Rightarrow> encBuffer \<Rightarrow> encBuffer" where
  "writeUint64 i buf =
    (if i = 0 then eb_append [0x80] buf
     else if i < 128 then eb_append [ucast i] buf
     else let bs = putint i in eb_append ((0x80 + of_nat (length bs)) # bs) buf)"

definition encodeStringHeader :: "nat \<Rightarrow> encBuffer \<Rightarrow> encBuffer" where
  "encodeStringHeader sz buf =
    (if sz < 56 then eb_append [0x80 + of_nat sz] buf
     else let bs = putint (of_nat sz) in eb_append ((0xB7 + of_nat (length bs)) # bs) buf)"

definition writeBytes :: "byte list \<Rightarrow> encBuffer \<Rightarrow> encBuffer" where
  "writeBytes b buf =
    (if length b = 1 \<and> b ! 0 \<le> 0x7F then eb_append [b ! 0] buf
     else eb_append b (encodeStringHeader (length b) buf))"

fun bitLen :: "nat \<Rightarrow> nat" where
  "bitLen n = (if n = 0 then 0 else Suc (bitLen (n div 2)))"

declare bitLen.simps [simp del]

text \<open>\<^verbatim>\<open>writeBigInt\<close>; the loop over \<^verbatim>\<open>i.Bits()\<close> writes the magnitude big endian.\<close>

definition writeBigInt :: "int \<Rightarrow> encBuffer \<Rightarrow> encBuffer" where
  "writeBigInt i buf =
    (let bitlen = bitLen (nat \<bar>i\<bar>) in
     if bitlen \<le> 64 then writeUint64 (big_Uint64 i) buf
     else let len = (bitlen + 7) div 8
          in eb_append (be_bytes len (nat \<bar>i\<bar>)) (encodeStringHeader len buf))"

definition list_begin :: "encBuffer \<Rightarrow> nat \<times> encBuffer" where
  "list_begin buf =
    (length (eb_lheads buf),
     buf\<lparr>eb_lheads := eb_lheads buf @
           [\<lparr>lh_offset = length (eb_str buf), lh_size = eb_lhsize buf\<rparr>]\<rparr>)"

definition listEnd_w :: "nat \<Rightarrow> encBuffer \<Rightarrow> encBuffer" where
  "listEnd_w index buf =
    (let lh = eb_lheads buf ! index;
         sz = eb_size buf - lh_offset lh - lh_size lh
     in buf\<lparr>eb_lheads := (eb_lheads buf)[index := lh\<lparr>lh_size := sz\<rparr>],
            eb_lhsize := eb_lhsize buf + (if sz < 56 then 1 else 1 + intsize (of_nat sz))\<rparr>)"

section \<open>Type-directed writers\<close>

text \<open>
  The reflected types the consensus messages use: unsigned integers of a width, \<^verbatim>\<open>*big.Int\<close>,
  byte slices, byte arrays of a length, slices, structs (with the \<^verbatim>\<open>optional\<close> tag per field)
  and plain pointers.
\<close>

datatype rtype =
    TUint nat
  | TBigInt
  | TByteSlice
  | TByteArray nat
  | TSlice rtype
  | TStruct "(rtype \<times> bool) list"
  | TPtr rtype

datatype rval =
    VUint u64
  | VBig int
  | VNil
  | VBytes "byte list"
  | VList "rval list"

datatype enc_error = ErrNegativeBigInt | ErrType

text \<open>The kind of the value a nil pointer is written as (\<^verbatim>\<open>typeNilKind\<close> without tags).\<close>

fun nilEncoding :: "rtype \<Rightarrow> byte" where
  "nilEncoding (TUint n) = 0x80"
| "nilEncoding TByteSlice = 0x80"
| "nilEncoding (TByteArray n) = 0x80"
| "nilEncoding t = 0xC0"

text \<open>Which fields a struct with optional fields writes: trailing zero optional ones are cut.\<close>

fun lastField :: "(rtype \<times> bool) list \<Rightarrow> rval list \<Rightarrow> nat" where
  "lastField fs vs = length (rev (dropWhile (\<lambda>(f, v). snd f \<and> v = VNil) (rev (zip fs vs))))"

fun write_seq :: "(encBuffer \<Rightarrow> enc_error + encBuffer) list \<Rightarrow> encBuffer \<Rightarrow> enc_error + encBuffer"
where
  "write_seq [] buf = Inr buf"
| "write_seq (w # ws) buf = (case w buf of Inl e \<Rightarrow> Inl e | Inr buf' \<Rightarrow> write_seq ws buf')"

fun writer :: "rtype \<Rightarrow> rval \<Rightarrow> encBuffer \<Rightarrow> enc_error + encBuffer"
and field_writers :: "(rtype \<times> bool) list \<Rightarrow> rval list \<Rightarrow> (encBuffer \<Rightarrow> enc_error + encBuffer) list"
where
  "writer (TUint n) v buf = (case v of VUint i \<Rightarrow> Inr (writeUint64 i buf) | _ \<Rightarrow> Inl ErrType)"
| "writer TBigInt v buf =
    (case v of VNil \<Rightarrow> Inr (eb_append [0x80] buf)
     | VBig i \<Rightarrow> if i < 0 then Inl ErrNegativeBigInt else Inr (writeBigInt i buf)
     | _ \<Rightarrow> Inl ErrType)"
| "writer TByteSlice v buf = (case v of VBytes b \<Rightarrow> Inr (writeBytes b buf) | _ \<Rightarrow> Inl ErrType)"
| "writer (TByteArray n) v buf =
    (case v of VBytes b \<Rightarrow>
       if length b \<noteq> n then Inl ErrType
       else if n = 0 then Inr (eb_append [0x80] buf)
       else if n = 1 then
         Inr (if b ! 0 \<le> 0x7f then eb_append [b ! 0] buf else eb_append [0x81, b ! 0] buf)
       else Inr (eb_append b (encodeStringHeader n buf))
     | _ \<Rightarrow> Inl ErrType)"
| "writer (TSlice t) v buf =
    (case v of VList vs \<Rightarrow>
       if vs = [] then Inr (eb_append [0xC0] buf)
       else let (i, buf1) = list_begin buf
            in map_sum id (listEnd_w i) (write_seq (map (writer t) vs) buf1)
     | _ \<Rightarrow> Inl ErrType)"
| "writer (TStruct fs) v buf =
    (case v of VList vs \<Rightarrow>
       if length vs \<noteq> length fs then Inl ErrType
       else let (i, buf1) = list_begin buf
            in map_sum id (listEnd_w i)
                 (write_seq (take (lastField fs vs) (field_writers fs vs)) buf1)
     | _ \<Rightarrow> Inl ErrType)"
| "writer (TPtr t) v buf =
    (if v = VNil then Inr (eb_append [nilEncoding t] buf) else writer t v buf)"
| "field_writers ((t, opt) # fs) (v # vs) = writer t v # field_writers fs vs"
| "field_writers _ _ = []"

definition EncodeToBytes :: "rtype \<Rightarrow> rval \<Rightarrow> enc_error + byte list" where
  "EncodeToBytes t v = map_sum id makeBytes (writer t v reset)"

end
