(* ===== verification/Rlp_Spec.thy ===== *)
theory Rlp_Spec
  imports Rlp_Encode
begin

text \<open>
  The recursive RLP encoding of the Ethereum specification (\<open>rlp_enc\<close>), and the proof that the
  buffered encoder of \<open>Rlp_Encode\<close> computes it: writing a well-typed value always succeeds and
  the merged buffer is the specification's byte string.
\<close>

section \<open>Minimal big-endian integers\<close>

fun nbytes :: "nat \<Rightarrow> nat" where
  "nbytes n = (if n = 0 then 0 else Suc (nbytes (n div 256)))"

declare nbytes.simps [simp del]

definition be_min :: "nat \<Rightarrow> byte list" where
  "be_min n = be_bytes (nbytes n) n"

lemma nbytes_0 [simp]: "nbytes 0 = 0"
  by (simp add: nbytes.simps)

lemma nbytes_pos [simp]: "nbytes n = 0 \<longleftrightarrow> n = 0"
  by (subst nbytes.simps) simp

lemma nbytes_upper: "n < 256 ^ nbytes n"
proof (induction n rule: nbytes.induct)
  case (1 n)
  show ?case
  proof (cases "n = 0")
    case True
    then show ?thesis by simp
  next
    case False
    with 1 have "n div 256 < 256 ^ nbytes (n div 256)" by simp
    then have "n < 256 * 256 ^ nbytes (n div 256)"
      by (simp add: div_less_iff_less_mult mult.commute)
    then show ?thesis using False by (simp add: nbytes.simps [of n])
  qed
qed

lemma nbytes_lower: "n \<noteq> 0 \<Longrightarrow> 256 ^ (nbytes n - 1) \<le> n"
proof (induction n rule: nbytes.induct)
  case (1 n)
  show ?case
  proof (cases "n div 256 = 0")
    case True
    then show ?thesis using 1(2) by (simp add: nbytes.simps [of n])
  next
    case False
    then obtain k where k: "nbytes (n div 256) = Suc k" by (metis nat.exhaust nbytes_pos)
    from 1(1) [OF 1(2) False] k have "256 ^ k \<le> n div 256" by simp
    then have "256 * 256 ^ k \<le> n" by (simp add: less_eq_div_iff_mult_less_eq mult.commute)
    then show ?thesis using 1(2) k by (simp add: nbytes.simps [of n])
  qed
qed

lemma nbytes_le: "n < 256 ^ k \<Longrightarrow> nbytes n \<le> k"
proof (rule ccontr)
  assume n: "n < 256 ^ k" and "\<not> nbytes n \<le> k"
  then have "k \<le> nbytes n - 1" and "n \<noteq> 0" by (auto intro: ccontr)
  then have "(256::nat) ^ k \<le> n"
    using nbytes_lower [of n] power_increasing [of k "nbytes n - 1" "256::nat"]
    by (meson one_le_numeral order_trans)
  with n show False by simp
qed

lemma nbytes_eq: "256 ^ k \<le> n \<Longrightarrow> n < 256 ^ Suc k \<Longrightarrow> nbytes n = Suc k"
proof -
  assume l: "256 ^ k \<le> n" and u: "n < 256 ^ Suc k"
  have "nbytes n \<le> Suc k" using nbytes_le [OF u] .
  moreover have "\<not> nbytes n \<le> k"
  proof
    assume "nbytes n \<le> k"
    then have "(256::nat) ^ nbytes n \<le> 256 ^ k" by (simp add: power_increasing)
    with nbytes_upper [of n] l show False by simp
  qed
  ultimately show ?thesis by simp
qed

lemma be_min_0 [simp]: "be_min 0 = []"
  by (simp add: be_min_def)

lemma be_min_eq_Nil [simp]: "be_min n = [] \<longleftrightarrow> n = 0"
  by (metis be_min_0 be_min_def length_be_bytes list.size(3) nbytes_pos)

lemma length_be_min [simp]: "length (be_min n) = nbytes n"
  by (simp add: be_min_def)

lemma be_val_be_min [simp]: "be_val (be_min n) = n"
  by (simp add: be_min_def be_val_be_bytes nbytes_upper)

lemma be_min_hd: "n \<noteq> 0 \<Longrightarrow> hd (be_min n) \<noteq> 0"
proof -
  assume n: "n \<noteq> 0"
  define q where "q = n div 256 ^ (nbytes n - 1)"
  have "n < 256 ^ Suc (nbytes n - 1)" using nbytes_upper [of n] n by (cases "nbytes n") auto
  then have u: "q < 256"
    unfolding q_def by (simp add: less_mult_imp_div_less mult.commute)
  have l: "1 \<le> q"
    using nbytes_lower [OF n] unfolding q_def by (simp add: less_eq_div_iff_mult_less_eq)
  have "hd (be_min n) = of_nat q"
    using n be_bytes_hd [of "nbytes n" n] nbytes_pos [of n] unfolding be_min_def q_def by blast
  moreover have "unat (of_nat q :: byte) = q" using u by (simp add: unat_of_nat)
  ultimately show "hd (be_min n) \<noteq> 0" using l by (metis not_one_le_zero unat_0)
qed

text \<open>A byte string without a leading zero is the minimal encoding of its value.\<close>

lemma be_min_be_val: "bs = [] \<or> hd bs \<noteq> 0 \<Longrightarrow> be_min (be_val bs) = bs"
proof (cases bs)
  case (Cons b cs)
  assume "bs = [] \<or> hd bs \<noteq> 0"
  with Cons have "unat b \<noteq> 0" by (auto simp: unat_0_iff)
  then have "256 ^ length cs \<le> be_val bs"
    using Cons by (simp add: trans_le_add1)
  moreover have "be_val bs < 256 ^ Suc (length cs)"
    using be_val_less [of bs] Cons by simp
  ultimately have "nbytes (be_val bs) = length bs"
    using Cons nbytes_eq by simp
  then show ?thesis by (simp add: be_min_def be_bytes_be_val)
qed simp

section \<open>The specification\<close>

datatype item = Str "byte list" | Lst "item list"

definition rhead :: "byte \<Rightarrow> byte \<Rightarrow> nat \<Rightarrow> byte list" where
  "rhead small large n =
    (if n < 56 then [small + of_nat n] else (large + of_nat (nbytes n)) # be_min n)"

definition enc_str :: "byte list \<Rightarrow> byte list" where
  "enc_str b = (if length b = 1 \<and> b ! 0 < 0x80 then b else rhead 0x80 0xB7 (length b) @ b)"

fun rlp_enc :: "item \<Rightarrow> byte list" where
  "rlp_enc (Str b) = enc_str b"
| "rlp_enc (Lst xs) = (let p = concat (map rlp_enc xs) in rhead 0xC0 0xF7 (length p) @ p)"

text \<open>The item a reflected value stands for, and the values a type admits.\<close>

fun wt :: "rtype \<Rightarrow> rval \<Rightarrow> bool"
and wts :: "(rtype \<times> bool) list \<Rightarrow> rval list \<Rightarrow> bool"
where
  "wt (TUint n) v = (case v of VUint i \<Rightarrow> unat i < 2 ^ n | _ \<Rightarrow> False)"
| "wt TBigInt v = (case v of VNil \<Rightarrow> True | VBig i \<Rightarrow> 0 \<le> i | _ \<Rightarrow> False)"
| "wt TByteSlice v = (case v of VBytes b \<Rightarrow> True | _ \<Rightarrow> False)"
| "wt (TByteArray n) v = (case v of VBytes b \<Rightarrow> length b = n | _ \<Rightarrow> False)"
| "wt (TSlice t) v = (case v of VList vs \<Rightarrow> list_all (wt t) vs | _ \<Rightarrow> False)"
| "wt (TStruct fs) v = (case v of VList vs \<Rightarrow> wts fs vs | _ \<Rightarrow> False)"
| "wt (TPtr t) v = (v = VNil \<or> wt t v)"
| "wts [] [] = True"
| "wts ((t, opt) # fs) (v # vs) = (wt t v \<and> wts fs vs)"
| "wts _ _ = False"

fun item_of :: "rtype \<Rightarrow> rval \<Rightarrow> item"
and items_of :: "(rtype \<times> bool) list \<Rightarrow> rval list \<Rightarrow> item list"
where
  "item_of (TUint n) v = (case v of VUint i \<Rightarrow> Str (be_min (unat i)) | _ \<Rightarrow> Str [])"
| "item_of TBigInt v = (case v of VBig i \<Rightarrow> Str (be_min (nat i)) | _ \<Rightarrow> Str [])"
| "item_of TByteSlice v = (case v of VBytes b \<Rightarrow> Str b | _ \<Rightarrow> Str [])"
| "item_of (TByteArray n) v = (case v of VBytes b \<Rightarrow> Str b | _ \<Rightarrow> Str [])"
| "item_of (TSlice t) v = (case v of VList vs \<Rightarrow> Lst (map (item_of t) vs) | _ \<Rightarrow> Lst [])"
| "item_of (TStruct fs) v =
    (case v of VList vs \<Rightarrow> Lst (take (lastField fs vs) (items_of fs vs)) | _ \<Rightarrow> Lst [])"
| "item_of (TPtr t) v =
    (if v = VNil then (if nilEncoding t = 0x80 then Str [] else Lst []) else item_of t v)"
| "items_of ((t, opt) # fs) (v # vs) = item_of t v # items_of fs vs"
| "items_of _ _ = []"

section \<open>Integers\<close>

lemma ucast_drop_bit: "(ucast (drop_bit (8 * k) i) :: byte) = of_nat (unat (i :: u64) div 256 ^ k)"
proof -
  have "unat (drop_bit (8 * k) i) = unat i div 256 ^ k"
    by (subst unat_drop_bit_eq) (simp add: drop_bit_eq_div power_mult)
  then show ?thesis by (metis of_nat_unat)
qed

lemma rev_upt_small:
  "rev [0..<1] = [0]" "rev [0..<2] = [1, 0]" "rev [0..<3] = [2, 1, 0]"
  "rev [0..<4] = [3, 2, 1, 0]" "rev [0..<5] = [4, 3, 2, 1, 0]"
  "rev [0..<6] = [5, 4, 3, 2, 1, 0]" "rev [0..<7] = [6, 5, 4, 3, 2, 1, 0]"
  "rev [0..<8] = [7, 6, 5, 4, 3, 2, 1, 0]"
  by code_simp+

lemma less_push_bit: "k < 8 \<Longrightarrow> i < push_bit (8 * k) 1 \<longleftrightarrow> unat (i :: u64) < 256 ^ k"
proof -
  assume k: "k < 8"
  have p: "(push_bit (8 * k) 1 :: u64) = of_nat (256 ^ k)"
    by (simp add: push_bit_eq_mult power_mult)
  have "(256::nat) ^ k < 2 ^ 64"
    using power_strict_increasing [of k 8 "256::nat"] k by simp
  then have "unat (push_bit (8 * k) 1 :: u64) = 256 ^ k"
    unfolding p by (simp add: unat_of_nat del: of_nat_power)
  then show ?thesis by (simp add: word_less_nat_alt)
qed

text \<open>The eight branches of \<^verbatim>\<open>putint\<close> write the value in the branch's number of bytes.\<close>

lemma putint_branches:
  "putint i = be_bytes (if unat i < 256 then 1 else if unat i < 256 ^ 2 then 2
     else if unat i < 256 ^ 3 then 3 else if unat i < 256 ^ 4 then 4
     else if unat i < 256 ^ 5 then 5 else if unat i < 256 ^ 6 then 6
     else if unat i < 256 ^ 7 then 7 else 8) (unat i)"
proof -
  note c = ucast_drop_bit [of 0 i, simplified] ucast_drop_bit [of 1 i, simplified]
    ucast_drop_bit [of 2 i, simplified] ucast_drop_bit [of 3 i, simplified]
    ucast_drop_bit [of 4 i, simplified] ucast_drop_bit [of 5 i, simplified]
    ucast_drop_bit [of 6 i, simplified] ucast_drop_bit [of 7 i, simplified]
  note l = less_push_bit [of 1 i, simplified] less_push_bit [of 2 i, simplified]
    less_push_bit [of 3 i, simplified] less_push_bit [of 4 i, simplified]
    less_push_bit [of 5 i, simplified] less_push_bit [of 6 i, simplified]
    less_push_bit [of 7 i, simplified]
  show ?thesis
    unfolding putint_def by (simp add: be_bytes_alt rev_upt_small c l)
qed

lemma putint_be_min: "i \<noteq> 0 \<Longrightarrow> putint i = be_min (unat i)"
proof -
  assume "i \<noteq> 0"
  then have pos: "0 < unat i" by (simp add: unat_gt_0)
  have all: "unat i < 256 ^ 8" using unsigned_less [where ?'a = nat, of i] by simp
  have "(if unat i < 256 then 1 else if unat i < 256 ^ 2 then 2
     else if unat i < 256 ^ 3 then 3 else if unat i < 256 ^ 4 then 4
     else if unat i < 256 ^ 5 then 5 else if unat i < 256 ^ 6 then 6
     else if unat i < 256 ^ 7 then 7 else 8) = nbytes (unat i)"
    using pos all
      nbytes_eq [of 0 "unat i"] nbytes_eq [of 1 "unat i"] nbytes_eq [of 2 "unat i"]
      nbytes_eq [of 3 "unat i"] nbytes_eq [of 4 "unat i"] nbytes_eq [of 5 "unat i"]
      nbytes_eq [of 6 "unat i"] nbytes_eq [of 7 "unat i"]
    by simp
  then show ?thesis unfolding putint_branches be_min_def by simp
qed

lemma intsize_nbytes: "i \<noteq> 0 \<Longrightarrow> intsize i = nbytes (unat i)"
proof (induction i rule: intsize.induct)
  case (1 i)
  have d: "unat (drop_bit 8 i) = unat i div 256"
    by (subst unat_drop_bit_eq) (simp add: drop_bit_eq_div)
  have pos: "unat i \<noteq> 0" using 1(2) by (simp add: unat_0_iff)
  show ?case
  proof (cases "drop_bit 8 i = 0")
    case True
    then have "unat i div 256 = 0" using d by simp
    then show ?thesis using True pos by (simp add: intsize.simps [of i] nbytes.simps [of "unat i"])
  next
    case False
    then show ?thesis
      using 1(1) [OF False False] d pos
      by (simp add: intsize.simps [of i] nbytes.simps [of "unat i"])
  qed
qed

lemma unat_of_nat_u64: "n < 2 ^ 64 \<Longrightarrow> unat (of_nat n :: u64) = n"
  by (simp add: unat_of_nat)

lemma of_nat_less_56: "n < 2 ^ 64 \<Longrightarrow> (of_nat n :: u64) < 56 \<longleftrightarrow> n < 56"
  by (simp add: word_less_nat_alt unat_of_nat_u64)

lemma of_nat_neq_0: "n < 2 ^ 64 \<Longrightarrow> n \<noteq> 0 \<Longrightarrow> (of_nat n :: u64) \<noteq> 0"
  by (metis unat_0 unat_of_nat_u64)

lemma puthead_rhead: "n < 2 ^ 64 \<Longrightarrow> puthead small large (of_nat n) = rhead small large n"
proof -
  assume n: "n < 2 ^ 64"
  show ?thesis
  proof (cases "n < 56")
    case True
    have "(ucast (of_nat n :: u64) :: byte) = of_nat n"
      using n by (metis of_nat_unat unat_of_nat_u64)
    then show ?thesis using True n by (simp add: puthead_def rhead_def of_nat_less_56)
  next
    case False
    then have "putint (of_nat n) = be_min n"
      using n by (simp add: putint_be_min of_nat_neq_0 unat_of_nat_u64)
    then show ?thesis
      using False n by (simp add: puthead_def rhead_def of_nat_less_56 Let_def)
  qed
qed

lemma length_rhead:
  "n < 2 ^ 64 \<Longrightarrow> length (rhead small large n) = (if n < 56 then 1 else 1 + intsize (of_nat n))"
  by (simp add: rhead_def intsize_nbytes of_nat_neq_0 unat_of_nat_u64)

lemma headsize_rhead: "n < 2 ^ 64 \<Longrightarrow> headsize (of_nat n) = length (rhead small large n)"
  by (simp add: headsize_def length_rhead of_nat_less_56)

section \<open>The buffer emits the specification\<close>

definition shift_lh :: "nat \<Rightarrow> listhead \<Rightarrow> listhead" where
  "shift_lh k h = h\<lparr>lh_offset := lh_offset h + k\<rparr>"

lemma shift_lh_simps [simp]:
  "lh_offset (shift_lh k h) = lh_offset h + k"
  "lh_encode (shift_lh k h) = lh_encode h"
  by (simp_all add: shift_lh_def lh_encode_def)

lemma shift_shift [simp]: "shift_lh a (shift_lh b h) = shift_lh (b + a) h"
  by (simp add: shift_lh_def add.assoc)

text \<open>Headers whose offsets start at or after \<open>p\<close>, are ordered, and lie within the data.\<close>

fun heads_ok :: "nat \<Rightarrow> nat \<Rightarrow> listhead list \<Rightarrow> bool" where
  "heads_ok p n [] = (p \<le> n)"
| "heads_ok p n (h # hs) = (p \<le> lh_offset h \<and> lh_offset h \<le> n \<and> heads_ok (lh_offset h) n hs)"

lemma heads_ok_le: "heads_ok p n hs \<Longrightarrow> p \<le> n"
  by (cases hs) auto

lemma heads_ok_mono: "heads_ok p n hs \<Longrightarrow> n \<le> n' \<Longrightarrow> heads_ok p n' hs"
  by (induction hs arbitrary: p) auto

lemma heads_ok_antimono: "heads_ok p n hs \<Longrightarrow> p' \<le> p \<Longrightarrow> heads_ok p' n hs"
  by (cases hs) auto

lemma heads_ok_append:
  "heads_ok p a hs \<Longrightarrow> heads_ok 0 b hs' \<Longrightarrow> heads_ok p (a + b) (hs @ map (shift_lh a) hs')"
proof (induction hs arbitrary: p)
  case Nil
  have "heads_ok (q + a) (a + b) (map (shift_lh a) hs')" if "heads_ok q b hs'" for q
    using that
  proof (induction hs' arbitrary: q)
    case (Cons h hs)
    then show ?case using Cons.IH [of "lh_offset h"] by simp
  qed simp
  from this [of 0] show ?case using Nil by (auto intro: heads_ok_antimono)
next
  case (Cons h hs)
  then show ?case by auto
qed

lemma copyTo_shift:
  "copyTo (s1 @ s2) (length s1 + q) (map (shift_lh (length s1)) hs) = copyTo s2 q hs"
proof (induction hs arbitrary: q)
  case Nil
  then show ?case by simp
next
  case (Cons h hs)
  then show ?case
    using Cons.IH [of "q + min (length s2 - q) (lh_offset h - q)"] by (simp add: Let_def add.assoc)
qed

lemma copyTo_after:
  "p \<le> length s1 \<Longrightarrow>
   copyTo (s1 @ s2) p (map (shift_lh (length s1)) hs) = drop p s1 @ copyTo s2 0 hs"
proof (cases hs)
  case Nil
  then show ?thesis if "p \<le> length s1" using that by simp
next
  case (Cons h hs')
  assume p: "p \<le> length s1"
  have piece: "take (lh_offset h + length s1 - p) (drop p (s1 @ s2)) = drop p s1 @ take (lh_offset h) s2"
    using p by (simp add: add.commute)
  have "p + length (drop p s1 @ take (lh_offset h) s2) = length s1 + length (take (lh_offset h) s2)"
    using p by simp
  then show ?thesis
    unfolding Cons by (simp only: list.map copyTo.simps Let_def shift_lh_simps piece copyTo_shift) simp
qed

lemma copyTo_append:
  "heads_ok p (length s1) hs1 \<Longrightarrow>
   copyTo (s1 @ s2) p (hs1 @ map (shift_lh (length s1)) hs2) = copyTo s1 p hs1 @ copyTo s2 0 hs2"
proof (induction hs1 arbitrary: p)
  case Nil
  then show ?case by (simp add: copyTo_after)
next
  case (Cons h hs)
  then have o: "p \<le> lh_offset h" "lh_offset h \<le> length s1" and r: "heads_ok (lh_offset h) (length s1) hs"
    by auto
  have t: "take (lh_offset h - p) (drop p (s1 @ s2)) = take (lh_offset h - p) (drop p s1)"
    using o by simp
  have l: "p + length (take (lh_offset h - p) (drop p s1)) = lh_offset h"
    using o by simp
  show ?case
    using Cons.IH [OF r] by (simp only: append_Cons copyTo.simps Let_def t l) simp
qed

definition emits :: "encBuffer \<Rightarrow> encBuffer \<Rightarrow> byte list \<Rightarrow> bool" where
  "emits b b' out \<longleftrightarrow> (\<exists>s hs. eb_str b' = eb_str b @ s
     \<and> eb_lheads b' = eb_lheads b @ map (shift_lh (length (eb_str b))) hs
     \<and> heads_ok 0 (length s) hs \<and> copyTo s 0 hs = out
     \<and> eb_lhsize b' + length s = eb_lhsize b + length out)"

lemma emits_refl: "emits b b []"
  unfolding emits_def by (intro exI [of _ "[]"]) simp

lemma emits_trans:
  assumes "emits a b o1" and "emits b c o2"
  shows "emits a c (o1 @ o2)"
proof -
  obtain s1 h1 where 1: "eb_str b = eb_str a @ s1"
      "eb_lheads b = eb_lheads a @ map (shift_lh (length (eb_str a))) h1"
      "heads_ok 0 (length s1) h1" "copyTo s1 0 h1 = o1"
      "eb_lhsize b + length s1 = eb_lhsize a + length o1"
    using assms(1) unfolding emits_def by blast
  obtain s2 h2 where 2: "eb_str c = eb_str b @ s2"
      "eb_lheads c = eb_lheads b @ map (shift_lh (length (eb_str b))) h2"
      "heads_ok 0 (length s2) h2" "copyTo s2 0 h2 = o2"
      "eb_lhsize c + length s2 = eb_lhsize b + length o2"
    using assms(2) unfolding emits_def by blast
  have "eb_lheads c = eb_lheads a @
      map (shift_lh (length (eb_str a))) (h1 @ map (shift_lh (length s1)) h2)"
    using 1 2 by (simp add: add.commute o_def)
  moreover have "heads_ok 0 (length (s1 @ s2)) (h1 @ map (shift_lh (length s1)) h2)"
    using heads_ok_append [OF 1(3) 2(3)] by simp
  moreover have "copyTo (s1 @ s2) 0 (h1 @ map (shift_lh (length s1)) h2) = o1 @ o2"
    using copyTo_append [OF 1(3)] 1(4) 2(4) by simp
  ultimately show ?thesis
    unfolding emits_def using 1(1,5) 2(1,5)
    by (intro exI [of _ "s1 @ s2"] exI [of _ "h1 @ map (shift_lh (length s1)) h2"]) simp
qed

lemma emits_append [intro]: "emits b (eb_append bs b) bs"
  unfolding emits_def eb_append_def by (intro exI [of _ bs] exI [of _ "[]"]) simp

lemma emits_makeBytes: "emits reset b out \<Longrightarrow> makeBytes b = out \<and> eb_size b = length out"
  unfolding emits_def makeBytes_def reset_def eb_size_def shift_lh_def by (auto simp: map_idI)

text \<open>Opening a list, emitting its content and closing it emits header and content.\<close>

lemma emits_list:
  assumes lb: "list_begin b = (i, b1)" and c: "emits b1 b2 out" and n: "length out < 2 ^ 64"
  shows "emits b (listEnd_w i b2) (rhead 0xC0 0xF7 (length out) @ out)"
proof -
  define h0 where "h0 = \<lparr>lh_offset = length (eb_str b), lh_size = eb_lhsize b\<rparr>"
  have i: "i = length (eb_lheads b)" and b1: "b1 = b\<lparr>eb_lheads := eb_lheads b @ [h0]\<rparr>"
    using lb by (auto simp: list_begin_def h0_def)
  obtain s hs where s: "eb_str b2 = eb_str b @ s"
      "eb_lheads b2 = (eb_lheads b @ [h0]) @ map (shift_lh (length (eb_str b))) hs"
      "heads_ok 0 (length s) hs" "copyTo s 0 hs = out"
      "eb_lhsize b2 + length s = eb_lhsize b + length out"
    using c unfolding emits_def b1 by auto
  have sz: "eb_size b2 - lh_offset h0 - lh_size h0 = length out"
    using s(1,5) by (simp add: eb_size_def h0_def)
  then have sz': "eb_size b2 - (length (eb_str b) + eb_lhsize b) = length out"
    by (simp add: h0_def)
  define h1 where "h1 = \<lparr>lh_offset = 0, lh_size = length out\<rparr>"
  have idx: "eb_lheads b2 ! i = h0" using s(2) i by (simp add: nth_append)
  have hs: "eb_lheads (listEnd_w i b2) =
      eb_lheads b @ map (shift_lh (length (eb_str b))) (h1 # hs)"
    using s(2) i by (simp add: listEnd_w_def Let_def idx sz' list_update_append h1_def h0_def shift_lh_def)
  have lh: "lh_encode h1 = rhead 0xC0 0xF7 (length out)"
    using n by (simp add: lh_encode_def h1_def puthead_rhead)
  show ?thesis
    unfolding emits_def
  proof (intro exI [of _ s] exI [of _ "h1 # hs"] conjI)
    show "eb_str (listEnd_w i b2) = eb_str b @ s" using s(1) by (simp add: listEnd_w_def Let_def)
    show "eb_lheads (listEnd_w i b2) = eb_lheads b @ map (shift_lh (length (eb_str b))) (h1 # hs)"
      by (rule hs)
    show "heads_ok 0 (length s) (h1 # hs)" using s(3) by (simp add: h1_def)
    show "copyTo s 0 (h1 # hs) = rhead 0xC0 0xF7 (length out) @ out"
      using s(4) by (simp add: lh h1_def [THEN arg_cong, of lh_offset, simplified])
    show "eb_lhsize (listEnd_w i b2) + length s = eb_lhsize b + length (rhead 0xC0 0xF7 (length out) @ out)"
      using s(5) n by (simp add: listEnd_w_def Let_def idx sz' h0_def length_rhead)
  qed
qed

end
