(* ===== verification/Rlp_Correct.thy ===== *)
theory Rlp_Correct
  imports Rlp_Spec
begin

text \<open>
  Correctness of the RLP writers: every well-typed value is written without error, and the bytes
  the buffer holds at the end are the specification's encoding of the value.
\<close>

section \<open>Strings and integers\<close>

lemma bitLen_upper: "n < 2 ^ bitLen n"
proof (induction n rule: bitLen.induct)
  case (1 n)
  show ?case
  proof (cases "n = 0")
    case False
    with 1 have "n div 2 < 2 ^ bitLen (n div 2)" by simp
    then show ?thesis using False by (subst bitLen.simps) simp
  qed simp
qed

lemma bitLen_lower: "n \<noteq> 0 \<Longrightarrow> 2 ^ (bitLen n - 1) \<le> n"
proof (induction n rule: bitLen.induct)
  case (1 n)
  show ?case
  proof (cases "n div 2 = 0")
    case True
    then show ?thesis using 1(2) by (simp add: bitLen.simps [of n] bitLen.simps [of 0])
  next
    case False
    then have "bitLen (n div 2) = Suc (bitLen (n div 2 div 2))" by (subst bitLen.simps) simp
    then obtain k where k: "bitLen (n div 2) = Suc k" by blast
    from 1(1) [OF 1(2) False] k have "2 ^ k \<le> n div 2" by simp
    then show ?thesis using 1(2) k by (simp add: bitLen.simps [of n])
  qed
qed

lemma bitLen_le_iff: "bitLen n \<le> k \<longleftrightarrow> n < 2 ^ k"
proof
  assume "bitLen n \<le> k"
  then have "(2::nat) ^ bitLen n \<le> 2 ^ k" by (simp add: power_increasing)
  with bitLen_upper [of n] show "n < 2 ^ k" by linarith
next
  assume n: "n < 2 ^ k"
  show "bitLen n \<le> k"
  proof (rule ccontr)
    assume "\<not> bitLen n \<le> k"
    then have k: "k \<le> bitLen n - 1" and "n \<noteq> 0"
      using bitLen.simps [of n] by (auto split: if_splits)
    then have "(2::nat) ^ k \<le> n"
      using bitLen_lower [of n] power_increasing [of k "bitLen n - 1" "2::nat"] by linarith
    with n show False by simp
  qed
qed

lemma bitLen_bytes: "(bitLen n + 7) div 8 = nbytes n"
proof (rule antisym)
  have "bitLen n \<le> 8 * nbytes n"
    using nbytes_upper [of n] by (simp add: bitLen_le_iff power_mult)
  then show "(bitLen n + 7) div 8 \<le> nbytes n" by linarith
  have "n < 256 ^ ((bitLen n + 7) div 8)"
  proof -
    have "(2::nat) ^ bitLen n \<le> 2 ^ (8 * ((bitLen n + 7) div 8))"
      by (rule power_increasing) linarith+
    then show ?thesis using bitLen_upper [of n] by (simp add: power_mult)
  qed
  then show "nbytes n \<le> (bitLen n + 7) div 8" by (rule nbytes_le)
qed

lemma emits_encodeStringHeader:
  "n < 2 ^ 64 \<Longrightarrow> emits b (encodeStringHeader n b) (rhead 0x80 0xB7 n)"
  unfolding encodeStringHeader_def rhead_def Let_def
  by (simp add: emits_append putint_be_min of_nat_neq_0 unat_of_nat_u64)

lemma emits_string:
  "length s < 2 ^ 64 \<Longrightarrow>
   emits b (eb_append s (encodeStringHeader (length s) b)) (rhead 0x80 0xB7 (length s) @ s)"
  by (rule emits_trans [OF emits_encodeStringHeader emits_append])

lemma word_le_7f: "(x :: byte) \<le> 0x7F \<longleftrightarrow> x < 0x80"
  by (simp add: word_le_nat_alt word_less_nat_alt) linarith

lemma emits_writeBytes: "length s < 2 ^ 64 \<Longrightarrow> emits b (writeBytes s b) (enc_str s)"
proof (cases "length s = 1 \<and> s ! 0 < 0x80")
  case True
  then have "s = [s ! 0]" by (cases s) auto
  then show ?thesis
    using True emits_append [of b s] by (simp add: writeBytes_def enc_str_def word_le_7f)
next
  case False
  then show ?thesis if "length s < 2 ^ 64"
    using emits_string [OF that] False by (auto simp: writeBytes_def enc_str_def word_le_7f)
qed

lemma be_min_small: "0 < n \<Longrightarrow> n < 256 \<Longrightarrow> be_min n = [of_nat n]"
  using nbytes_eq [of 0 n] be_bytes_alt [of 1 n] by (simp add: be_min_def)

lemma nbytes_u64: "nbytes (unat (i :: u64)) \<le> 8"
  using unsigned_less [where ?'a = nat, of i] by (intro nbytes_le) simp

lemma emits_writeUint64: "emits b (writeUint64 i b) (enc_str (be_min (unat i)))"
proof -
  consider "i = 0" | "i \<noteq> 0" "i < 128" | "128 \<le> i" by fastforce
  then show ?thesis
  proof cases
    case 1
    then show ?thesis by (simp add: writeUint64_def enc_str_def rhead_def emits_append)
  next
    case 2
    then have u: "0 < unat i" "unat i < 128"
      by (simp_all add: unat_gt_0 word_less_nat_alt)
    moreover have "(ucast i :: byte) = of_nat (unat i)" by (metis of_nat_unat)
    moreover have "unat (of_nat (unat i) :: byte) = unat i" using u by (subst unat_of_nat) simp
    ultimately show ?thesis
      using 2 be_min_small [of "unat i"]
      by (simp add: writeUint64_def enc_str_def word_less_nat_alt emits_append)
  next
    case 3
    then have u: "128 \<le> unat i" and ne: "i \<noteq> 0" "\<not> i < 128"
      by (auto simp: word_le_nat_alt word_less_nat_alt)
    have n: "\<not> (length (be_min (unat i)) = 1 \<and> be_min (unat i) ! 0 < 0x80)"
    proof
      assume a: "length (be_min (unat i)) = 1 \<and> be_min (unat i) ! 0 < 0x80"
      then have "unat i < 256" using nbytes_upper [of "unat i"] by simp
      then have "be_min (unat i) = [of_nat (unat i)]" using u by (intro be_min_small) auto
      then have "(of_nat (unat i) :: byte) < 0x80" using a by simp
      moreover have "unat (of_nat (unat i) :: byte) = unat i"
        using \<open>unat i < 256\<close> by (subst unat_of_nat) simp
      ultimately have "unat i < 128"
        by (simp only: word_less_nat_alt) simp
      with u show False by simp
    qed
    show ?thesis
      using 3 ne n nbytes_u64 [of i]
      by (auto simp: writeUint64_def enc_str_def rhead_def putint_be_min Let_def emits_append)
  qed
qed

lemma emits_writeBigInt:
  assumes "0 \<le> i" and "length (be_min (nat i)) < 2 ^ 64"
  shows "emits b (writeBigInt i b) (enc_str (be_min (nat i)))"
proof (cases "bitLen (nat i) \<le> 64")
  case True
  then have "nat i < 2 ^ 64" by (simp only: bitLen_le_iff)
  then have "unat (big_Uint64 i) = nat i"
    using assms(1) unat_of_nat_u64 [of "nat i"] by (simp add: big_Uint64_def)
  then show ?thesis
    using True assms emits_writeUint64 [of b "big_Uint64 i"] by (simp add: writeBigInt_def)
next
  case False
  then have "\<not> nat i < 2 ^ 64" using bitLen_le_iff [of "nat i" 64] by blast
  then have n: "length (be_min (nat i)) \<noteq> 1"
    proof -
    have "nbytes (nat i) \<noteq> 1"
    proof
      assume "nbytes (nat i) = 1"
      then have "nat i < 256" using nbytes_upper [of "nat i"] by simp
      then have "nat i < 2 ^ 64" by (rule less_trans) simp
      with \<open>\<not> nat i < 2 ^ 64\<close> show False by blast
    qed
    then show ?thesis by simp
  qed
  show ?thesis
    using False assms n emits_string [OF assms(2), of b]
    by (simp add: writeBigInt_def Let_def bitLen_bytes enc_str_def be_min_def [symmetric])
qed

section \<open>Values\<close>

definition writes :: "(encBuffer \<Rightarrow> enc_error + encBuffer) \<Rightarrow> byte list \<Rightarrow> bool" where
  "writes w out \<longleftrightarrow> (\<forall>b. \<exists>b'. w b = Inr b' \<and> emits b b' out)"

lemma writes_Inr: "(\<And>b. emits b (f b) out) \<Longrightarrow> writes (\<lambda>b. Inr (f b)) out"
  unfolding writes_def by blast

lemma writes_seq: "list_all2 writes ws outs \<Longrightarrow> writes (write_seq ws) (concat outs)"
proof (induction ws outs rule: list_all2_induct)
  case Nil
  then show ?case by (simp add: writes_def emits_refl)
next
  case (Cons w ws out outs)
  show ?case
    unfolding writes_def
  proof
    fix b
    obtain b1 where 1: "w b = Inr b1" "emits b b1 out" using Cons(1) unfolding writes_def by blast
    obtain b2 where "write_seq ws b1 = Inr b2" "emits b1 b2 (concat outs)"
      using Cons(3) unfolding writes_def by blast
    then show "\<exists>b'. write_seq (w # ws) b = Inr b' \<and> emits b b' (concat (out # outs))"
      using 1 emits_trans by auto
  qed
qed

lemma writes_list:
  assumes "writes (write_seq ws) out" and "length out < 2 ^ 64"
  shows "writes (\<lambda>b. let (i, b1) = list_begin b in map_sum id (listEnd_w i) (write_seq ws b1))
           (rhead 0xC0 0xF7 (length out) @ out)"
  unfolding writes_def
proof
  fix b
  obtain i b1 where lb: "list_begin b = (i, b1)" by (cases "list_begin b") auto
  obtain b2 where "write_seq ws b1 = Inr b2" "emits b1 b2 out"
    using assms(1) unfolding writes_def by blast
  then show "\<exists>b'. (let (i, b1) = list_begin b in map_sum id (listEnd_w i) (write_seq ws b1)) = Inr b'
      \<and> emits b b' (rhead 0xC0 0xF7 (length out) @ out)"
    using emits_list [OF lb _ assms(2)] lb by simp
qed

lemma rlp_enc_length_ge:
  "x \<in> set xs \<Longrightarrow> length (rlp_enc x) \<le> length (rlp_enc (Lst xs))"
  "length (concat (map rlp_enc xs)) \<le> length (rlp_enc (Lst xs))"
proof -
  have "length (rlp_enc x) \<le> length (concat (map rlp_enc xs))" if "x \<in> set xs"
    using that by (induction xs) auto
  then show "x \<in> set xs \<Longrightarrow> length (rlp_enc x) \<le> length (rlp_enc (Lst xs))"
    by (auto simp: Let_def intro: trans_le_add2)
qed (simp add: Let_def)

lemma enc_str_length_ge: "length s \<le> length (enc_str s)"
  by (simp add: enc_str_def)

text \<open>
  Types the encoder and decoder are used with: pointers point to types with a proper encoding
  (never to a pointer or a \<^verbatim>\<open>*big.Int\<close>, which are pointers already).
\<close>

lemma nilEncoding_cases: "nilEncoding t = 0x80 \<or> nilEncoding t = 0xC0"
  by (cases t) auto

lemma enc_str_Nil [simp]: "enc_str [] = [0x80]"
  by (simp add: enc_str_def rhead_def)

lemma rlp_enc_Lst_Nil: "rlp_enc (Lst []) = [0xC0]"
  by (simp add: rhead_def)

lemma writes_writeBytes: "length s < 2 ^ 64 \<Longrightarrow> writes (\<lambda>b. Inr (writeBytes s b)) (enc_str s)"
  by (intro writes_Inr emits_writeBytes)

lemma writer_array:
  assumes "length s = n" and "n < 2 ^ 64"
  shows "writes (writer (TByteArray n) (VBytes s)) (enc_str s)"
proof -
  consider "n = 0" | "n = 1" | "1 < n" by linarith
  then show ?thesis
  proof cases
    case 1
    then show ?thesis using assms by (auto simp: writes_def intro!: exI emits_append)
  next
    case 2
    then have s: "s = [s ! 0]" using assms by (cases s) auto
    have "writer (TByteArray n) (VBytes s) = (\<lambda>b. Inr (writeBytes s b))"
    proof
      fix b
      show "writer (TByteArray n) (VBytes s) b = Inr (writeBytes s b)"
        using 2 assms s
        by (auto simp: writeBytes_def encodeStringHeader_def eb_append_def)
    qed
    then show ?thesis using assms by (simp add: writes_writeBytes)
  next
    case 3
    then have "writer (TByteArray n) (VBytes s) = (\<lambda>b. Inr (writeBytes s b))"
      using assms by (auto simp: writeBytes_def fun_eq_iff)
    then show ?thesis using assms by (simp add: writes_writeBytes)
  qed
qed

lemma map_writes:
  assumes "\<And>v. v \<in> set vs \<Longrightarrow> writes (writer t v) (rlp_enc (item_of t v))"
  shows "list_all2 writes (map (writer t) vs) (map rlp_enc (map (item_of t) vs))"
  using assms by (simp add: list_all2_conv_all_nth)

lemma writer_slice:
  assumes w: "\<And>v. v \<in> set vs \<Longrightarrow> writes (writer t v) (rlp_enc (item_of t v))"
    and n: "length (rlp_enc (item_of (TSlice t) (VList vs))) < 2 ^ 64"
  shows "writes (writer (TSlice t) (VList vs)) (rlp_enc (item_of (TSlice t) (VList vs)))"
proof (cases "vs = []")
  case True
  then show ?thesis
    by (auto simp: writes_def rhead_def intro!: exI emits_append)
next
  case False
  define out where "out = concat (map rlp_enc (map (item_of t) vs))"
  have "writes (write_seq (map (writer t) vs)) out"
    unfolding out_def by (rule writes_seq [OF map_writes [OF w]])
  moreover have "length out < 2 ^ 64"
    using rlp_enc_length_ge(2) [of "map (item_of t) vs"] n unfolding out_def by simp
  ultimately have "writes (writer (TSlice t) (VList vs)) (rhead 0xC0 0xF7 (length out) @ out)"
    using writes_list False by (simp add: writes_def)
  then show ?thesis by (simp add: out_def Let_def)
qed

lemma writer_struct:
  assumes w: "list_all2 writes (field_writers fs vs) (map rlp_enc (items_of fs vs))"
    and len: "length vs = length fs"
    and n: "length (rlp_enc (item_of (TStruct fs) (VList vs))) < 2 ^ 64"
  shows "writes (writer (TStruct fs) (VList vs)) (rlp_enc (item_of (TStruct fs) (VList vs)))"
proof -
  define k where "k = lastField fs vs"
  define out where "out = concat (map rlp_enc (take k (items_of fs vs)))"
  have "list_all2 writes (take k (field_writers fs vs)) (map rlp_enc (take k (items_of fs vs)))"
    using w by (simp add: list_all2_takeI take_map [symmetric])
  then have "writes (write_seq (take k (field_writers fs vs))) out"
    unfolding out_def by (rule writes_seq)
  moreover have "length out < 2 ^ 64"
    using rlp_enc_length_ge(2) [of "take k (items_of fs vs)"] n unfolding out_def k_def by simp
  ultimately have "writes (writer (TStruct fs) (VList vs)) (rhead 0xC0 0xF7 (length out) @ out)"
    using writes_list len by (simp add: writes_def k_def)
  then show ?thesis by (simp add: out_def k_def Let_def)
qed

lemma wts_length: "wts fs vs \<Longrightarrow> length vs = length fs"
proof (induction fs arbitrary: vs)
  case Nil
  then show ?case by (cases vs) auto
next
  case (Cons f fs)
  then show ?case by (cases vs; cases f) auto
qed

lemma wts_length_items: "wts fs vs \<Longrightarrow> length (items_of fs vs) = length fs"
proof (induction fs arbitrary: vs)
  case (Cons f fs)
  then show ?case by (cases vs; cases f) auto
qed simp

lemma wts_nth:
  "wts fs vs \<Longrightarrow> i < length fs \<Longrightarrow>
   wt (fst (fs ! i)) (vs ! i) \<and> items_of fs vs ! i = item_of (fst (fs ! i)) (vs ! i)"
proof (induction fs arbitrary: vs i)
  case (Cons f fs)
  then show ?case by (cases vs; cases f; cases i) auto
qed simp

text \<open>The fields the encoder cuts are nil pointers.\<close>

lemma dropWhile_rev_nth:
  "length (dropWhile P (rev xs)) \<le> i \<Longrightarrow> i < length xs \<Longrightarrow> P (xs ! i)"
proof (induction xs rule: rev_induct)
  case (snoc x xs)
  then show ?case by (cases "i < length xs") (auto simp: nth_append split: if_splits)
qed simp

lemma lastField_nil:
  assumes "length vs = length fs" and "lastField fs vs \<le> i" and "i < length fs"
  shows "snd (fs ! i) \<and> vs ! i = VNil"
  using dropWhile_rev_nth [of "\<lambda>(f, v). snd f \<and> v = VNil" "zip fs vs" i] assms by simp

lemma rlp_enc_nil: "wt t VNil \<Longrightarrow> length (rlp_enc (item_of t VNil)) = 1"
  by (cases t) (auto simp: rhead_def)

lemma struct_items_bounded:
  assumes w: "wts fs vs" and n: "length (rlp_enc (item_of (TStruct fs) (VList vs))) < 2 ^ 64"
  shows "list_all (\<lambda>x. length (rlp_enc x) < 2 ^ 64) (items_of fs vs)"
  unfolding list_all_length
proof (intro allI impI)
  fix i
  assume i: "i < length (items_of fs vs)"
  show "length (rlp_enc (items_of fs vs ! i)) < 2 ^ 64"
  proof (cases "i < lastField fs vs")
    case True
    then have "items_of fs vs ! i \<in> set (take (lastField fs vs) (items_of fs vs))"
      using i by (auto simp: in_set_conv_nth)
    from rlp_enc_length_ge(1) [OF this] n show ?thesis by simp
  next
    case False
    then have "vs ! i = VNil"
      using lastField_nil [OF wts_length [OF w]] i wts_length_items [OF w] by simp
    then show ?thesis
      using rlp_enc_nil [of "fst (fs ! i)"] wts_nth [OF w, of i] i wts_length_items [OF w] by simp
  qed
qed

lemma writer_correct:
  "wt t v \<Longrightarrow> length (rlp_enc (item_of t v)) < 2 ^ 64 \<Longrightarrow> writes (writer t v) (rlp_enc (item_of t v))"
  "wts fs vs \<Longrightarrow> list_all (\<lambda>x. length (rlp_enc x) < 2 ^ 64) (items_of fs vs) \<Longrightarrow>
   list_all2 writes (field_writers fs vs) (map rlp_enc (items_of fs vs))"
proof (induction t v and fs vs rule: wt_wts.induct)
  case (1 n v)
  then show ?case
    by (auto split: rval.splits simp: writes_def intro!: exI emits_writeUint64)
next
  case (2 v)
  then show ?case
    by (auto split: rval.splits simp: writes_def intro!: exI emits_append emits_writeBigInt
        dest: order.strict_trans1 [OF enc_str_length_ge])
next
  case (3 v)
  then show ?case
    by (auto split: rval.splits simp: writes_def intro!: exI emits_writeBytes
        dest: order.strict_trans1 [OF enc_str_length_ge])
next
  case (4 n v)
  then obtain s where s: "v = VBytes s" "length s = n" by (auto split: rval.splits)
  then have "n < 2 ^ 64" using 4(2) enc_str_length_ge [of s] by simp
  then show ?case using writer_array [OF s(2)] by (simp only: s(1) item_of.simps rval.case rlp_enc.simps)
next
  case (5 t v)
  then obtain vs where v: "v = VList vs" "list_all (wt t) vs" by (auto split: rval.splits)
  have "writes (writer t x) (rlp_enc (item_of t x))" if x: "x \<in> set vs" for x
  proof (rule 5(1) [OF v(1) x])
    show "wt t x" using v(2) x by (simp add: list_all_iff)
    show "length (rlp_enc (item_of t x)) < 2 ^ 64"
      using rlp_enc_length_ge(1) [of "item_of t x" "map (item_of t) vs"] 5(3) v(1) x by simp
  qed
  then show ?case using writer_slice 5(3) v(1) by blast
next
  case (6 fs v)
  then obtain vs where v: "v = VList vs" "wts fs vs" by (auto split: rval.splits)
  have "length (rlp_enc (item_of (TStruct fs) (VList vs))) < 2 ^ 64" using 6(3) v(1) by simp
  then show ?case
    using writer_struct [OF 6(1) [OF v(1,2)] wts_length [OF v(2)]] struct_items_bounded [OF v(2)] v(1)
    by blast
next
  case (7 t v)
  show ?case
  proof (cases "v = VNil")
    case True
    then show ?thesis
      using nilEncoding_cases [of t] by (auto simp: writes_def rhead_def intro!: exI emits_append)
  next
    case False
    then have "writer (TPtr t) v = writer t v" by (simp add: fun_eq_iff)
    then show ?thesis using 7 False by simp
  qed
qed auto


lemma EncodeToBytes_spec:
  assumes "wt t v" and "length (rlp_enc (item_of t v)) < 2 ^ 64"
  shows "EncodeToBytes t v = Inr (rlp_enc (item_of t v))"
proof -
  obtain b where "writer t v reset = Inr b" "emits reset b (rlp_enc (item_of t v))"
    using writer_correct(1) [OF assms] unfolding writes_def by blast
  then show ?thesis using emits_makeBytes by (simp add: EncodeToBytes_def)
qed



end
