(* ===== verification/Rlp_Decode.thy ===== *)
theory Rlp_Decode
  imports Rlp_Encode
begin

text \<open>
  The RLP decoder of \<^verbatim>\<open>src/rlp/decode.go\<close>: the stream with its input limits and stack of list
  sizes, the reading of kinds, sizes and integers with the canonicality checks, and the
  type-directed decoders for the reflected types of \<open>Rlp_Encode\<close>.
\<close>

section \<open>The stream\<close>

datatype rlp_err =
    EOL
  | EOF
  | ErrUnexpectedEOF
  | ErrExpectedString
  | ErrExpectedList
  | ErrCanonInt
  | ErrCanonSize
  | ErrElemTooLarge
  | ErrValueTooLarge
  | ErrMoreThanOneValue
  | ErrUintOverflow
  | ErrNotInList
  | ErrNotAtEOL
  | DecodeErr string
  | RlpFuel

datatype kind = Byte | String | List

text \<open>
  Sizes are natural numbers: the code subtracts from a limit only after comparing with it, and
  reads sizes of at most eight bytes. \<open>st_kind = None\<close> is the code's \<^verbatim>\<open>s.kind = -1\<close>; the
  head of \<open>st_stack\<close> is the innermost list.
\<close>

record stream =
  st_input :: "byte list"
  st_remaining :: nat
  st_size :: nat
  st_kinderr :: "rlp_err option"
  st_stack :: "nat list"
  st_kind :: "kind option"
  st_byteval :: byte
  st_limited :: bool

type_synonym 'a reader = "(stream, rlp_err, 'a) comp"

text \<open>\<^verbatim>\<open>Reset\<close> on the slice reader of \<^verbatim>\<open>DecodeBytes\<close>: an input limit of 0 means no limit.\<close>

definition Reset :: "byte list \<Rightarrow> stream" where
  "Reset b = \<lparr>st_input = b, st_remaining = length b, st_size = 0, st_kinderr = None,
     st_stack = [], st_kind = None, st_byteval = 0, st_limited = (0 < length b)\<rparr>"

definition listLimit :: "stream \<Rightarrow> nat option" where
  "listLimit s = (case st_stack s of [] \<Rightarrow> None | l # _ \<Rightarrow> Some l)"

definition set_top :: "nat \<Rightarrow> stream \<Rightarrow> stream" where
  "set_top l s = s\<lparr>st_stack := l # tl (st_stack s)\<rparr>"

definition rearm :: "stream \<Rightarrow> stream" where
  "rearm s = s\<lparr>st_kind := None\<rparr>"

definition willRead :: "nat \<Rightarrow> unit reader" where
  "willRead n s0 =
    (let s = rearm s0 in
     case listLimit s of
       Some limit \<Rightarrow>
         if limit < n then (s, Inl ErrElemTooLarge)
         else let s1 = set_top (limit - n) s in
           if st_limited s1 then
             if st_remaining s1 < n then (s1, Inl ErrValueTooLarge)
             else (s1\<lparr>st_remaining := st_remaining s1 - n\<rparr>, Inr ())
           else (s1, Inr ())
     | None \<Rightarrow>
         if st_limited s then
           if st_remaining s < n then (s, Inl ErrValueTooLarge)
           else (s\<lparr>st_remaining := st_remaining s - n\<rparr>, Inr ())
         else (s, Inr ()))"

definition readByte :: "byte reader" where
  "readByte = thenE (willRead 1)
    (\<lambda>s. case st_input s of [] \<Rightarrow> (s, Inl ErrUnexpectedEOF)
                          | b # bs \<Rightarrow> (s\<lparr>st_input := bs\<rparr>, Inr b))"

definition readFull :: "nat \<Rightarrow> byte list reader" where
  "readFull n = thenE (willRead n)
    (\<lambda>s. if length (st_input s) < n then (s\<lparr>st_input := []\<rparr>, Inl ErrUnexpectedEOF)
         else (s\<lparr>st_input := drop n (st_input s)\<rparr>, Inr (take n (st_input s))))"

definition readUint :: "nat \<Rightarrow> nat reader" where
  "readUint sz =
    (if sz = 0 then (\<lambda>s. (rearm s, Inr 0))
     else if sz = 1 then bindE readByte (\<lambda>b. ok (unat b))
     else bindE (readFull sz)
       (\<lambda>buffer. if hd buffer = 0 then fail ErrCanonSize else ok (be_val buffer)))"

text \<open>\<^verbatim>\<open>readKind\<close> returns kind, size and error together; on an error before the tag, kind is 0.\<close>

definition readKind :: "stream \<Rightarrow> stream \<times> kind \<times> nat \<times> rlp_err option" where
  "readKind s =
    (case readByte s of
       (s1, Inl err) \<Rightarrow>
         (s1, Byte, 0,
          Some (if st_stack s1 = [] then
                  if err = ErrUnexpectedEOF then EOF
                  else if err = ErrValueTooLarge then EOF else err
                else err))
     | (s1, Inr b) \<Rightarrow>
         let s2 = s1\<lparr>st_byteval := 0\<rparr> in
         if b < 0x80 then (s2\<lparr>st_byteval := b\<rparr>, Byte, 0, None)
         else if b < 0xB8 then (s2, String, unat (b - 0x80), None)
         else if b < 0xC0 then
           (case readUint (unat (b - 0xB7)) s2 of
              (s3, Inl e) \<Rightarrow> (s3, String, 0, Some e)
            | (s3, Inr sz) \<Rightarrow> (s3, String, sz, if sz < 56 then Some ErrCanonSize else None))
         else if b < 0xF8 then (s2, List, unat (b - 0xC0), None)
         else
           (case readUint (unat (b - 0xF7)) s2 of
              (s3, Inl e) \<Rightarrow> (s3, List, 0, Some e)
            | (s3, Inr sz) \<Rightarrow> (s3, List, sz, if sz < 56 then Some ErrCanonSize else None)))"

definition kind_result :: "stream \<Rightarrow> stream \<times> (rlp_err + kind \<times> nat)" where
  "kind_result s =
    (s, case st_kinderr s of Some e \<Rightarrow> Inl e | None \<Rightarrow> Inr (the (st_kind s), st_size s))"

definition Kind :: "(kind \<times> nat) reader" where
  "Kind s =
    (if st_kind s \<noteq> None then kind_result s
     else let lim = listLimit s in
       if lim = Some 0 then (s, Inl EOL)
       else
         (case readKind s of (s1, k, sz, err) \<Rightarrow>
            let err' = (if err = None then
                          (case lim of
                             Some l \<Rightarrow> if l < sz then Some ErrElemTooLarge
                                       else if st_limited s1 \<and> st_remaining s1 < sz
                                       then Some ErrValueTooLarge else None
                           | None \<Rightarrow> if st_limited s1 \<and> st_remaining s1 < sz
                                     then Some ErrValueTooLarge else None)
                        else err)
            in kind_result (s1\<lparr>st_kind := Some k, st_size := sz, st_kinderr := err'\<rparr>)))"

definition Bytes :: "byte list reader" where
  "Bytes = bindE Kind (\<lambda>(kind, sz). case kind of
     Byte \<Rightarrow> (\<lambda>s. (rearm s, Inr [st_byteval s]))
   | String \<Rightarrow> bindE (readFull sz)
       (\<lambda>b. if sz = 1 \<and> hd b < 128 then fail ErrCanonSize else ok b)
   | List \<Rightarrow> fail ErrExpectedString)"

definition stream_uint :: "nat \<Rightarrow> nat reader" where
  "stream_uint maxbits = bindE Kind (\<lambda>(kind, sz). case kind of
     Byte \<Rightarrow> (\<lambda>s. if st_byteval s = 0 then (s, Inl ErrCanonInt)
                  else (rearm s, Inr (unat (st_byteval s))))
   | String \<Rightarrow>
       if maxbits div 8 < sz then fail ErrUintOverflow
       else tryE (readUint sz)
         (\<lambda>r. case r of
            Inl err \<Rightarrow> fail (if err = ErrCanonSize then ErrCanonInt else err)
          | Inr v \<Rightarrow> if 0 < sz \<and> v < 128 then fail ErrCanonSize else ok v)
   | List \<Rightarrow> fail ErrExpectedString)"

definition List_begin :: "nat reader" where
  "List_begin = bindE Kind (\<lambda>(kind, sz).
     if kind \<noteq> List then fail ErrExpectedList
     else (\<lambda>s. let s1 = (case listLimit s of Some limit \<Rightarrow> set_top (limit - sz) s | None \<Rightarrow> s)
               in (s1\<lparr>st_stack := sz # st_stack s1, st_kind := None, st_size := 0\<rparr>, Inr sz)))"

definition ListEnd :: "unit reader" where
  "ListEnd s =
    (case listLimit s of
       None \<Rightarrow> (s, Inl ErrNotInList)
     | Some l \<Rightarrow>
         if 0 < l then (s, Inl ErrNotAtEOL)
         else (s\<lparr>st_stack := tl (st_stack s), st_kind := None, st_size := 0\<rparr>, Inr ()))"

definition decodeBigInt :: "int reader" where
  "decodeBigInt = bindE Kind (\<lambda>(kind, sz).
     let set_bytes = (\<lambda>buffer. if buffer \<noteq> [] \<and> hd buffer = 0 then fail ErrCanonInt
                               else ok (int (be_val buffer))) in
     case kind of
       List \<Rightarrow> fail ErrExpectedString
     | Byte \<Rightarrow> (\<lambda>s. set_bytes [st_byteval s] (rearm s))
     | String \<Rightarrow>
         if sz = 0 then (\<lambda>s. set_bytes [] (rearm s))
         else if sz \<le> 32 then
           bindE (readFull sz)
             (\<lambda>buffer. if sz = 1 \<and> hd buffer < 128 then fail ErrCanonSize else set_bytes buffer)
         else bindE (readFull sz) set_bytes)"

section \<open>Type-directed decoders\<close>

definition wrapStreamError :: "rlp_err \<Rightarrow> rlp_err" where
  "wrapStreamError err =
    (case err of
       ErrCanonInt \<Rightarrow> DecodeErr ''non-canonical integer (leading zero bytes)''
     | ErrCanonSize \<Rightarrow> DecodeErr ''non-canonical size information''
     | ErrExpectedList \<Rightarrow> DecodeErr ''expected input list''
     | ErrExpectedString \<Rightarrow> DecodeErr ''expected input string or byte''
     | ErrUintOverflow \<Rightarrow> DecodeErr ''input string too long''
     | ErrNotAtEOL \<Rightarrow> DecodeErr ''input list has too many elements''
     | _ \<Rightarrow> err)"

definition wrapped :: "'a reader \<Rightarrow> 'a reader" where
  "wrapped m s = (case m s of (s', Inl e) \<Rightarrow> (s', Inl (wrapStreamError e)) | (s', Inr a) \<Rightarrow> (s', Inr a))"

definition decodeByteArray :: "nat \<Rightarrow> byte list reader" where
  "decodeByteArray n = bindE Kind (\<lambda>(kind, sz). case kind of
     Byte \<Rightarrow>
       if n = 0 then fail (DecodeErr ''input string too long'')
       else if 1 < n then fail (DecodeErr ''input string too short'')
       else (\<lambda>s. (rearm s, Inr [st_byteval s]))
   | String \<Rightarrow>
       if n < sz then fail (DecodeErr ''input string too long'')
       else if sz < n then fail (DecodeErr ''input string too short'')
       else bindE (readFull n)
         (\<lambda>slice. if sz = 1 \<and> hd slice < 128 then fail (wrapStreamError ErrCanonSize) else ok slice)
   | List \<Rightarrow> fail (wrapStreamError ErrExpectedString))"

fun zero_val :: "rtype \<Rightarrow> rval"
and zero_fields :: "(rtype \<times> bool) list \<Rightarrow> rval list"
where
  "zero_val (TUint n) = VUint 0"
| "zero_val TBigInt = VNil"
| "zero_val TByteSlice = VBytes []"
| "zero_val (TByteArray n) = VBytes (replicate n 0)"
| "zero_val (TSlice t) = VList []"
| "zero_val (TStruct fs) = VList (zero_fields fs)"
| "zero_val (TPtr t) = VNil"
| "zero_fields [] = []"
| "zero_fields ((t, opt) # fs) = zero_val t # zero_fields fs"

text \<open>
  \<^verbatim>\<open>decodeSliceElems\<close>: elements until the end of the list. Every element consumes input, so the
  number of bytes left bounds the loop.
\<close>

fun decodeSliceElems :: "nat \<Rightarrow> rval reader \<Rightarrow> rval list reader" where
  "decodeSliceElems 0 elemdec s = (s, Inl RlpFuel)"
| "decodeSliceElems (Suc n) elemdec s =
    (case elemdec s of
       (s', Inl e) \<Rightarrow> if e = EOL then (s', Inr []) else (s', Inl e)
     | (s', Inr v) \<Rightarrow>
         (case decodeSliceElems n elemdec s' of
            (s'', Inl e) \<Rightarrow> (s'', Inl e)
          | (s'', Inr vs) \<Rightarrow> (s'', Inr (v # vs))))"

definition decodeListSlice :: "rval reader \<Rightarrow> rval list reader" where
  "decodeListSlice elemdec = bindE (wrapped List_begin) (\<lambda>sz.
     if sz = 0 then thenE ListEnd (ok [])
     else bindE (\<lambda>s. decodeSliceElems (Suc (length (st_input s))) elemdec s)
       (\<lambda>vs. thenE ListEnd (ok vs)))"

fun decoder :: "rtype \<Rightarrow> rval reader"
and field_decoders :: "(rtype \<times> bool) list \<Rightarrow> rval list reader"
where
  "decoder (TUint n) s = bindE (wrapped (stream_uint n)) (\<lambda>v. ok (VUint (of_nat v))) s"
| "decoder TBigInt s = bindE (wrapped decodeBigInt) (\<lambda>i. ok (VBig i)) s"
| "decoder TByteSlice s = bindE (wrapped Bytes) (\<lambda>b. ok (VBytes b)) s"
| "decoder (TByteArray n) s = bindE (decodeByteArray n) (\<lambda>b. ok (VBytes b)) s"
| "decoder (TSlice t) s = bindE (decodeListSlice (decoder t)) (\<lambda>vs. ok (VList vs)) s"
| "decoder (TStruct fs) s =
    bindE (wrapped List_begin)
      (\<lambda>_. bindE (field_decoders fs) (\<lambda>vs. thenE (wrapped ListEnd) (ok (VList vs)))) s"
| "decoder (TPtr t) s = decoder t s"
| "field_decoders [] s = (s, Inr [])"
| "field_decoders ((t, opt) # fs) s =
    (case decoder t s of
       (s', Inl e) \<Rightarrow>
         if e = EOL then
           if opt then (s', Inr (zero_fields ((t, opt) # fs)))
           else (s', Inl (DecodeErr ''too few elements''))
         else (s', Inl e)
     | (s', Inr v) \<Rightarrow>
         (case field_decoders fs s' of
            (s'', Inl e) \<Rightarrow> (s'', Inl e)
          | (s'', Inr vs) \<Rightarrow> (s'', Inr (v # vs))))"

definition DecodeBytes :: "rtype \<Rightarrow> byte list \<Rightarrow> rlp_err + rval" where
  "DecodeBytes t b =
    (case decoder t (Reset b) of
       (s, Inl e) \<Rightarrow> Inl e
     | (s, Inr v) \<Rightarrow> if st_input s \<noteq> [] then Inl ErrMoreThanOneValue else Inr v)"

end
