(* ===== verification/Rlp_Roundtrip.thy ===== *)
theory Rlp_Roundtrip
  imports Rlp_Correct Rlp_Decode
begin

text \<open>
  The decoder inverts the encoder: a value decoded from the encoding of a well-typed value is that
  value (nil pointers apart, which the decoder never produces outside cut optional fields).
\<close>

section \<open>Positions in the stream\<close>

text \<open>
  \<open>pos inp stk s\<close>: the input left is \<open>inp\<close>, the open lists have \<open>stk\<close> bytes left, and the limit
  is the input's length, as \<open>DecodeBytes\<close> sets it. \<open>ready\<close>: moreover the next kind is not yet read.
\<close>

definition pos :: "byte list \<Rightarrow> nat list \<Rightarrow> stream \<Rightarrow> bool" where
  "pos inp stk s \<longleftrightarrow> st_input s = inp \<and> st_stack s = stk \<and> st_limited s \<and> st_remaining s = length inp"

definition ready :: "byte list \<Rightarrow> nat list \<Rightarrow> stream \<Rightarrow> bool" where
  "ready inp stk s \<longleftrightarrow> pos inp stk s \<and> st_kind s = None"

fun fits :: "nat \<Rightarrow> nat list \<Rightarrow> bool" where
  "fits n [] = True"
| "fits n (l # ls) = (n \<le> l)"

fun sub :: "nat \<Rightarrow> nat list \<Rightarrow> nat list" where
  "sub n [] = []"
| "sub n (l # ls) = (l - n) # ls"

lemma sub_sub [simp]: "sub a (sub b stk) = sub (b + a) stk"
  by (cases stk) simp_all

lemma fits_sub [simp]: "fits (a + b) stk \<Longrightarrow> fits b (sub a stk)"
  by (cases stk) simp_all

lemma fits_mono: "fits n stk \<Longrightarrow> m \<le> n \<Longrightarrow> fits m stk"
  by (cases stk) simp_all

lemma sub_0 [simp]: "sub 0 stk = stk"
  by (cases stk) simp_all

lemma ready_rearm: "pos inp stk s \<Longrightarrow> ready inp stk (rearm s)"
  by (simp add: ready_def pos_def rearm_def)

lemma pos_willRead:
  "pos inp stk s \<Longrightarrow> n \<le> length inp \<Longrightarrow> fits n stk \<Longrightarrow>
   willRead n s = (s\<lparr>st_kind := None, st_stack := sub n stk, st_remaining := length inp - n\<rparr>, Inr ())"
  by (cases stk) (simp_all add: pos_def willRead_def rearm_def listLimit_def set_top_def Let_def)

lemma pos_readByte:
  "pos (b # rest) stk s \<Longrightarrow> fits 1 stk \<Longrightarrow>
   \<exists>s'. readByte s = (s', Inr b) \<and> ready rest (sub 1 stk) s'"
  using pos_willRead [of "b # rest" stk s 1]
  by (simp add: readByte_def comp_simps pos_def ready_def)

lemma pos_readFull:
  "pos (bs @ rest) stk s \<Longrightarrow> fits (length bs) stk \<Longrightarrow>
   \<exists>s'. readFull (length bs) s = (s', Inr bs) \<and> ready rest (sub (length bs) stk) s'"
  using pos_willRead [of "bs @ rest" stk s "length bs"]
  by (simp add: readFull_def comp_simps pos_def ready_def)

lemma pos_byteval: "pos inp stk (s\<lparr>st_byteval := b\<rparr>) = pos inp stk s"
  by (simp add: pos_def)

lemma ready_pos: "ready inp stk s \<Longrightarrow> pos inp stk s"
  by (simp add: ready_def)

lemma pos_readUint:
  assumes "pos (be_min n @ rest) stk s" and "fits (nbytes n) stk" and "n \<noteq> 0"
  shows "\<exists>s'. readUint (nbytes n) s = (s', Inr n) \<and> ready rest (sub (nbytes n) stk) s'"
proof (cases "nbytes n = 1")
  case True
  then have "be_min n = [of_nat n]"
    using assms(3) nbytes_upper [of n] by (intro be_min_small) auto
  moreover have "unat (of_nat n :: byte) = n"
    using True nbytes_upper [of n] by (simp add: unat_of_nat)
  ultimately show ?thesis
    using pos_readByte [of "of_nat n" rest stk s] assms True by (auto simp: readUint_def comp_simps)
next
  case False
  have "nbytes n \<noteq> 0" using assms(3) by simp
  moreover obtain s' where "readFull (nbytes n) s = (s', Inr (be_min n))"
      "ready rest (sub (nbytes n) stk) s'"
    using pos_readFull [of "be_min n" rest stk s] assms by auto
  ultimately show ?thesis
    using False be_min_hd [OF assms(3)] by (simp add: readUint_def comp_simps)
qed

section \<open>Reading a header\<close>

lemma tag_unat:
  "n < 56 \<Longrightarrow> unat (0x80 + of_nat n :: byte) = 128 + n"
  "n < 56 \<Longrightarrow> unat (0xC0 + of_nat n :: byte) = 192 + n"
  "n \<le> 8 \<Longrightarrow> unat (0xB7 + of_nat n :: byte) = 183 + n"
  "n \<le> 8 \<Longrightarrow> unat (0xF7 + of_nat n :: byte) = 247 + n"
proof -
  have *: "unat (of_nat a :: byte) = a" if "a < 256" for a
    using that by (simp add: unat_of_nat)
  show "n < 56 \<Longrightarrow> unat (0x80 + of_nat n :: byte) = 128 + n"
    using * [of "128 + n"] by simp
  show "n < 56 \<Longrightarrow> unat (0xC0 + of_nat n :: byte) = 192 + n"
    using * [of "192 + n"] by simp
  show "n \<le> 8 \<Longrightarrow> unat (0xB7 + of_nat n :: byte) = 183 + n"
    using * [of "183 + n"] by simp
  show "n \<le> 8 \<Longrightarrow> unat (0xF7 + of_nat n :: byte) = 247 + n"
    using * [of "247 + n"] by simp
qed

lemma tag_diff:
  "n < 56 \<Longrightarrow> unat (of_nat n :: byte) = n" "n \<le> 8 \<Longrightarrow> unat (of_nat n :: byte) = n"
  by (simp_all add: unat_of_nat)

lemma nbytes_8: "n < 2 ^ 64 \<Longrightarrow> nbytes n \<le> 8"
  by (rule nbytes_le) simp

lemma readKind_byte:
  assumes "pos (b # rest) stk s" and "fits 1 stk" and "b < 0x80"
  shows "\<exists>s'. readKind s = (s', Byte, 0, None) \<and> pos rest (sub 1 stk) s' \<and> st_byteval s' = b"
  using pos_readByte [OF assms(1,2)] assms(3)
  by (auto simp: readKind_def Let_def ready_def pos_byteval)

lemma readKind_string:
  assumes p: "pos (rhead 0x80 0xB7 n @ rest) stk s"
    and f: "fits (length (rhead 0x80 0xB7 n)) stk" and n: "n < 2 ^ 64"
  shows "\<exists>s'. readKind s = (s', String, n, None) \<and> pos rest (sub (length (rhead 0x80 0xB7 n)) stk) s'"
proof (cases "n < 56")
  case True
  define b :: byte where "b = 0x80 + of_nat n"
  have u: "unat b = 128 + n" using True unfolding b_def by (rule tag_unat)
  obtain s1 where 1: "readByte s = (s1, Inr b)" "ready rest (sub 1 stk) s1"
    using p f True pos_readByte [of b rest stk s] by (auto simp: rhead_def b_def)
  have "\<not> b < 0x80" "b < 0xB8" using u True by (simp_all add: word_less_nat_alt)
  moreover have "b - 0x80 = of_nat n" by (simp add: b_def)
  ultimately show ?thesis
    using 1 True by (simp add: readKind_def Let_def rhead_def ready_def pos_byteval tag_diff)
next
  case False
  define k where "k = nbytes n"
  define b :: byte where "b = 0xB7 + of_nat k"
  have k: "1 \<le> k" "k \<le> 8" using False nbytes_8 [OF n] nbytes_pos [of n] by (auto simp: k_def simp del: nbytes_pos)
  have u: "unat b = 183 + k" using k unfolding b_def by (intro tag_unat)
  have b: "\<not> b < 0x80" "\<not> b < 0xB8" "b < 0xC0" using u k by (simp_all add: word_less_nat_alt)
  have head: "rhead 0x80 0xB7 n = b # be_min n" using False by (simp add: rhead_def b_def k_def)
  obtain s1 where 1: "readByte s = (s1, Inr b)" "ready (be_min n @ rest) (sub 1 stk) s1"
    using p f pos_readByte [of b "be_min n @ rest" stk s] fits_mono by (auto simp: head)
  have "fits (nbytes n) (sub 1 stk)" using f by (simp add: head)
  then obtain s2 where "readUint (nbytes n) (s1\<lparr>st_byteval := 0\<rparr>) = (s2, Inr n)"
      "ready rest (sub (nbytes n) (sub 1 stk)) s2"
    using pos_readUint [of n rest "sub 1 stk" "s1\<lparr>st_byteval := 0\<rparr>"] 1(2) False
    by (auto simp: ready_def pos_byteval)
  moreover have "unat (b - 0xB7) = nbytes n" using k by (simp add: b_def tag_diff k_def)
  ultimately show ?thesis
    using 1 b False by (simp add: readKind_def Let_def head ready_def)
qed

lemma readKind_list:
  assumes p: "pos (rhead 0xC0 0xF7 n @ rest) stk s"
    and f: "fits (length (rhead 0xC0 0xF7 n)) stk" and n: "n < 2 ^ 64"
  shows "\<exists>s'. readKind s = (s', List, n, None) \<and> pos rest (sub (length (rhead 0xC0 0xF7 n)) stk) s'"
proof (cases "n < 56")
  case True
  define b :: byte where "b = 0xC0 + of_nat n"
  have u: "unat b = 192 + n" using True unfolding b_def by (rule tag_unat)
  obtain s1 where 1: "readByte s = (s1, Inr b)" "ready rest (sub 1 stk) s1"
    using p f True pos_readByte [of b rest stk s] by (auto simp: rhead_def b_def)
  have "\<not> b < 0x80" "\<not> b < 0xB8" "\<not> b < 0xC0" "b < 0xF8"
    using u True by (simp_all add: word_less_nat_alt)
  moreover have "b - 0xC0 = of_nat n" by (simp add: b_def)
  ultimately show ?thesis
    using 1 True by (simp add: readKind_def Let_def rhead_def ready_def pos_byteval tag_diff)
next
  case False
  define k where "k = nbytes n"
  define b :: byte where "b = 0xF7 + of_nat k"
  have k: "1 \<le> k" "k \<le> 8" using False nbytes_8 [OF n] nbytes_pos [of n] by (auto simp: k_def simp del: nbytes_pos)
  have u: "unat b = 247 + k" using k unfolding b_def by (intro tag_unat)
  have b: "\<not> b < 0x80" "\<not> b < 0xB8" "\<not> b < 0xC0" "\<not> b < 0xF8"
    using u k by (simp_all add: word_less_nat_alt)
  have head: "rhead 0xC0 0xF7 n = b # be_min n" using False by (simp add: rhead_def b_def k_def)
  obtain s1 where 1: "readByte s = (s1, Inr b)" "ready (be_min n @ rest) (sub 1 stk) s1"
    using p f pos_readByte [of b "be_min n @ rest" stk s] fits_mono by (auto simp: head)
  have "fits (nbytes n) (sub 1 stk)" using f by (simp add: head)
  then obtain s2 where "readUint (nbytes n) (s1\<lparr>st_byteval := 0\<rparr>) = (s2, Inr n)"
      "ready rest (sub (nbytes n) (sub 1 stk)) s2"
    using pos_readUint [of n rest "sub 1 stk" "s1\<lparr>st_byteval := 0\<rparr>"] 1(2) False
    by (auto simp: ready_def pos_byteval)
  moreover have "unat (b - 0xF7) = nbytes n" using k by (simp add: b_def tag_diff k_def)
  ultimately show ?thesis
    using 1 b False by (simp add: readKind_def Let_def head ready_def)
qed

lemma Kind_of_readKind:
  assumes r: "ready inp stk s" and k: "readKind s = (s', k, n, None)" and p: "pos inp' stk' s'"
    and i: "n \<le> length inp'" and f: "fits n stk" and ne: "fits 1 stk"
  shows "\<exists>s''. Kind s = (s'', Inr (k, n)) \<and> pos inp' stk' s'' \<and> st_byteval s'' = st_byteval s'"
proof -
  have "listLimit s \<noteq> Some 0"
    using r ne by (cases stk) (auto simp: ready_def pos_def listLimit_def)
  moreover have "listLimit s = Some l \<Longrightarrow> n \<le> l" for l
    using r f by (cases stk) (auto simp: ready_def pos_def listLimit_def)
  ultimately show ?thesis
    using r k p i
    by (auto simp: Kind_def ready_def pos_def kind_result_def Let_def split: option.splits)
qed

lemma Kind_byte:
  assumes "ready (b # rest) stk s" and "fits 1 stk" and "b < 0x80"
  shows "\<exists>s'. Kind s = (s', Inr (Byte, 0)) \<and> pos rest (sub 1 stk) s' \<and> st_byteval s' = b"
  using readKind_byte [OF ready_pos [OF assms(1)] assms(2,3)] Kind_of_readKind [OF assms(1)] assms(2)
    fits_mono [OF assms(2), of 0]
  by fastforce

lemma Kind_string:
  assumes r: "ready (rhead 0x80 0xB7 (length b) @ b @ rest) stk s"
    and f: "fits (length (rhead 0x80 0xB7 (length b) @ b)) stk" and n: "length b < 2 ^ 64"
  shows "\<exists>s'. Kind s = (s', Inr (String, length b)) \<and>
           pos (b @ rest) (sub (length (rhead 0x80 0xB7 (length b))) stk) s'"
proof -
  obtain s' where 1: "readKind s = (s', String, length b, None)"
      "pos (b @ rest) (sub (length (rhead 0x80 0xB7 (length b))) stk) s'"
    using readKind_string [of "length b" "b @ rest" stk s] r n fits_mono [OF f]
    by (auto simp: ready_def)
  have "1 \<le> length (rhead 0x80 0xB7 (length b) @ b)" by (simp add: rhead_def)
  then show ?thesis
    using Kind_of_readKind [OF r 1] fits_mono [OF f] by auto
qed

lemma Kind_list:
  assumes r: "ready (rhead 0xC0 0xF7 (length b) @ b @ rest) stk s"
    and f: "fits (length (rhead 0xC0 0xF7 (length b) @ b)) stk" and n: "length b < 2 ^ 64"
  shows "\<exists>s'. Kind s = (s', Inr (List, length b)) \<and>
           pos (b @ rest) (sub (length (rhead 0xC0 0xF7 (length b))) stk) s'"
proof -
  obtain s' where 1: "readKind s = (s', List, length b, None)"
      "pos (b @ rest) (sub (length (rhead 0xC0 0xF7 (length b))) stk) s'"
    using readKind_list [of "length b" "b @ rest" stk s] r n fits_mono [OF f]
    by (auto simp: ready_def)
  have "1 \<le> length (rhead 0xC0 0xF7 (length b) @ b)" by (simp add: rhead_def)
  then show ?thesis
    using Kind_of_readKind [OF r 1] fits_mono [OF f] by auto
qed

section \<open>Reading a string\<close>

text \<open>What the four string readers share: the two shapes of an encoded string.\<close>

lemma string_cases:
  assumes r: "ready (enc_str b @ rest) stk s" and f: "fits (length (enc_str b)) stk"
    and n: "length b < 2 ^ 64"
  obtains (Byte) c s' where "b = [c]" and "c < 0x80" and "enc_str b = [c]"
      and "Kind s = (s', Inr (Byte, 0))" and "st_byteval s' = c"
      and "ready rest (sub (length (enc_str b)) stk) (rearm s')"
  | (String) s' s'' where "\<not> (length b = 1 \<and> hd b < 0x80)"
      and "Kind s = (s', Inr (String, length b))"
      and "readFull (length b) s' = (s'', Inr b)"
      and "ready rest (sub (length (enc_str b)) stk) s''"
      and "pos (b @ rest) (sub (length (enc_str b) - length b) stk) s'"
      and "fits (length b) (sub (length (enc_str b) - length b) stk)"
proof (cases "length b = 1 \<and> b ! 0 < 0x80")
  case True
  then obtain c where c: "b = [c]" "c < 0x80" by (cases b) auto
  then have e: "enc_str b = [c]" by (simp add: enc_str_def)
  with r f obtain s' where "Kind s = (s', Inr (Byte, 0))" "pos rest (sub 1 stk) s'" "st_byteval s' = c"
    using Kind_byte [of c rest stk s] c by auto
  then show ?thesis using Byte [OF c e] ready_rearm e by simp
next
  case False
  then have e: "enc_str b = rhead 0x80 0xB7 (length b) @ b" by (auto simp: enc_str_def)
  have nb: "\<not> (length b = 1 \<and> hd b < 0x80)" using False by (cases b) auto
  obtain s' where 1: "Kind s = (s', Inr (String, length b))"
      "pos (b @ rest) (sub (length (rhead 0x80 0xB7 (length b))) stk) s'"
    using Kind_string [of b rest stk s] r f n e by auto
  have f2: "fits (length b) (sub (length (rhead 0x80 0xB7 (length b))) stk)"
    using f e by simp
  obtain s'' where "readFull (length b) s' = (s'', Inr b)"
      "ready rest (sub (length b) (sub (length (rhead 0x80 0xB7 (length b))) stk)) s''"
    using pos_readFull [OF 1(2) f2] by blast
  then show ?thesis using String [OF nb 1(1)] 1(2) f2 e by simp
qed

lemma Bytes_ok:
  assumes "ready (enc_str b @ rest) stk s" and "fits (length (enc_str b)) stk" and "length b < 2 ^ 64"
  shows "\<exists>s'. Bytes s = (s', Inr b) \<and> ready rest (sub (length (enc_str b)) stk) s'"
  using assms
proof (cases rule: string_cases)
  case (Byte c s')
  then show ?thesis by (simp add: Bytes_def comp_simps)
next
  case (String s' s'')
  then show ?thesis by (auto simp: Bytes_def comp_simps)
qed

lemma decodeByteArray_ok:
  assumes "ready (enc_str b @ rest) stk s" and "fits (length (enc_str b)) stk" and "length b < 2 ^ 64"
  shows "\<exists>s'. decodeByteArray (length b) s = (s', Inr b) \<and> ready rest (sub (length (enc_str b)) stk) s'"
  using assms
proof (cases rule: string_cases)
  case (Byte c s')
  then show ?thesis by (simp add: decodeByteArray_def comp_simps)
next
  case (String s' s'')
  then show ?thesis by (auto simp: decodeByteArray_def comp_simps)
qed

lemma decodeBigInt_ok:
  assumes "ready (enc_str (be_min n) @ rest) stk s" and "fits (length (enc_str (be_min n))) stk"
    and "length (be_min n) < 2 ^ 64"
  shows "\<exists>s'. decodeBigInt s = (s', Inr (int n)) \<and> ready rest (sub (length (enc_str (be_min n))) stk) s'"
  using assms
proof (cases rule: string_cases)
  case (Byte c s')
  then have "n \<noteq> 0" using be_min_eq_Nil [of n] by auto
  then have "c \<noteq> 0" using be_min_hd [of n] Byte(1) by simp
  moreover have "unat c = n" using be_val_be_min [of n] Byte(1) by simp
  ultimately show ?thesis using Byte by (simp add: decodeBigInt_def comp_simps)
next
  case (String s' s'')
  show ?thesis
  proof (cases "n = 0")
    case True
    then have "ready rest (sub (length (enc_str (be_min n))) stk) (rearm s')"
      using String(5) ready_rearm by fastforce
    then show ?thesis using String True by (simp add: decodeBigInt_def comp_simps)
  next
    case False
    then have "hd (be_min n) \<noteq> 0" by (rule be_min_hd)
    then show ?thesis using String False by (auto simp: decodeBigInt_def comp_simps)
  qed
qed

lemma uint_ok:
  assumes "ready (enc_str (be_min n) @ rest) stk s" and "fits (length (enc_str (be_min n))) stk"
    and k: "n < 256 ^ (k div 8)" and k8: "k \<le> 64"
  shows "\<exists>s'. stream_uint k s = (s', Inr n) \<and> ready rest (sub (length (enc_str (be_min n))) stk) s'"
proof -
  have l: "nbytes n \<le> k div 8" using nbytes_le [OF k] .
  have l2: "length (be_min n) < 2 ^ 64"
  proof -
    have "nbytes n \<le> 8" using l k8 by linarith
    then show ?thesis by simp
  qed
  show ?thesis using assms(1,2) l2
  proof (cases rule: string_cases)
    case (Byte c s')
    then have "n \<noteq> 0" using be_min_eq_Nil [of n] by auto
    then have "c \<noteq> 0" using be_min_hd [of n] Byte(1) by simp
    moreover have "unat c = n" using be_val_be_min [of n] Byte(1) by simp
    ultimately show ?thesis using Byte by (simp add: stream_uint_def comp_simps)
  next
    case (String s' s'')
    show ?thesis
    proof (cases "n = 0")
      case True
      then have "ready rest (sub (length (enc_str (be_min n))) stk) (rearm s')"
        using String(5) ready_rearm by fastforce
      then show ?thesis
        using String True by (simp add: stream_uint_def readUint_def comp_simps)
    next
      case False
      have "\<not> n < 128"
      proof
        assume "n < 128"
        then have "be_min n = [of_nat n]" using False by (intro be_min_small) auto
        moreover have "unat (of_nat n :: byte) = n" using \<open>n < 128\<close> by (simp add: unat_of_nat)
        ultimately show False using String(1) \<open>n < 128\<close> by (simp add: word_less_nat_alt)
      qed
      moreover obtain s3 where "readUint (nbytes n) s' = (s3, Inr n)"
          "ready rest (sub (length (enc_str (be_min n))) stk) s3"
        using pos_readUint [of n rest _ s'] String(5,6) False enc_str_length_ge [of "be_min n"]
        by fastforce
      ultimately show ?thesis using String l by (simp add: stream_uint_def comp_simps)
    qed
  qed
qed

section \<open>Lists\<close>

lemma List_begin_ok:
  assumes r: "ready (rhead 0xC0 0xF7 (length p) @ p @ rest) stk s"
    and f: "fits (length (rhead 0xC0 0xF7 (length p) @ p)) stk" and n: "length p < 2 ^ 64"
  shows "\<exists>s'. List_begin s = (s', Inr (length p)) \<and>
     ready (p @ rest) (length p # sub (length (rhead 0xC0 0xF7 (length p) @ p)) stk) s'"
proof -
  obtain s' where k: "Kind s = (s', Inr (List, length p))"
      "pos (p @ rest) (sub (length (rhead 0xC0 0xF7 (length p))) stk) s'"
    using Kind_list [OF r f n] by blast
  then show ?thesis
    by (cases stk)
      (auto simp: List_begin_def comp_simps listLimit_def set_top_def pos_def ready_def Let_def)
qed

lemma ListEnd_ok: "ready inp (0 # stk) s \<Longrightarrow> \<exists>s'. ListEnd s = (s', Inr ()) \<and> ready inp stk s'"
  by (simp add: ListEnd_def listLimit_def ready_def pos_def)

lemma wrapped_Inr: "m s = (s', Inr a) \<Longrightarrow> wrapped m s = (s', Inr a)"
  by (simp add: wrapped_def)

lemma Kind_EOL: "ready inp (0 # stk) s \<Longrightarrow> Kind s = (s, Inl EOL)"
  by (simp add: Kind_def ready_def pos_def listLimit_def)

lemma decoder_EOL: "ready inp (0 # stk) s \<Longrightarrow> decoder t s = (s, Inl EOL)"
proof (induction t)
  case (TStruct fs)
  then show ?case by (simp add: comp_simps wrapped_def List_begin_def Kind_EOL wrapStreamError_def)
qed (simp_all add: comp_simps wrapped_def Bytes_def stream_uint_def decodeBigInt_def decodeByteArray_def
      decodeListSlice_def List_begin_def Kind_EOL wrapStreamError_def)

section \<open>Values\<close>

text \<open>
  Values the decoder can produce: integers of a whole number of bytes, and no nil pointer, except
  the trailing optional fields the encoder cuts.
\<close>

fun decodable :: "rtype \<Rightarrow> rval \<Rightarrow> bool"
and decodables :: "(rtype \<times> bool) list \<Rightarrow> rval list \<Rightarrow> bool"
where
  "decodable (TUint n) v = (8 dvd n \<and> n \<le> 64)"
| "decodable TBigInt v = (v \<noteq> VNil)"
| "decodable TByteSlice v = True"
| "decodable (TByteArray n) v = True"
| "decodable (TSlice t) v = (case v of VList vs \<Rightarrow> list_all (decodable t) vs | _ \<Rightarrow> False)"
| "decodable (TStruct fs) v = (case v of VList vs \<Rightarrow> decodables fs vs | _ \<Rightarrow> False)"
| "decodable (TPtr t) v = (v \<noteq> VNil \<and> decodable t v)"
| "decodables ((t, opt) # fs) (v # vs) =
    ((opt \<and> v = VNil \<and> lastField fs vs = 0) \<or> (decodable t v \<and> decodables fs vs))"
| "decodables _ _ = True"

lemma dropWhile_append_all:
  "dropWhile P (xs @ [x]) = (if dropWhile P xs = [] then (if P x then [] else [x]) else dropWhile P xs @ [x])"
  by (induction xs) auto

lemma lastField_Cons:
  "lastField ((t, opt) # fs) (v # vs) =
    (if opt \<and> v = VNil \<and> lastField fs vs = 0 then 0 else Suc (lastField fs vs))"
  by (auto simp: dropWhile_append_all)

declare lastField.simps [simp del]

lemma lastField_Nil [simp]: "lastField [] [] = 0"
  by (simp add: lastField.simps)

lemma lastField_0:
  assumes "length vs = length fs" and "lastField fs vs = 0" and "wts fs vs"
  shows "zero_fields fs = vs"
  using assms
proof (induction fs arbitrary: vs)
  case Nil
  then show ?case by simp
next
  case (Cons f fs)
  obtain t opt where f: "f = (t, opt)" by (cases f)
  obtain v vs' where vs: "vs = v # vs'" using Cons(2) by (cases vs) auto
  have "v = VNil" "lastField fs vs' = 0"
    using Cons(3) by (auto simp: f vs lastField_Cons split: if_splits)
  moreover have "zero_val t = VNil" using Cons(4) \<open>v = VNil\<close> by (cases t) (auto simp: f vs)
  ultimately show ?case using Cons by (simp add: f vs)
qed

definition decodes :: "rval reader \<Rightarrow> byte list \<Rightarrow> rval \<Rightarrow> bool" where
  "decodes d enc v \<longleftrightarrow> (\<forall>rest stk s. ready (enc @ rest) stk s \<longrightarrow> fits (length enc) stk \<longrightarrow>
     (\<exists>s'. d s = (s', Inr v) \<and> ready rest (sub (length enc) stk) s'))"

lemma decodesD:
  "decodes d enc v \<Longrightarrow> ready (enc @ rest) stk s \<Longrightarrow> fits (length enc) stk \<Longrightarrow>
   \<exists>s'. d s = (s', Inr v) \<and> ready rest (sub (length enc) stk) s'"
  unfolding decodes_def by blast

lemma rlp_enc_nonempty: "rlp_enc x \<noteq> []"
  by (cases x) (auto simp: enc_str_def rhead_def Let_def)

lemma length_le_concat: "length xs \<le> length (concat (map rlp_enc xs))"
proof (induction xs)
  case (Cons x xs)
  then show ?case using rlp_enc_nonempty [of x] by (cases "rlp_enc x") auto
qed simp

lemma decodeSliceElems_ok:
  assumes "\<And>v. v \<in> set vs \<Longrightarrow> decodes d (enc v) v"
    and eol: "\<And>inp stk s. ready inp (0 # stk) s \<Longrightarrow> d s = (s, Inl EOL)"
    and "ready (concat (map enc vs) @ rest) (length (concat (map enc vs)) # stk) s"
    and "length vs < n"
  shows "\<exists>s'. decodeSliceElems n d s = (s', Inr vs) \<and> ready rest (0 # stk) s'"
  using assms(1,3,4)
proof (induction vs arbitrary: n s)
  case Nil
  then show ?case using eol by (cases n) auto
next
  case (Cons v vs)
  then obtain m where m: "n = Suc m" by (cases n) auto
  obtain s1 where 1: "d s = (s1, Inr v)"
      "ready (concat (map enc vs) @ rest) (sub (length (enc v)) (length (concat (map enc (v # vs))) # stk)) s1"
    using decodesD [of d "enc v" v "concat (map enc vs) @ rest" _ s] Cons(2,3) by force
  then have "ready (concat (map enc vs) @ rest) (length (concat (map enc vs)) # stk) s1" by simp
  then obtain s2 where "decodeSliceElems m d s1 = (s2, Inr vs)" "ready rest (0 # stk) s2"
    using Cons.IH [of s1 m] Cons(2,4) m by auto
  then show ?case using 1 m by simp
qed

lemma decodes_slice:
  assumes e: "\<And>v. v \<in> set vs \<Longrightarrow> decodes (decoder t) (rlp_enc (item_of t v)) v"
    and n: "length (rlp_enc (item_of (TSlice t) (VList vs))) < 2 ^ 64"
  shows "decodes (decoder (TSlice t)) (rlp_enc (item_of (TSlice t) (VList vs))) (VList vs)"
  unfolding decodes_def
proof (intro allI impI)
  fix rest stk s
  define P where "P = concat (map (rlp_enc \<circ> item_of t) vs)"
  have enc: "rlp_enc (item_of (TSlice t) (VList vs)) = rhead 0xC0 0xF7 (length P) @ P"
    by (simp add: P_def Let_def)
  assume r: "ready (rlp_enc (item_of (TSlice t) (VList vs)) @ rest) stk s"
    and f: "fits (length (rlp_enc (item_of (TSlice t) (VList vs)))) stk"
  obtain s1 where 1: "List_begin s = (s1, Inr (length P))"
      "ready (P @ rest) (length P # sub (length (rhead 0xC0 0xF7 (length P) @ P)) stk) s1"
    using List_begin_ok [of P rest stk s] r f n unfolding enc by auto
  have len: "length vs \<le> length P"
    using length_le_concat [of "map (item_of t) vs"] by (simp add: P_def)
  have inp: "length vs < Suc (length (st_input s1))"
    using 1(2) len by (simp add: ready_def pos_def)
  have "\<exists>s2. decodeSliceElems (Suc (length (st_input s1))) (decoder t) s1 = (s2, Inr vs) \<and>
      ready rest (0 # sub (length (rhead 0xC0 0xF7 (length P) @ P)) stk) s2"
  proof (rule decodeSliceElems_ok [where enc = "rlp_enc \<circ> item_of t"])
    show "decodes (decoder t) ((rlp_enc \<circ> item_of t) v) v" if "v \<in> set vs" for v
      using e [OF that] by simp
    show "decoder t s = (s, Inl EOL)" if "ready inp (0 # stk) s" for inp stk s
      using that by (rule decoder_EOL)
  qed (use 1(2) inp in \<open>simp_all add: P_def\<close>)
  then obtain s2 where 2: "decodeSliceElems (Suc (length (st_input s1))) (decoder t) s1 = (s2, Inr vs)"
      "ready rest (0 # sub (length (rhead 0xC0 0xF7 (length P) @ P)) stk) s2"
    by blast
  obtain s3 where 3: "ListEnd s2 = (s3, Inr ())" "ready rest (sub (length (rhead 0xC0 0xF7 (length P) @ P)) stk) s3"
    using ListEnd_ok [OF 2(2)] by blast
  have "decoder (TSlice t) s = (s3, Inr (VList vs))"
  proof (cases "length P = 0")
    case True
    then have "vs = []" using len by simp
    then have "s2 = s1" using 2(1) 1(2) True decoder_EOL [of rest _ s1 t] by simp
    then show ?thesis
      using 1 3 True \<open>vs = []\<close> by (simp add: comp_simps decodeListSlice_def wrapped_Inr del: decodeSliceElems.simps)
  next
    case False
    then show ?thesis
      using 1 2 3 by (simp add: comp_simps decodeListSlice_def wrapped_Inr del: decodeSliceElems.simps)
  qed
  then show "\<exists>s'. decoder (TSlice t) s = (s', Inr (VList vs)) \<and>
      ready rest (sub (length (rlp_enc (item_of (TSlice t) (VList vs)))) stk) s'"
    using 3 enc by simp
qed

definition fields_decode :: "(rtype \<times> bool) list \<Rightarrow> rval list \<Rightarrow> bool" where
  "fields_decode fs vs \<longleftrightarrow>
    (let P = concat (map rlp_enc (take (lastField fs vs) (items_of fs vs))) in
     \<forall>rest stk s. ready (P @ rest) (length P # stk) s \<longrightarrow>
       (\<exists>s'. field_decoders fs s = (s', Inr vs) \<and> ready rest (0 # stk) s'))"

lemma fields_decode_Cons:
  assumes d: "decodes (decoder t) (rlp_enc (item_of t v)) v" and r: "fields_decode fs vs"
    and nc: "\<not> (opt \<and> v = VNil \<and> lastField fs vs = 0)"
  shows "fields_decode ((t, opt) # fs) (v # vs)"
  unfolding fields_decode_def Let_def
proof (intro allI impI)
  fix rest stk s
  define P where "P = concat (map rlp_enc (take (lastField fs vs) (items_of fs vs)))"
  define e where "e = rlp_enc (item_of t v)"
  have eq: "concat (map rlp_enc (take (lastField ((t, opt) # fs) (v # vs)) (items_of ((t, opt) # fs) (v # vs))))
      = e @ P"
    using nc by (auto simp: lastField_Cons P_def e_def)
  assume "ready (concat (map rlp_enc (take (lastField ((t, opt) # fs) (v # vs)) (items_of ((t, opt) # fs) (v # vs)))) @ rest)
     (length (concat (map rlp_enc (take (lastField ((t, opt) # fs) (v # vs)) (items_of ((t, opt) # fs) (v # vs))))) # stk) s"
  then have "ready (e @ P @ rest) (length (e @ P) # stk) s" unfolding eq by simp
  then obtain s1 where 1: "decoder t s = (s1, Inr v)" "ready (P @ rest) (length P # stk) s1"
    using decodesD [OF d, of "P @ rest" "length (e @ P) # stk" s] unfolding e_def by auto
  then obtain s2 where "field_decoders fs s1 = (s2, Inr vs)" "ready rest (0 # stk) s2"
    using r unfolding fields_decode_def P_def Let_def by blast
  then show "\<exists>s'. field_decoders ((t, opt) # fs) s = (s', Inr (v # vs)) \<and> ready rest (0 # stk) s'"
    using 1 by simp
qed

lemma fields_decode_cut:
  assumes "wts ((t, True) # fs) (VNil # vs)" and "lastField fs vs = 0"
  shows "fields_decode ((t, True) # fs) (VNil # vs)"
proof -
  have l: "lastField ((t, True) # fs) (VNil # vs) = 0" using assms(2) by (simp add: lastField_Cons)
  have "zero_fields ((t, True) # fs) = VNil # vs"
    by (rule lastField_0) (use wts_length [OF assms(1)] l assms(1) in auto)
  then show ?thesis
    unfolding fields_decode_def Let_def l using decoder_EOL by simp
qed

lemma decodes_struct:
  assumes d: "fields_decode fs vs"
    and n: "length (rlp_enc (item_of (TStruct fs) (VList vs))) < 2 ^ 64"
  shows "decodes (decoder (TStruct fs)) (rlp_enc (item_of (TStruct fs) (VList vs))) (VList vs)"
  unfolding decodes_def
proof (intro allI impI)
  fix rest stk s
  define P where "P = concat (map rlp_enc (take (lastField fs vs) (items_of fs vs)))"
  have enc: "rlp_enc (item_of (TStruct fs) (VList vs)) = rhead 0xC0 0xF7 (length P) @ P"
    by (simp add: P_def Let_def)
  assume r: "ready (rlp_enc (item_of (TStruct fs) (VList vs)) @ rest) stk s"
    and f: "fits (length (rlp_enc (item_of (TStruct fs) (VList vs)))) stk"
  obtain s1 where 1: "List_begin s = (s1, Inr (length P))"
      "ready (P @ rest) (length P # sub (length (rhead 0xC0 0xF7 (length P) @ P)) stk) s1"
    using List_begin_ok [of P rest stk s] r f n unfolding enc by auto
  obtain s2 where 2: "field_decoders fs s1 = (s2, Inr vs)"
      "ready rest (0 # sub (length (rhead 0xC0 0xF7 (length P) @ P)) stk) s2"
    using d 1(2) unfolding fields_decode_def P_def Let_def by blast
  obtain s3 where 3: "ListEnd s2 = (s3, Inr ())" "ready rest (sub (length (rhead 0xC0 0xF7 (length P) @ P)) stk) s3"
    using ListEnd_ok [OF 2(2)] by blast
  have "decoder (TStruct fs) s = (s3, Inr (VList vs))"
    using 1(1) 2(1) 3(1) by (simp add: comp_simps wrapped_Inr)
  then show "\<exists>s'. decoder (TStruct fs) s = (s', Inr (VList vs)) \<and>
      ready rest (sub (length (rlp_enc (item_of (TStruct fs) (VList vs)))) stk) s'"
    using 3 enc by simp
qed

lemma pow_256: "8 dvd n \<Longrightarrow> (256::nat) ^ (n div 8) = 2 ^ n"
proof -
  assume "8 dvd n"
  then have "(2::nat) ^ n = 2 ^ (8 * (n div 8))" by simp
  then show ?thesis by (simp only: power_mult) simp
qed

lemma decodes_scalar:
  "wt (TUint n) v \<Longrightarrow> decodable (TUint n) v \<Longrightarrow> decodes (decoder (TUint n)) (rlp_enc (item_of (TUint n) v)) v"
  "wt TBigInt v \<Longrightarrow> decodable TBigInt v \<Longrightarrow> length (rlp_enc (item_of TBigInt v)) < 2 ^ 64 \<Longrightarrow>
   decodes (decoder TBigInt) (rlp_enc (item_of TBigInt v)) v"
  "wt TByteSlice v \<Longrightarrow> length (rlp_enc (item_of TByteSlice v)) < 2 ^ 64 \<Longrightarrow>
   decodes (decoder TByteSlice) (rlp_enc (item_of TByteSlice v)) v"
  "wt (TByteArray n) v \<Longrightarrow> length (rlp_enc (item_of (TByteArray n) v)) < 2 ^ 64 \<Longrightarrow>
   decodes (decoder (TByteArray n)) (rlp_enc (item_of (TByteArray n) v)) v"
proof -
  assume w: "wt (TUint n) v" and d: "decodable (TUint n) v"
  then obtain i where v: "v = VUint i" "unat i < 2 ^ n" by (auto split: rval.splits)
  show "decodes (decoder (TUint n)) (rlp_enc (item_of (TUint n) v)) v"
    unfolding decodes_def
  proof (intro allI impI)
    fix rest stk s
    assume "ready (rlp_enc (item_of (TUint n) v) @ rest) stk s"
      and "fits (length (rlp_enc (item_of (TUint n) v))) stk"
    then show "\<exists>s'. decoder (TUint n) s = (s', Inr v)
        \<and> ready rest (sub (length (rlp_enc (item_of (TUint n) v))) stk) s'"
      using uint_ok [of "unat i" rest stk s n] v d pow_256 [of n] by (auto simp: comp_simps wrapped_Inr)
  qed
next
  assume w: "wt TBigInt v" and d: "decodable TBigInt v" and n: "length (rlp_enc (item_of TBigInt v)) < 2 ^ 64"
  then obtain i where v: "v = VBig i" "0 \<le> i" by (auto split: rval.splits)
  have "length (be_min (nat i)) < 2 ^ 64" using n enc_str_length_ge [of "be_min (nat i)"] v by simp
  then show "decodes (decoder TBigInt) (rlp_enc (item_of TBigInt v)) v"
    using decodeBigInt_ok [of "nat i"] v unfolding decodes_def by (fastforce simp: comp_simps wrapped_Inr)
next
  assume w: "wt TByteSlice v" and n: "length (rlp_enc (item_of TByteSlice v)) < 2 ^ 64"
  then obtain b where v: "v = VBytes b" by (auto split: rval.splits)
  have "length b < 2 ^ 64" using n enc_str_length_ge [of b] v by simp
  then show "decodes (decoder TByteSlice) (rlp_enc (item_of TByteSlice v)) v"
    using Bytes_ok [of b] v unfolding decodes_def by (fastforce simp: comp_simps wrapped_Inr)
next
  assume w: "wt (TByteArray n) v" and n: "length (rlp_enc (item_of (TByteArray n) v)) < 2 ^ 64"
  then obtain b where v: "v = VBytes b" "length b = n" by (auto split: rval.splits)
  have "length b < 2 ^ 64" using n enc_str_length_ge [of b] v by simp
  then show "decodes (decoder (TByteArray n)) (rlp_enc (item_of (TByteArray n) v)) v"
    using decodeByteArray_ok [of b] v unfolding decodes_def by (fastforce simp: comp_simps)
qed

lemma decodes_value:
  "wt t v \<Longrightarrow> decodable t v \<Longrightarrow> length (rlp_enc (item_of t v)) < 2 ^ 64 \<Longrightarrow>
   decodes (decoder t) (rlp_enc (item_of t v)) v"
  "wts fs vs \<Longrightarrow> decodables fs vs \<Longrightarrow> list_all (\<lambda>x. length (rlp_enc x) < 2 ^ 64) (items_of fs vs) \<Longrightarrow>
   fields_decode fs vs"
proof (induction t v and fs vs rule: wt_wts.induct)
  case (5 t v)
  then obtain vs where v: "v = VList vs" "list_all (wt t) vs" "list_all (decodable t) vs"
    by (auto split: rval.splits)
  have "decodes (decoder t) (rlp_enc (item_of t x)) x" if x: "x \<in> set vs" for x
  proof (rule 5(1) [OF v(1) x])
    show "wt t x" "decodable t x" using v(2,3) x by (simp_all add: list_all_iff)
    show "length (rlp_enc (item_of t x)) < 2 ^ 64"
      using rlp_enc_length_ge(1) [of "item_of t x" "map (item_of t) vs"] 5(4) v(1) x by simp
  qed
  then show ?case using decodes_slice 5(4) v(1) by blast
next
  case (6 fs v)
  then obtain vs where v: "v = VList vs" "wts fs vs" "decodables fs vs" by (auto split: rval.splits)
  have n: "length (rlp_enc (item_of (TStruct fs) (VList vs))) < 2 ^ 64" using 6(4) v(1) by simp
  then have "fields_decode fs vs" using 6(1) [OF v] struct_items_bounded [OF v(2)] by blast
  then show ?case using decodes_struct n v(1) by blast
next
  case (7 t v)
  then show ?case by (auto simp: decodes_def)
next
  case 8
  then show ?case by (simp add: fields_decode_def)
next
  case (9 t opt fs v vs)
  show ?case
  proof (cases "opt \<and> v = VNil \<and> lastField fs vs = 0")
    case True
    then show ?thesis using 9(3) fields_decode_cut by simp
  next
    case False
    then show ?thesis using 9 by (intro fields_decode_Cons) auto
  qed
qed (use decodes_scalar in auto)

lemma rlp_roundtrip:
  assumes "wt t v" and "decodable t v" and "length (rlp_enc (item_of t v)) < 2 ^ 64"
  shows "EncodeToBytes t v = Inr (rlp_enc (item_of t v)) \<and> DecodeBytes t (rlp_enc (item_of t v)) = Inr v"
proof -
  define bs where "bs = rlp_enc (item_of t v)"
  have "ready (bs @ []) [] (Reset bs)"
    using rlp_enc_nonempty [of "item_of t v"] by (simp add: ready_def pos_def Reset_def bs_def)
  then obtain s' where "decoder t (Reset bs) = (s', Inr v)" "ready [] [] s'"
    using decodesD [OF decodes_value(1) [OF assms], of "[]" "[]" "Reset bs"] unfolding bs_def by auto
  then have "DecodeBytes t bs = Inr v" by (simp add: DecodeBytes_def ready_def pos_def)
  then show ?thesis using EncodeToBytes_spec [OF assms(1,3)] by (simp add: bs_def)
qed

lemma EncodeToBytes_inj:
  assumes "wt t v" and "decodable t v" and "length (rlp_enc (item_of t v)) < 2 ^ 64"
    and "wt t w" and "decodable t w" and "length (rlp_enc (item_of t w)) < 2 ^ 64"
    and "EncodeToBytes t v = EncodeToBytes t w"
  shows "v = w"
proof -
  have "rlp_enc (item_of t v) = rlp_enc (item_of t w)"
    using rlp_roundtrip [OF assms(1-3)] rlp_roundtrip [OF assms(4-6)] assms(7) by (metis sum.inject(2))
  then show ?thesis
    using rlp_roundtrip [OF assms(1-3)] rlp_roundtrip [OF assms(4-6)] by (metis sum.inject(2))
qed



end
