(* ===== verification/Rlp_Unique.thy ===== *)
theory Rlp_Unique
  imports Rlp_Roundtrip
begin

text \<open>RLP encodings are uniquely readable: no encoding is a proper prefix of another one's.\<close>

lemma rhead_unique:
  assumes t: "(small, large) = (0x80, 0xB7) \<or> (small, large) = (0xC0, 0xF7 :: byte)"
    and e: "rhead small large n @ p = rhead small large m @ q" and n: "n < 2 ^ 64" and m: "m < 2 ^ 64"
  shows "n = m \<and> p = q"
proof -
  define base where "base = (if small = 0x80 then 128 else 192 :: nat)"
  have s: "unat (small + of_nat k) = base + k" if "k < 56" for k
    using t tag_unat(1,2) [OF that] by (auto simp: base_def)
  have l: "unat (large + of_nat k) = base + 55 + k" if "k \<le> 8" for k
    using t tag_unat(3,4) [OF that] by (auto simp: base_def)
  have hd: "unat (hd (rhead small large k @ r)) = (if k < 56 then base + k else base + 55 + nbytes k)"
    if "k < 2 ^ 64" for k r
    using s [of k] l [of "nbytes k"] nbytes_8 [OF that] by (simp add: rhead_def)
  have eq: "unat (hd (rhead small large n @ p)) = unat (hd (rhead small large m @ q))" using e by simp
  have pos: "0 < nbytes k" if "\<not> k < 56" for k using that nbytes_pos [of k] by (auto simp del: nbytes_pos)
  show ?thesis
  proof (cases "n < 56")
    case True
    then have "m < 56 \<and> n = m" using eq hd [OF n] hd [OF m] pos [of m] by (auto split: if_splits)
    then show ?thesis using e by simp
  next
    case False
    then have k: "\<not> m < 56" "nbytes n = nbytes m"
      using eq hd [OF n] hd [OF m] pos [of n] by (auto split: if_splits)
    then have "be_min n @ p = be_min m @ q" using e False by (simp add: rhead_def)
    then have "be_min n = be_min m \<and> p = q" using k(2) by (simp add: append_eq_append_conv)
    then show ?thesis by (metis be_val_be_min)
  qed
qed

lemma rhead_hd:
  "n < 2 ^ 64 \<Longrightarrow> 0x80 \<le> hd (rhead 0x80 0xB7 n @ p) \<and> hd (rhead 0x80 0xB7 n @ p) < 0xC0"
  "n < 2 ^ 64 \<Longrightarrow> 0xC0 \<le> hd (rhead 0xC0 0xF7 n @ p)"
  using tag_unat [of n] tag_unat(3,4) [of "nbytes n"] nbytes_8 [of n]
  by (auto simp: rhead_def word_le_nat_alt word_less_nat_alt)

lemma enc_str_hd: "length s < 2 ^ 64 \<Longrightarrow> hd (enc_str s @ p) < 0xC0"
proof (cases "length s = 1 \<and> s ! 0 < 0x80")
  case True
  then obtain c where "s = [c]" "c < 0x80" by (cases s) auto
  then show ?thesis by (simp add: enc_str_def word_less_nat_alt)
next
  case False
  assume "length s < 2 ^ 64"
  then show ?thesis using False rhead_hd(1) [of "length s" "s @ p"] by (auto simp: enc_str_def)
qed

lemma enc_str_unique:
  assumes "enc_str a @ p = enc_str b @ q" and a: "length a < 2 ^ 64" and b: "length b < 2 ^ 64"
  shows "a = b \<and> p = q"
proof -
  have low: "hd (enc_str s @ r) < 0x80 \<longleftrightarrow> length s = 1 \<and> s ! 0 < 0x80" if "length s < 2 ^ 64" for s r
  proof (cases "length s = 1 \<and> s ! 0 < 0x80")
    case True
    then obtain c where "s = [c]" "c < 0x80" by (cases s) auto
    then show ?thesis by (simp add: enc_str_def)
  next
    case False
    then have "enc_str s = rhead 0x80 0xB7 (length s) @ s" by (auto simp: enc_str_def)
    then show ?thesis using False rhead_hd(1) [OF that, of "s @ r"] by (auto simp: not_less)
  qed
  show ?thesis
  proof (cases "length a = 1 \<and> a ! 0 < 0x80")
    case True
    then have "length b = 1 \<and> b ! 0 < 0x80" using low [OF a, of p] low [OF b, of q] assms(1) by simp
    then show ?thesis
      using assms(1) True by (simp add: enc_str_def append_eq_append_conv)
  next
    case False
    then have "\<not> (length b = 1 \<and> b ! 0 < 0x80)" using low [OF a, of p] low [OF b, of q] assms(1) by metis
    then have "rhead 0x80 0xB7 (length a) @ a @ p = rhead 0x80 0xB7 (length b) @ b @ q"
      using assms(1) False by (auto simp: enc_str_def)
    then have "length a = length b \<and> a @ p = b @ q" using rhead_unique [OF _ _ a b] by blast
    then show ?thesis using append_eq_append_conv [of a b p q] by blast
  qed
qed

lemma concat_unique:
  assumes "\<And>x y p q. x \<in> set xs \<Longrightarrow> rlp_enc x @ p = rlp_enc y @ q \<Longrightarrow> length (rlp_enc x) < 2 ^ 64 \<Longrightarrow>
      length (rlp_enc y) < 2 ^ 64 \<Longrightarrow> x = y \<and> p = q"
    and "concat (map rlp_enc xs) = concat (map rlp_enc ys)" and "length (concat (map rlp_enc xs)) < 2 ^ 64"
  shows "xs = ys"
  using assms
proof (induction xs arbitrary: ys)
  case Nil
  then show ?case using rlp_enc_nonempty by (cases ys) auto
next
  case (Cons x xs)
  then obtain y zs where ys: "ys = y # zs" using rlp_enc_nonempty [of x] by (cases ys) auto
  have e: "rlp_enc x @ concat (map rlp_enc xs) = rlp_enc y @ concat (map rlp_enc zs)"
    using Cons(3) by (simp add: ys)
  have ln: "length (rlp_enc x) < 2 ^ 64" "length (rlp_enc y) < 2 ^ 64"
    using Cons(4) arg_cong [OF e, of length] by simp_all
  have "x = y \<and> concat (map rlp_enc xs) = concat (map rlp_enc zs)"
    using Cons(2) [of x _ y] e ln by auto
  moreover have "xs = zs"
    using Cons.IH [of zs] Cons(2,4) calculation by auto
  ultimately show ?case by (simp add: ys)
qed

lemma rlp_enc_unique:
  "rlp_enc x @ p = rlp_enc y @ q \<Longrightarrow> length (rlp_enc x) < 2 ^ 64 \<Longrightarrow> length (rlp_enc y) < 2 ^ 64 \<Longrightarrow>
   x = y \<and> p = q"
proof (induction x arbitrary: y p q)
  case (Str a)
  have a: "length a < 2 ^ 64" using Str(2) enc_str_length_ge [of a] by simp
  show ?case
  proof (cases y)
    case (Str b)
    then have "length b < 2 ^ 64" using Str.prems(3) enc_str_length_ge [of b] by simp
    then show ?thesis using enc_str_unique [OF _ a] Str.prems(1) Str by auto
  next
    case (Lst ys)
    define P where "P = concat (map rlp_enc ys)"
    have "length P < 2 ^ 64" using Str.prems(3) rlp_enc_length_ge(2) [of ys] Lst by (simp add: P_def)
    then have "0xC0 \<le> hd (rlp_enc y @ q)"
      using rhead_hd(2) [of "length P" "P @ q"] Lst by (simp add: P_def Let_def)
    then show ?thesis using enc_str_hd [OF a, of p] Str.prems(1) by (simp add: not_less [symmetric])
  qed
next
  case (Lst xs)
  define P where "P = concat (map rlp_enc xs)"
  have P: "length P < 2 ^ 64" using Lst(3) rlp_enc_length_ge(2) [of xs] by (simp add: P_def)
  show ?case
  proof (cases y)
    case (Str b)
    then have b: "length b < 2 ^ 64" using Lst(4) enc_str_length_ge [of b] by simp
    have "0xC0 \<le> hd (rlp_enc (Lst xs) @ p)" using rhead_hd(2) [OF P, of "P @ p"] by (simp add: P_def Let_def)
    then show ?thesis using enc_str_hd [OF b, of q] Lst(2) Str by (simp add: not_less [symmetric])
  next
    case (Lst ys)
    define Q where "Q = concat (map rlp_enc ys)"
    have Q: "length Q < 2 ^ 64" using Lst.prems(3) rlp_enc_length_ge(2) [of ys] Lst by (simp add: Q_def)
    have "rhead 0xC0 0xF7 (length P) @ P @ p = rhead 0xC0 0xF7 (length Q) @ Q @ q"
      using Lst.prems(1) Lst by (simp add: P_def Q_def Let_def)
    then have "length P = length Q \<and> P @ p = Q @ q" using rhead_unique [OF _ _ P Q] by blast
    then have pq: "P = Q" "p = q" using append_eq_append_conv [of P Q p q] by blast+
    have "xs = ys"
      using concat_unique [of xs ys] Lst.IH pq(1) P unfolding P_def Q_def by blast
    then show ?thesis using pq Lst by simp
  qed
qed

lemma rlp_enc_inj:
  "rlp_enc x = rlp_enc y \<Longrightarrow> length (rlp_enc x) < 2 ^ 64 \<Longrightarrow> x = y"
  using rlp_enc_unique [of x "[]" y "[]"] by simp

section \<open>A bound on the size of an encoding\<close>

fun isize :: "item \<Rightarrow> nat" where
  "isize (Str s) = 9 + length s"
| "isize (Lst xs) = 9 + sum_list (map isize xs)"

lemma length_rhead_le: "n < 2 ^ 64 \<Longrightarrow> length (rhead a b n) \<le> 9"
  using nbytes_8 [of n] by (simp add: rhead_def)

lemma rlp_enc_size: "isize x < 2 ^ 64 \<Longrightarrow> length (rlp_enc x) \<le> isize x"
proof (induction x)
  case (Str s)
  then have "length s < 2 ^ 64" by simp
  then show ?case using length_rhead_le [of "length s" "0x80" "0xB7"] by (simp add: enc_str_def)
next
  case (Lst xs)
  have "length (concat (map rlp_enc xs)) \<le> sum_list (map isize xs)"
    using Lst.IH Lst.prems
  proof (induction xs)
    case (Cons x xs)
    then have "length (rlp_enc x) \<le> isize x" by simp
    moreover have "length (concat (map rlp_enc xs)) \<le> sum_list (map isize xs)" using Cons by simp
    ultimately show ?case by simp
  qed simp
  moreover from this have "length (rhead 0xC0 0xF7 (length (concat (map rlp_enc xs)))) \<le> 9"
    using Lst.prems by (intro length_rhead_le) simp
  ultimately show ?case by (simp add: Let_def)
qed

lemma rlp_enc_bounded: "isize x < 2 ^ 64 \<Longrightarrow> length (rlp_enc x) < 2 ^ 64"
  using rlp_enc_size [of x] by (rule le_less_trans)

lemma sum_list_bound: "(\<And>x. x \<in> set xs \<Longrightarrow> f x \<le> (k::nat)) \<Longrightarrow> sum_list (map f xs) \<le> length xs * k"
  by (induction xs) (auto intro: add_mono)

end
