(* ===== verification/GoStrings.thy ===== *)
theory GoStrings
  imports Prelude
begin

text \<open>
  The string functions of the Go library that the consensus code uses: decimal and hexadecimal
  printing, splitting at colons and \<^verbatim>\<open>strconv.ParseInt\<close> in base 10 with 64 bits.
\<close>

section \<open>Hexadecimal\<close>

definition hex_digit :: "nat \<Rightarrow> char" where
  "hex_digit n = ''0123456789abcdef'' ! n"

definition Bytes2Hex :: "byte list \<Rightarrow> string" where
  "Bytes2Hex bs = concat (map (\<lambda>b. [hex_digit (unat b div 16), hex_digit (unat b mod 16)]) bs)"

definition Hash_Hex :: "hash \<Rightarrow> string" where
  "Hash_Hex h = ''0x'' @ Bytes2Hex (hash_bytes h)"

lemma hex_digit_inj: "a < 16 \<Longrightarrow> b < 16 \<Longrightarrow> hex_digit a = hex_digit b \<Longrightarrow> a = b"
  using nth_eq_iff_index_eq [of "''0123456789abcdef''" a b] by (simp add: hex_digit_def)

lemma byte_div_mod_inj:
  "unat (x :: byte) div 16 = unat y div 16 \<Longrightarrow> unat x mod 16 = unat y mod 16 \<Longrightarrow> x = y"
  by (metis div_mult_mod_eq word_unat_eq_iff)

lemma Bytes2Hex_inj: "Bytes2Hex xs = Bytes2Hex ys \<Longrightarrow> xs = ys"
proof (induction xs arbitrary: ys)
  case Nil
  then show ?case by (cases ys) (auto simp: Bytes2Hex_def)
next
  case (Cons x xs)
  then obtain y zs where ys: "ys = y # zs" by (cases ys) (auto simp: Bytes2Hex_def)
  have lt: "unat b div 16 < 16" "unat b mod 16 < 16" for b :: byte
    using unat_byte_less [of b] by linarith+
  have "hex_digit (unat x div 16) = hex_digit (unat y div 16)"
    and "hex_digit (unat x mod 16) = hex_digit (unat y mod 16)" and r: "Bytes2Hex xs = Bytes2Hex zs"
    using Cons.prems by (auto simp: ys Bytes2Hex_def)
  then have "x = y" using hex_digit_inj lt byte_div_mod_inj by blast
  then show ?case using Cons.IH [OF r] ys by simp
qed

lemma Hash_Hex_inj: "Hash_Hex a = Hash_Hex b \<Longrightarrow> a = b"
  unfolding Hash_Hex_def using Bytes2Hex_inj hash_bytes_inj by blast

section \<open>Decimal\<close>

fun dec :: "nat \<Rightarrow> string" where
  "dec n = (if n < 10 then [hex_digit n] else dec (n div 10) @ [hex_digit (n mod 10)])"

declare dec.simps [simp del]

definition dec_int :: "int \<Rightarrow> string" where
  "dec_int i = (if i < 0 then CHR ''-'' # dec (nat (- i)) else dec (nat i))"

definition digit_val :: "char \<Rightarrow> nat option" where
  "digit_val c = (if of_char c \<in> {48..57::nat} then Some (of_char c - 48) else None)"

fun digits_val :: "nat \<Rightarrow> string \<Rightarrow> nat option" where
  "digits_val acc [] = Some acc"
| "digits_val acc (c # cs) = (case digit_val c of None \<Rightarrow> None | Some d \<Rightarrow> digits_val (10 * acc + d) cs)"

text \<open>
  \<^verbatim>\<open>strconv.ParseInt(s, 10, 64)\<close>; \<open>None\<close> is its error (no digits, a foreign character, or a value
  outside the signed 64-bit range).
\<close>

definition ParseUint :: "string \<Rightarrow> nat option" where
  "ParseUint s = (if s = [] then None else digits_val 0 s)"

definition ParseInt :: "string \<Rightarrow> int option" where
  "ParseInt s =
    (case s of
       [] \<Rightarrow> None
     | c # cs \<Rightarrow>
         let neg = (c = CHR ''-'');
             body = (if c = CHR ''+'' \<or> c = CHR ''-'' then cs else s)
         in case ParseUint body of
              None \<Rightarrow> None
            | Some un \<Rightarrow>
                if 2 ^ 64 \<le> un then None
                else if \<not> neg \<and> 2 ^ 63 \<le> un then None
                else if neg \<and> 2 ^ 63 < un then None
                else Some (if neg then - int un else int un))"

definition split_first :: "string \<Rightarrow> string" where
  "split_first s = takeWhile (\<lambda>c. c \<noteq> CHR '':'') s"

lemma digit_val_hex_digit: "d < 10 \<Longrightarrow> digit_val (hex_digit d) = Some d"
proof -
  have "list_all (\<lambda>d. digit_val (hex_digit d) = Some d) [0, 1, 2, 3, 4, 5, 6, 7, 8, 9]"
    by (simp add: digit_val_def hex_digit_def nth_Cons')
  then show "d < 10 \<Longrightarrow> digit_val (hex_digit d) = Some d"
    by (auto simp: less_Suc_eq numeral_eq_Suc)
qed

lemma hex_digit_safe: "d < 10 \<Longrightarrow> hex_digit d \<noteq> CHR '':'' \<and> hex_digit d \<noteq> CHR ''-'' \<and> hex_digit d \<noteq> CHR ''+''"
  by (auto simp: less_Suc_eq numeral_eq_Suc hex_digit_def)

lemma digits_val_append:
  "digits_val acc (xs @ ys) = (case digits_val acc xs of None \<Rightarrow> None | Some a \<Rightarrow> digits_val a ys)"
  by (induction xs arbitrary: acc) (auto split: option.splits)

lemma digits_val_dec: "digits_val 0 (dec n) = Some n"
proof (induction n rule: dec.induct)
  case (1 n)
  then show ?case
    by (subst dec.simps) (simp add: digits_val_append digit_val_hex_digit)
qed

lemma dec_digits: "c \<in> set (dec n) \<Longrightarrow> \<exists>d<10. c = hex_digit d"
proof (induction n rule: dec.induct)
  case (1 n)
  from 1(2) show ?case
    by (subst (asm) dec.simps) (auto split: if_splits dest: 1(1) intro: exI [of _ "n mod 10"])
qed

lemma dec_nonempty [simp]: "dec n \<noteq> []"
  by (subst dec.simps) simp

lemma dec_no_colon: "CHR '':'' \<notin> set (dec n)"
  using dec_digits hex_digit_safe by metis

lemma dec_hd: "hd (dec n) \<noteq> CHR ''-'' \<and> hd (dec n) \<noteq> CHR ''+''"
proof -
  have "hd (dec n) \<in> set (dec n)" by simp
  then obtain d where "d < 10" "hd (dec n) = hex_digit d" using dec_digits by blast
  then show ?thesis using hex_digit_safe [of d] by simp
qed

lemma dec_inj: "dec m = dec n \<Longrightarrow> m = n"
  using digits_val_dec by (metis option.inject)

lemma dec_int_inj: "dec_int i = dec_int j \<Longrightarrow> i = j"
proof -
  assume e: "dec_int i = dec_int j"
  have "\<not> (i < 0 \<and> \<not> j < 0)" "\<not> (\<not> i < 0 \<and> j < 0)"
    using e dec_hd by (auto simp: dec_int_def) (metis list.sel(1))+
  then show ?thesis using e dec_inj by (auto simp: dec_int_def split: if_splits) force+
qed

lemma dec_int_no_colon: "CHR '':'' \<notin> set (dec_int i)"
  using dec_no_colon by (auto simp: dec_int_def)

lemma ParseInt_dec: "ParseInt (dec n) = (if n < 2 ^ 63 then Some (int n) else None)"
proof -
  obtain c cs where c: "dec n = c # cs" by (cases "dec n") auto
  have "c \<noteq> CHR ''-''" "c \<noteq> CHR ''+''" using dec_hd [of n] c by auto
  moreover have "ParseUint (dec n) = Some n" by (simp add: ParseUint_def digits_val_dec)
  ultimately show ?thesis by (auto simp: ParseInt_def c)
qed

lemma split_colon:
  assumes "xs @ CHR '':'' # r = ys @ CHR '':'' # r'" and "CHR '':'' \<notin> set xs" and "CHR '':'' \<notin> set ys"
  shows "xs = ys \<and> r = r'"
proof -
  have "takeWhile (\<lambda>c. c \<noteq> CHR '':'') (zs @ CHR '':'' # q) = zs" if "CHR '':'' \<notin> set zs" for zs q
    using that by (induction zs) auto
  then have "xs = ys" using assms by metis
  then show ?thesis using assms by simp
qed

lemma split_first_key: "CHR '':'' \<notin> set xs \<Longrightarrow> split_first (xs @ CHR '':'' # r) = xs"
  unfolding split_first_def by (induction xs) auto

end
