(* ===== verification/AddressUtils.thy ===== *)
theory AddressUtils
  imports GoStrings
begin

text \<open>
  Lists of addresses and signatures: the helpers of \<^verbatim>\<open>src/common/types.go\<close>,
  \<^verbatim>\<open>src/consensus/BRDPoS/utils/utils.go\<close> and \<^verbatim>\<open>engine_v2/utils.go\<close>.
\<close>

section \<open>Removing items\<close>

text \<open>The inner loop of \<^verbatim>\<open>RemoveItemFromArray\<close>, from index \<open>i - 1\<close> down to 0.\<close>

fun remove_down :: "address \<Rightarrow> nat \<Rightarrow> address list \<Rightarrow> address list" where
  "remove_down item 0 xs = xs"
| "remove_down item (Suc i) xs =
    remove_down item i (if xs ! i = item then take i xs @ drop (Suc i) xs else xs)"

definition RemoveItemFromArray :: "address list \<Rightarrow> address list \<Rightarrow> address list" where
  "RemoveItemFromArray array items =
    (if items = [] then array
     else fold (\<lambda>item newArray. remove_down item (length newArray) newArray) items array)"

lemma remove_down_filter:
  "i \<le> length xs \<Longrightarrow> remove_down item i xs = filter (\<lambda>a. a \<noteq> item) (take i xs) @ drop i xs"
proof (induction i arbitrary: xs)
  case (Suc i)
  have t: "take (Suc i) xs = take i xs @ [xs ! i]" using Suc(2) by (simp add: take_Suc_conv_app_nth)
  have d: "drop i xs = xs ! i # drop (Suc i) xs" using Suc(2) by (simp add: Cons_nth_drop_Suc)
  show ?case
  proof (cases "xs ! i = item")
    case True
    have "take i (take i xs @ drop (Suc i) xs) = take i xs" "drop i (take i xs @ drop (Suc i) xs) = drop (Suc i) xs"
      using Suc(2) by simp_all
    then show ?thesis
      using True Suc.IH [of "take i xs @ drop (Suc i) xs"] Suc(2) by (simp add: t)
  next
    case False
    then show ?thesis using Suc.IH [of xs] Suc(2) by (simp add: t d)
  qed
qed simp

lemma remove_down_all: "remove_down item (length xs) xs = filter (\<lambda>a. a \<noteq> item) xs"
  by (simp add: remove_down_filter)

lemma RemoveItemFromArray_filter: "RemoveItemFromArray array items = filter (\<lambda>a. a \<notin> set items) array"
proof -
  have "fold (\<lambda>item newArray. remove_down item (length newArray) newArray) items array
      = filter (\<lambda>a. a \<notin> set items) array"
    by (induction items arbitrary: array) (auto simp: remove_down_all intro!: filter_cong)
  then show ?thesis by (simp add: RemoveItemFromArray_def)
qed

section \<open>Addresses and bytes\<close>

fun ExtractAddressToBytes :: "address list \<Rightarrow> byte list" where
  "ExtractAddressToBytes [] = []"
| "ExtractAddressToBytes (signer # penalties) = address_bytes signer @ ExtractAddressToBytes penalties"

definition addresses_at :: "byte list \<Rightarrow> nat \<Rightarrow> address list" where
  "addresses_at bs n = map (\<lambda>i. address_of_bytes (drop (i * 20) bs)) [0..<n]"

definition ExtractAddressFromBytes :: "byte list \<Rightarrow> address list" where
  "ExtractAddressFromBytes bytePenalties =
    (if length bytePenalties < 20 then []
     else addresses_at bytePenalties (length bytePenalties div 20))"

lemma length_ExtractAddressToBytes [simp]: "length (ExtractAddressToBytes as) = 20 * length as"
  by (induction as) auto

lemma ExtractAddressToBytes_append:
  "ExtractAddressToBytes (as @ bs) = ExtractAddressToBytes as @ ExtractAddressToBytes bs"
  by (induction as) auto

lemma drop_ExtractAddressToBytes:
  "i \<le> length as \<Longrightarrow> drop (i * 20) (ExtractAddressToBytes as @ rest) = ExtractAddressToBytes (drop i as) @ rest"
proof (induction as arbitrary: i)
  case (Cons a as)
  then show ?case by (cases i) simp_all
qed simp

lemma addresses_at_ToBytes: "addresses_at (ExtractAddressToBytes as @ rest) (length as) = as"
proof (rule nth_equalityI)
  fix i
  assume "i < length (addresses_at (ExtractAddressToBytes as @ rest) (length as))"
  then have i: "i < length as" by (simp add: addresses_at_def)
  then have "ExtractAddressToBytes (drop i as) = address_bytes (as ! i) @ ExtractAddressToBytes (drop (Suc i) as)"
    by (simp flip: Cons_nth_drop_Suc)
  then have "drop (i * 20) (ExtractAddressToBytes as @ rest) =
      address_bytes (as ! i) @ (ExtractAddressToBytes (drop (Suc i) as) @ rest)"
    using drop_ExtractAddressToBytes [of i as rest] i by simp
  then show "addresses_at (ExtractAddressToBytes as @ rest) (length as) ! i = as ! i"
    using i by (simp add: addresses_at_def address_of_bytes_address_bytes del: drop_append)
qed (simp add: addresses_at_def)

lemma ExtractAddress_roundtrip: "ExtractAddressFromBytes (ExtractAddressToBytes as) = as"
proof (cases "as = []")
  case False
  have "length (ExtractAddressToBytes as) div 20 = length as" by simp
  moreover have "\<not> length (ExtractAddressToBytes as) < 20" using False by simp
  ultimately show ?thesis
    using addresses_at_ToBytes [of as "[]"] by (simp only: ExtractAddressFromBytes_def if_False append_Nil2)
qed (simp add: ExtractAddressFromBytes_def)

section \<open>Positions\<close>

fun Position_from :: "int \<Rightarrow> address list \<Rightarrow> address \<Rightarrow> int" where
  "Position_from i [] x = - 1"
| "Position_from i (item # rest) x = (if item = x then i else Position_from (i + 1) rest x)"

definition Position :: "address list \<Rightarrow> address \<Rightarrow> int" where
  "Position xs x = Position_from 0 xs x"

definition Hop :: "int \<Rightarrow> int \<Rightarrow> int \<Rightarrow> int" where
  "Hop len pre cur =
    (if pre < cur then cur - (pre + 1)
     else if cur < pre then (len - pre) + (cur - 1)
     else len - 1)"

lemma Position_from_neg: "0 \<le> i \<Longrightarrow> Position_from i xs x = - 1 \<longleftrightarrow> x \<notin> set xs"
  by (induction i xs x rule: Position_from.induct) auto

lemma Position_neg: "Position xs x = - 1 \<longleftrightarrow> x \<notin> set xs"
  by (simp add: Position_def Position_from_neg)

lemma Position_from_nth: "x \<in> set xs \<Longrightarrow> i \<le> Position_from i xs x \<and> Position_from i xs x < i + int (length xs)
    \<and> xs ! nat (Position_from i xs x - i) = x"
proof (induction i xs x rule: Position_from.induct)
  case (2 i item rest x)
  show ?case
  proof (cases "item = x")
    case False
    define q where "q = Position_from (i + 1) rest x"
    have q: "i + 1 \<le> q" "q < i + 1 + int (length rest)" "rest ! nat (q - (i + 1)) = x"
      using 2 False unfolding q_def by auto
    then have "nat (q - i) = Suc (nat (q - (i + 1)))" by linarith
    then show ?thesis using q False by (simp add: q_def [symmetric])
  qed simp
qed simp

lemma Hop_mod:
  assumes "0 \<le> pre" and "pre < len" and "0 \<le> cur" and "cur < len"
  shows "0 \<le> Hop len pre cur" and "Hop len pre cur < len" and "(pre + 1 + Hop len pre cur) mod len = cur"
proof -
  show "0 \<le> Hop len pre cur" "Hop len pre cur < len" using assms by (auto simp: Hop_def)
  have "pre + 1 + Hop len pre cur = cur \<or> pre + 1 + Hop len pre cur = cur + len"
    using assms by (auto simp: Hop_def)
  then show "(pre + 1 + Hop len pre cur) mod len = cur"
    using assms by auto
qed

section \<open>Comparing lists of signers\<close>

fun bytes_Compare :: "byte list \<Rightarrow> byte list \<Rightarrow> int" where
  "bytes_Compare [] [] = 0"
| "bytes_Compare [] (y # ys) = - 1"
| "bytes_Compare (x # xs) [] = 1"
| "bytes_Compare (x # xs) (y # ys) = (if x < y then - 1 else if y < x then 1 else bytes_Compare xs ys)"

text \<open>\<^verbatim>\<open>sort.Slice\<close>: the order of equal elements is not observable on addresses.\<close>

fun insert_by :: "('a \<Rightarrow> 'a \<Rightarrow> bool) \<Rightarrow> 'a \<Rightarrow> 'a list \<Rightarrow> 'a list" where
  "insert_by lt x [] = [x]"
| "insert_by lt x (y # ys) = (if lt y x then y # insert_by lt x ys else x # y # ys)"

definition sort_Slice :: "('a \<Rightarrow> 'a \<Rightarrow> bool) \<Rightarrow> 'a list \<Rightarrow> 'a list" where
  "sort_Slice lt xs = foldr (insert_by lt) xs []"

definition CompareSignersLists :: "address list \<Rightarrow> address list \<Rightarrow> bool" where
  "CompareSignersLists list1 list2 =
    (if list1 = [] \<and> list2 = [] then True
     else if length list1 \<noteq> length list2 then False
     else let lt = (\<lambda>a b. bytes_Compare (address_bytes a) (address_bytes b) = - 1)
          in sort_Slice lt list1 = sort_Slice lt list2)"

lemma bytes_Compare_val:
  "length xs = length ys \<Longrightarrow> bytes_Compare xs ys = - 1 \<longleftrightarrow> be_val xs < be_val ys"
proof (induction xs ys rule: bytes_Compare.induct)
  case (4 x xs y ys)
  have lx: "be_val xs < 256 ^ length ys" using be_val_less [of xs] 4(2) by simp
  have ly: "be_val ys < 256 ^ length ys" by (rule be_val_less)
  have step: "unat a * 256 ^ length ys + p < unat b * 256 ^ length ys + q"
    if "unat a < unat b" "p < 256 ^ length ys" for a b :: byte and p q
  proof -
    have "unat a * 256 ^ length ys + p < Suc (unat a) * 256 ^ length ys" using that by simp
    also have "\<dots> \<le> unat b * 256 ^ length ys" using that by (intro mult_right_mono) auto
    finally show ?thesis by simp
  qed
  consider "x < y" | "y < x" | "x = y" by fastforce
  then show ?case
  proof cases
    case 1
    then show ?thesis using step [of x y "be_val xs" "be_val ys"] lx 4(2) by (simp add: word_less_nat_alt)
  next
    case 2
    then show ?thesis
      using step [of y x "be_val ys" "be_val xs"] ly 4(2) by (auto simp: word_less_nat_alt)
  next
    case 3
    then show ?thesis using 4 by simp
  qed
qed auto

lemma address_less: "bytes_Compare (address_bytes a) (address_bytes b) = - 1 \<longleftrightarrow> a < b"
  using unat_address_less [of a] unat_address_less [of b]
  by (simp add: bytes_Compare_val address_bytes_def be_val_be_bytes word_less_nat_alt)

lemma sort_Slice_sort:
  "sort_Slice (\<lambda>a b. bytes_Compare (address_bytes a) (address_bytes b) = - 1) xs = sort xs"
proof -
  have "insert_by (\<lambda>a b. a < b) x ys = insort x ys" for x :: address and ys
    by (induction ys) auto
  then have "insert_by (\<lambda>a b. a < b) = (insort :: address \<Rightarrow> address list \<Rightarrow> address list)"
    by (simp add: fun_eq_iff)
  then show ?thesis by (simp add: sort_Slice_def address_less sort_key_def)
qed

lemma CompareSignersLists_mset: "CompareSignersLists l1 l2 \<longleftrightarrow> mset l1 = mset l2"
proof -
  have "sort l1 = sort l2 \<longleftrightarrow> mset l1 = mset l2"
  proof
    assume "sort l1 = sort l2"
    then have "mset (sort l1) = mset (sort l2)" by simp
    then show "mset l1 = mset l2" by simp
  next
    assume "mset l1 = mset l2"
    then show "sort l1 = sort l2" by (intro properties_for_sort) simp_all
  qed
  moreover have "mset l1 = mset l2 \<Longrightarrow> length l1 = length l2" by (rule mset_eq_length)
  ultimately show ?thesis by (auto simp: CompareSignersLists_def sort_Slice_sort)
qed

section \<open>Unique signatures\<close>

text \<open>The loop of \<^verbatim>\<open>UniqueSignatures\<close>, with the set of hexadecimal keys already seen.\<close>

fun unique_loop :: "string list \<Rightarrow> signature list \<Rightarrow> signature list \<times> signature list" where
  "unique_loop keys [] = ([], [])"
| "unique_loop keys (signature # rest) =
    (let hexOfSig = Bytes2Hex signature in
     if hexOfSig \<notin> set keys
     then (case unique_loop (hexOfSig # keys) rest of (xs, ds) \<Rightarrow> (signature # xs, ds))
     else (case unique_loop keys rest of (xs, ds) \<Rightarrow> (xs, signature # ds)))"

definition UniqueSignatures :: "signature list \<Rightarrow> signature list \<times> signature list" where
  "UniqueSignatures signatureSlice = unique_loop [] signatureSlice"

lemma unique_loop_correct:
  "unique_loop keys ss = (xs, ds) \<Longrightarrow>
   distinct xs \<and> set xs = {s \<in> set ss. Bytes2Hex s \<notin> set keys} \<and> mset xs + mset ds = mset ss"
proof (induction keys ss arbitrary: xs ds rule: unique_loop.induct)
  case (2 keys s rest)
  have inj: "Bytes2Hex a = Bytes2Hex b \<longleftrightarrow> a = b" for a b using Bytes2Hex_inj by blast
  show ?case
  proof (cases "Bytes2Hex s \<notin> set keys")
    case True
    obtain xs' ds' where l: "unique_loop (Bytes2Hex s # keys) rest = (xs', ds')"
      by (cases "unique_loop (Bytes2Hex s # keys) rest")
    have e: "xs = s # xs'" "ds = ds'" using 2(3) True l by simp_all
    have h: "distinct xs'" "set xs' = {r \<in> set rest. Bytes2Hex r \<notin> set (Bytes2Hex s # keys)}"
        "mset xs' + mset ds' = mset rest"
      using 2(1) [OF refl True l] by simp_all
    have "set xs = {r \<in> set (s # rest). Bytes2Hex r \<notin> set keys}"
      unfolding e(1) list.set(2) h(2) using True by (auto simp: inj)
    then show ?thesis using h(1,2,3) e by simp
  next
    case False
    obtain xs' ds' where l: "unique_loop keys rest = (xs', ds')"
      by (cases "unique_loop keys rest")
    have e: "xs = xs'" "ds = s # ds'" using 2(3) False l by simp_all
    have h: "distinct xs'" "set xs' = {r \<in> set rest. Bytes2Hex r \<notin> set keys}"
        "mset xs' + mset ds' = mset rest"
      using 2(2) [OF refl False l] by simp_all
    have "set xs = {r \<in> set (s # rest). Bytes2Hex r \<notin> set keys}"
      unfolding e(1) h(2) using False by auto
    then show ?thesis using h(1,3) e by simp
  qed
qed simp

lemma UniqueSignatures_correct:
  "distinct (fst (UniqueSignatures ss))"
  "set (fst (UniqueSignatures ss)) = set ss"
  "mset (fst (UniqueSignatures ss)) + mset (snd (UniqueSignatures ss)) = mset ss"
proof -
  have "unique_loop [] ss = (fst (UniqueSignatures ss), snd (UniqueSignatures ss))"
    by (simp only: UniqueSignatures_def prod.collapse)
  from unique_loop_correct [OF this]
  show "distinct (fst (UniqueSignatures ss))" "set (fst (UniqueSignatures ss)) = set ss"
    "mset (fst (UniqueSignatures ss)) + mset (snd (UniqueSignatures ss)) = mset ss"
    by simp_all
qed

end
