(* ===== verification/ConsensusTypes.thy ===== *)
theory ConsensusTypes
  imports Rlp_Unique AddressUtils
begin

text \<open>
  The messages and headers of the consensus (\<^verbatim>\<open>src/core/types/consensus_v2.go\<close>, the \<^verbatim>\<open>Header\<close> of
  \<^verbatim>\<open>block.go\<close>), their RLP types, hashes and pool keys, and the header's extra field. Keccak is
  a parameter \<open>K\<close> of every hash.
\<close>

section \<open>Messages\<close>

record BlockInfo =
  bi_Hash :: hash
  bi_Round :: u64
  bi_Number :: int

record Vote =
  vote_signer :: address
  vote_ProposedBlockInfo :: BlockInfo
  vote_Signature :: signature
  vote_GapNumber :: u64

record Timeout =
  to_signer :: address
  to_Round :: u64
  to_Signature :: signature
  to_GapNumber :: u64

record QuorumCert =
  qc_ProposedBlockInfo :: BlockInfo
  qc_Signatures :: "signature list"
  qc_GapNumber :: u64

text \<open>The signatures of a timeout certificate may be the nil slice, which \<^verbatim>\<open>verifyTC\<close> tells apart.\<close>

record TimeoutCert =
  tc_Round :: u64
  tc_Signatures :: "signature list option"
  tc_GapNumber :: u64

record SyncInfo =
  si_HighestQuorumCert :: QuorumCert
  si_HighestTimeoutCert :: TimeoutCert

record ExtraFields_v2 =
  ex_Round :: u64
  ex_QuorumCert :: "QuorumCert option"

record EpochSwitchInfo =
  es_Penalties :: "address list"
  es_Standbynodes :: "address list"
  es_Masternodes :: "address list"
  es_MasternodesLen :: nat
  es_EpochSwitchBlockInfo :: BlockInfo
  es_EpochSwitchParentBlockInfo :: "BlockInfo option"

record VoteForSign =
  vs_ProposedBlockInfo :: BlockInfo
  vs_GapNumber :: u64

record TimeoutForSign =
  ts_Round :: u64
  ts_GapNumber :: u64

record Header =
  ParentHash :: hash
  UncleHash :: hash
  Coinbase :: address
  Root :: hash
  TxHash :: hash
  ReceiptHash :: hash
  Bloom :: "2048 word"
  Difficulty :: int
  Number :: int
  GasLimit :: u64
  GasUsed :: u64
  Time :: int
  Extra :: "byte list"
  MixDigest :: hash
  Nonce :: u64
  Validators :: "byte list"
  Validator :: "byte list"
  Penalties :: "byte list"
  BaseFee :: "int option"

section \<open>Their RLP types\<close>

abbreviation fld :: "rtype \<Rightarrow> rtype \<times> bool" where
  "fld t \<equiv> (t, False)"

definition T_BlockInfo :: rtype where
  "T_BlockInfo = TStruct [fld (TByteArray 32), fld (TUint 64), fld TBigInt]"

definition T_Vote :: rtype where
  "T_Vote = TStruct [fld (TPtr T_BlockInfo), fld TByteSlice, fld (TUint 64)]"

definition T_Timeout :: rtype where
  "T_Timeout = TStruct [fld (TUint 64), fld TByteSlice, fld (TUint 64)]"

definition T_QuorumCert :: rtype where
  "T_QuorumCert = TStruct [fld (TPtr T_BlockInfo), fld (TSlice TByteSlice), fld (TUint 64)]"

definition T_TimeoutCert :: rtype where
  "T_TimeoutCert = TStruct [fld (TUint 64), fld (TSlice TByteSlice), fld (TUint 64)]"

definition T_SyncInfo :: rtype where
  "T_SyncInfo = TStruct [fld (TPtr T_QuorumCert), fld (TPtr T_TimeoutCert)]"

definition T_ExtraFields_v2 :: rtype where
  "T_ExtraFields_v2 = TStruct [fld (TUint 64), fld (TPtr T_QuorumCert)]"

definition T_VoteForSign :: rtype where
  "T_VoteForSign = TStruct [fld (TPtr T_BlockInfo), fld (TUint 64)]"

definition T_TimeoutForSign :: rtype where
  "T_TimeoutForSign = TStruct [fld (TUint 64), fld (TUint 64)]"

definition header_prefix :: "(rtype \<times> bool) list" where
  "header_prefix =
    [fld (TByteArray 32), fld (TByteArray 32), fld (TByteArray 20), fld (TByteArray 32),
     fld (TByteArray 32), fld (TByteArray 32), fld (TByteArray 256), fld TBigInt, fld TBigInt,
     fld (TUint 64), fld (TUint 64), fld TBigInt, fld TByteSlice, fld (TByteArray 32), fld (TByteArray 8)]"

definition T_Header :: rtype where
  "T_Header = TStruct (header_prefix @ [fld TByteSlice, fld TByteSlice, fld TByteSlice, (TBigInt, True)])"

section \<open>Their RLP values\<close>

definition val_BlockInfo :: "BlockInfo \<Rightarrow> rval" where
  "val_BlockInfo b = VList [VBytes (hash_bytes (bi_Hash b)), VUint (bi_Round b), VBig (bi_Number b)]"

definition val_Vote :: "Vote \<Rightarrow> rval" where
  "val_Vote v = VList [val_BlockInfo (vote_ProposedBlockInfo v), VBytes (vote_Signature v), VUint (vote_GapNumber v)]"

definition val_Timeout :: "Timeout \<Rightarrow> rval" where
  "val_Timeout t = VList [VUint (to_Round t), VBytes (to_Signature t), VUint (to_GapNumber t)]"

definition val_QuorumCert :: "QuorumCert \<Rightarrow> rval" where
  "val_QuorumCert q =
    VList [val_BlockInfo (qc_ProposedBlockInfo q), VList (map VBytes (qc_Signatures q)), VUint (qc_GapNumber q)]"

definition val_TimeoutCert :: "TimeoutCert \<Rightarrow> rval" where
  "val_TimeoutCert t =
    VList [VUint (tc_Round t),
           VList (map VBytes (case tc_Signatures t of None \<Rightarrow> [] | Some ss \<Rightarrow> ss)), VUint (tc_GapNumber t)]"

definition val_SyncInfo :: "SyncInfo \<Rightarrow> rval" where
  "val_SyncInfo s = VList [val_QuorumCert (si_HighestQuorumCert s), val_TimeoutCert (si_HighestTimeoutCert s)]"

definition val_ExtraFields_v2 :: "ExtraFields_v2 \<Rightarrow> rval" where
  "val_ExtraFields_v2 e =
    VList [VUint (ex_Round e), case ex_QuorumCert e of None \<Rightarrow> VNil | Some q \<Rightarrow> val_QuorumCert q]"

definition val_VoteForSign :: "VoteForSign \<Rightarrow> rval" where
  "val_VoteForSign v = VList [val_BlockInfo (vs_ProposedBlockInfo v), VUint (vs_GapNumber v)]"

definition val_TimeoutForSign :: "TimeoutForSign \<Rightarrow> rval" where
  "val_TimeoutForSign t = VList [VUint (ts_Round t), VUint (ts_GapNumber t)]"

definition val_header_prefix :: "Header \<Rightarrow> rval list" where
  "val_header_prefix h =
    [VBytes (hash_bytes (ParentHash h)), VBytes (hash_bytes (UncleHash h)), VBytes (address_bytes (Coinbase h)),
     VBytes (hash_bytes (Root h)), VBytes (hash_bytes (TxHash h)), VBytes (hash_bytes (ReceiptHash h)),
     VBytes (be_bytes 256 (unat (Bloom h))), VBig (Difficulty h), VBig (Number h), VUint (GasLimit h),
     VUint (GasUsed h), VBig (Time h), VBytes (Extra h), VBytes (hash_bytes (MixDigest h)),
     VBytes (be_bytes 8 (unat (Nonce h)))]"

definition val_Header :: "Header \<Rightarrow> rval" where
  "val_Header h =
    VList (val_header_prefix h @ [VBytes (Validators h), VBytes (Validator h), VBytes (Penalties h),
      case BaseFee h of None \<Rightarrow> VNil | Some f \<Rightarrow> VBig f])"

section \<open>Hashes\<close>

text \<open>\<^verbatim>\<open>rlpHash\<close>: when the encoder fails nothing is written to the hasher.\<close>

definition rlpHash :: "(byte list \<Rightarrow> hash) \<Rightarrow> rtype \<Rightarrow> rval \<Rightarrow> hash" where
  "rlpHash K t v = (case EncodeToBytes t v of Inl _ \<Rightarrow> K [] | Inr bs \<Rightarrow> K bs)"

definition Vote_Hash :: "(byte list \<Rightarrow> hash) \<Rightarrow> Vote \<Rightarrow> hash" where
  "Vote_Hash K v = rlpHash K T_Vote (val_Vote v)"

definition Timeout_Hash :: "(byte list \<Rightarrow> hash) \<Rightarrow> Timeout \<Rightarrow> hash" where
  "Timeout_Hash K t = rlpHash K T_Timeout (val_Timeout t)"

definition SyncInfo_Hash :: "(byte list \<Rightarrow> hash) \<Rightarrow> SyncInfo \<Rightarrow> hash" where
  "SyncInfo_Hash K s = rlpHash K T_SyncInfo (val_SyncInfo s)"

definition VoteSigHash :: "(byte list \<Rightarrow> hash) \<Rightarrow> VoteForSign \<Rightarrow> hash" where
  "VoteSigHash K m = rlpHash K T_VoteForSign (val_VoteForSign m)"

definition TimeoutSigHash :: "(byte list \<Rightarrow> hash) \<Rightarrow> TimeoutForSign \<Rightarrow> hash" where
  "TimeoutSigHash K m = rlpHash K T_TimeoutForSign (val_TimeoutForSign m)"

definition Header_Hash :: "(byte list \<Rightarrow> hash) \<Rightarrow> Header \<Rightarrow> hash" where
  "Header_Hash K h = rlpHash K T_Header (val_Header h)"

text \<open>\<^verbatim>\<open>sigHash\<close>: the header without its validator signature, as a list of interface values.\<close>

definition T_sigHash :: "Header \<Rightarrow> rtype" where
  "T_sigHash h =
    TStruct (header_prefix @ [fld TByteSlice, fld TByteSlice] @ (if BaseFee h \<noteq> None then [fld TBigInt] else []))"

definition val_sigHash :: "Header \<Rightarrow> rval" where
  "val_sigHash h =
    VList (val_header_prefix h @ [VBytes (Validators h), VBytes (Penalties h)]
      @ (case BaseFee h of None \<Rightarrow> [] | Some f \<Rightarrow> [VBig f]))"

definition sigHash :: "(byte list \<Rightarrow> hash) \<Rightarrow> Header \<Rightarrow> hash" where
  "sigHash K h = rlpHash K (T_sigHash h) (val_sigHash h)"

section \<open>Pool keys\<close>

definition Vote_PoolKey :: "Vote \<Rightarrow> string" where
  "Vote_PoolKey v =
    (let b = vote_ProposedBlockInfo v in
     dec (unat (bi_Round b)) @ '':'' @ dec (unat (vote_GapNumber v)) @ '':'' @ dec_int (bi_Number b)
       @ '':'' @ Hash_Hex (bi_Hash b))"

definition Timeout_PoolKey :: "Timeout \<Rightarrow> string" where
  "Timeout_PoolKey t = dec (unat (to_Round t)) @ '':'' @ dec (unat (to_GapNumber t))"

section \<open>The header's extra field\<close>

definition ExtraFields_EncodeToBytes :: "ExtraFields_v2 \<Rightarrow> enc_error + byte list" where
  "ExtraFields_EncodeToBytes e =
    (case EncodeToBytes T_ExtraFields_v2 (val_ExtraFields_v2 e) of
       Inl err \<Rightarrow> Inl err
     | Inr bs \<Rightarrow> Inr (2 # bs))"

text \<open>Reading a decoded value back into the Go structs.\<close>

fun BlockInfo_of_val :: "rval \<Rightarrow> BlockInfo option" where
  "BlockInfo_of_val (VList [VBytes h, VUint r, VBig n]) =
    Some \<lparr>bi_Hash = hash_of_bytes h, bi_Round = r, bi_Number = n\<rparr>"
| "BlockInfo_of_val _ = None"

fun bytes_of_val :: "rval \<Rightarrow> byte list" where
  "bytes_of_val (VBytes b) = b"
| "bytes_of_val _ = []"

fun QuorumCert_of_val :: "rval \<Rightarrow> QuorumCert option" where
  "QuorumCert_of_val (VList [b, VList ss, VUint g]) =
    (case BlockInfo_of_val b of
       None \<Rightarrow> None
     | Some bi \<Rightarrow> Some \<lparr>qc_ProposedBlockInfo = bi, qc_Signatures = map bytes_of_val ss, qc_GapNumber = g\<rparr>)"
| "QuorumCert_of_val _ = None"

fun ExtraFields_of_val :: "rval \<Rightarrow> ExtraFields_v2 option" where
  "ExtraFields_of_val (VList [VUint r, q]) = Some \<lparr>ex_Round = r, ex_QuorumCert = QuorumCert_of_val q\<rparr>"
| "ExtraFields_of_val _ = None"

definition DecodeBytesExtraFields :: "byte list \<Rightarrow> error + ExtraFields_v2" where
  "DecodeBytesExtraFields b =
    (case b of
       [] \<Rightarrow> Inl (Errorf ''extra field is 0 length'')
     | version # rest \<Rightarrow>
         if version = 2 then
           (case DecodeBytes T_ExtraFields_v2 rest of
              Inl _ \<Rightarrow> Inl (Errorf ''rlp: cannot decode extra fields'')
            | Inr v \<Rightarrow> (case ExtraFields_of_val v of Some e \<Rightarrow> Inr e | None \<Rightarrow> Inl Panic))
         else Inl (Errorf ''consensus version is not defined, or this block is v1 block''))"

section \<open>Properties of the encodings\<close>

text \<open>
  Sizes that occur: block numbers are non-negative and of at most 256 bits, certificates have at
  most a million signatures of at most a megabyte. Anything larger than the sizes below could
  overflow the 64-bit length fields of the encoding.
\<close>

definition wf_BlockInfo :: "BlockInfo \<Rightarrow> bool" where
  "wf_BlockInfo b \<longleftrightarrow> 0 \<le> bi_Number b \<and> bi_Number b < 2 ^ 256"

definition wf_QuorumCert :: "QuorumCert \<Rightarrow> bool" where
  "wf_QuorumCert q \<longleftrightarrow> wf_BlockInfo (qc_ProposedBlockInfo q) \<and> length (qc_Signatures q) \<le> 2 ^ 20
     \<and> (\<forall>s\<in>set (qc_Signatures q). length s \<le> 2 ^ 20)"

lemma u64_bound [simp]: "unat (x :: u64) < 18446744073709551616"
  using unsigned_less [where ?'a = nat, of x] by simp

lemma wt_BlockInfo [simp]: "wf_BlockInfo b \<Longrightarrow> wt T_BlockInfo (val_BlockInfo b)"
  by (simp add: T_BlockInfo_def val_BlockInfo_def wf_BlockInfo_def)

lemma decodable_BlockInfo [simp]: "decodable T_BlockInfo (val_BlockInfo b)"
  by (simp add: T_BlockInfo_def val_BlockInfo_def)

lemma val_nonnil [simp]:
  "val_BlockInfo b \<noteq> VNil" "val_QuorumCert q \<noteq> VNil"
  by (simp_all add: val_BlockInfo_def val_QuorumCert_def)

lemma wt_QuorumCert [simp]: "wf_QuorumCert q \<Longrightarrow> wt T_QuorumCert (val_QuorumCert q)"
  by (simp add: T_QuorumCert_def val_QuorumCert_def wf_QuorumCert_def list_all_iff)

lemma decodable_QuorumCert [simp]: "decodable T_QuorumCert (val_QuorumCert q)"
  by (simp add: T_QuorumCert_def val_QuorumCert_def list_all_iff)

lemma BlockInfo_of_val_val [simp]: "BlockInfo_of_val (val_BlockInfo b) = Some b"
  by (simp add: val_BlockInfo_def hash_of_bytes_hash_bytes)

lemma QuorumCert_of_val_val [simp]: "QuorumCert_of_val (val_QuorumCert q) = Some q"
  by (simp add: val_QuorumCert_def o_def)

lemma wt_ExtraFields:
  "ex_QuorumCert e = Some q \<Longrightarrow> wf_QuorumCert q \<Longrightarrow>
   wt T_ExtraFields_v2 (val_ExtraFields_v2 e) \<and> decodable T_ExtraFields_v2 (val_ExtraFields_v2 e)"
  by (simp add: T_ExtraFields_v2_def val_ExtraFields_v2_def)

lemma nbytes_256: "n < 2 ^ 256 \<Longrightarrow> nbytes n \<le> 32"
  by (rule nbytes_le) simp

lemma isize_u64: "isize (item_of (TUint 64) (VUint i)) \<le> 17"
  using nbytes_u64 [of i] by simp

lemma isize_BlockInfo: "wf_BlockInfo b \<Longrightarrow> isize (item_of T_BlockInfo (val_BlockInfo b)) \<le> 200"
proof -
  assume "wf_BlockInfo b"
  then have "nat (bi_Number b) < 2 ^ 256" by (simp add: wf_BlockInfo_def nat_less_iff)
  then have "nbytes (nat (bi_Number b)) \<le> 32" by (rule nbytes_256)
  then show ?thesis
    using nbytes_u64 [of "bi_Round b"] by (simp add: T_BlockInfo_def val_BlockInfo_def lastField_Cons)
qed

lemma isize_QuorumCert: "wf_QuorumCert q \<Longrightarrow> isize (item_of T_QuorumCert (val_QuorumCert q)) \<le> 2 ^ 42"
proof -
  assume w: "wf_QuorumCert q"
  then have b: "isize (item_of T_BlockInfo (val_BlockInfo (qc_ProposedBlockInfo q))) \<le> 200"
    by (simp add: wf_QuorumCert_def isize_BlockInfo)
  have "sum_list (map (\<lambda>s. 9 + length s) (qc_Signatures q)) \<le> length (qc_Signatures q) * (9 + 2 ^ 20)"
    using w by (intro sum_list_bound) (simp add: wf_QuorumCert_def)
  also have "\<dots> \<le> 2 ^ 20 * (9 + 2 ^ 20)" using w by (intro mult_right_mono) (auto simp: wf_QuorumCert_def)
  finally have s: "sum_list (map (\<lambda>s. 9 + length s) (qc_Signatures q)) \<le> 1099521064960" by simp
  have e: "isize (item_of T_QuorumCert (val_QuorumCert q)) =
      9 + (isize (item_of T_BlockInfo (val_BlockInfo (qc_ProposedBlockInfo q)))
        + (9 + sum_list (map (\<lambda>s. 9 + length s) (qc_Signatures q)) + (9 + nbytes (unat (qc_GapNumber q)))))"
    by (simp add: T_QuorumCert_def val_QuorumCert_def lastField_Cons o_def)
  show ?thesis unfolding e using b s nbytes_u64 [of "qc_GapNumber q"] by simp
qed

lemma ExtraFields_roundtrip_aux:
  assumes "ex_QuorumCert e = Some q" and "wf_QuorumCert q"
  shows "\<exists>bs. ExtraFields_EncodeToBytes e = Inr bs \<and> DecodeBytesExtraFields bs = Inr e"
proof -
  have "isize (item_of T_ExtraFields_v2 (val_ExtraFields_v2 e)) =
      9 + (9 + nbytes (unat (ex_Round e)) + isize (item_of T_QuorumCert (val_QuorumCert q)))"
    using assms(1) by (simp add: T_ExtraFields_v2_def val_ExtraFields_v2_def lastField_Cons)
  also have "\<dots> < 2 ^ 64" using isize_QuorumCert [OF assms(2)] nbytes_u64 [of "ex_Round e"] by simp
  finally have sz: "length (rlp_enc (item_of T_ExtraFields_v2 (val_ExtraFields_v2 e))) < 2 ^ 64"
    by (rule rlp_enc_bounded)
  define v where "v = val_ExtraFields_v2 e"
  define bs where "bs = rlp_enc (item_of T_ExtraFields_v2 v)"
  have r: "EncodeToBytes T_ExtraFields_v2 v = Inr bs" "DecodeBytes T_ExtraFields_v2 bs = Inr v"
    using rlp_roundtrip [of T_ExtraFields_v2 v] wt_ExtraFields [OF assms] sz
    by (simp_all add: v_def bs_def)
  have "ExtraFields_of_val v = Some e"
    using assms(1) by (simp add: v_def val_ExtraFields_v2_def)
  then have "DecodeBytesExtraFields (2 # bs) = Inr e" using r by (simp add: DecodeBytesExtraFields_def)
  moreover have "ExtraFields_EncodeToBytes e = Inr (2 # bs)"
    using r by (simp add: ExtraFields_EncodeToBytes_def v_def)
  ultimately show ?thesis by blast
qed

text \<open>
  C12: the extra field a proposer writes into a header is read back by every node as the same
  round and quorum certificate.
\<close>

theorem ExtraFields_roundtrip:
  assumes "ex_QuorumCert e = Some q" and "wf_QuorumCert q"
  shows "\<exists>bs. ExtraFields_EncodeToBytes e = Inr bs \<and> DecodeBytesExtraFields bs = Inr e"
  using ExtraFields_roundtrip_aux [OF assms] .

theorem ExtraFields_roundtrip_witness:
  "\<exists>bs. ExtraFields_EncodeToBytes \<lparr>ex_Round = 7, ex_QuorumCert = Some \<lparr>qc_ProposedBlockInfo =
      \<lparr>bi_Hash = 5, bi_Round = 6, bi_Number = 900\<rparr>, qc_Signatures = [[1, 2, 3]], qc_GapNumber = 450\<rparr>\<rparr> = Inr bs
    \<and> DecodeBytesExtraFields bs = Inr \<lparr>ex_Round = 7, ex_QuorumCert = Some \<lparr>qc_ProposedBlockInfo =
      \<lparr>bi_Hash = 5, bi_Round = 6, bi_Number = 900\<rparr>, qc_Signatures = [[1, 2, 3]], qc_GapNumber = 450\<rparr>\<rparr>"
  using ExtraFields_roundtrip [of "\<lparr>ex_Round = 7, ex_QuorumCert = Some \<lparr>qc_ProposedBlockInfo =
      \<lparr>bi_Hash = 5, bi_Round = 6, bi_Number = 900\<rparr>, qc_Signatures = [[1, 2, 3]], qc_GapNumber = 450\<rparr>\<rparr>"]
  by (simp add: wf_QuorumCert_def wf_BlockInfo_def)

section \<open>Signed messages\<close>

text \<open>The items whose encodings are hashed for signing.\<close>

definition vote_item :: "VoteForSign \<Rightarrow> item" where
  "vote_item m = item_of T_VoteForSign (val_VoteForSign m)"

definition timeout_item :: "TimeoutForSign \<Rightarrow> item" where
  "timeout_item m = item_of T_TimeoutForSign (val_TimeoutForSign m)"

definition sig_item :: "Header \<Rightarrow> item" where
  "sig_item h = item_of (T_sigHash h) (val_sigHash h)"

lemma vote_item_wt:
  "wf_BlockInfo (vs_ProposedBlockInfo m) \<Longrightarrow>
   wt T_VoteForSign (val_VoteForSign m) \<and> length (rlp_enc (vote_item m)) < 2 ^ 64"
proof -
  assume w: "wf_BlockInfo (vs_ProposedBlockInfo m)"
  have "isize (vote_item m) = 9 + (isize (item_of T_BlockInfo (val_BlockInfo (vs_ProposedBlockInfo m)))
      + (9 + nbytes (unat (vs_GapNumber m))))"
    by (simp add: vote_item_def T_VoteForSign_def val_VoteForSign_def lastField_Cons)
  then have "length (rlp_enc (vote_item m)) < 2 ^ 64"
    using isize_BlockInfo [OF w] nbytes_u64 [of "vs_GapNumber m"] by (intro rlp_enc_bounded) simp
  then show ?thesis using w by (simp add: T_VoteForSign_def val_VoteForSign_def)
qed

lemma timeout_item_wt:
  "wt T_TimeoutForSign (val_TimeoutForSign m) \<and> length (rlp_enc (timeout_item m)) < 2 ^ 64"
proof -
  have "isize (timeout_item m) = 9 + (9 + nbytes (unat (ts_Round m)) + (9 + nbytes (unat (ts_GapNumber m))))"
    by (simp add: timeout_item_def T_TimeoutForSign_def val_TimeoutForSign_def lastField_Cons)
  then have "length (rlp_enc (timeout_item m)) < 2 ^ 64"
    using nbytes_u64 [of "ts_Round m"] nbytes_u64 [of "ts_GapNumber m"] by (intro rlp_enc_bounded) simp
  then show ?thesis by (simp add: T_TimeoutForSign_def val_TimeoutForSign_def)
qed

lemma be_min_inj: "be_min a = be_min b \<Longrightarrow> a = b"
  by (metis be_val_be_min)

lemma be_min_unat_inj: "be_min (unat (a :: u64)) = be_min (unat b) \<Longrightarrow> a = b"
  by (drule be_min_inj) (rule unsigned_word_eqI)

lemma vote_item_inj:
  assumes "wf_BlockInfo (vs_ProposedBlockInfo a)" and "wf_BlockInfo (vs_ProposedBlockInfo b)"
    and "vote_item a = vote_item b"
  shows "a = b"
proof -
  have e: "hash_bytes (bi_Hash (vs_ProposedBlockInfo a)) = hash_bytes (bi_Hash (vs_ProposedBlockInfo b))"
      "be_min (unat (bi_Round (vs_ProposedBlockInfo a))) = be_min (unat (bi_Round (vs_ProposedBlockInfo b)))"
      "be_min (nat (bi_Number (vs_ProposedBlockInfo a))) = be_min (nat (bi_Number (vs_ProposedBlockInfo b)))"
      "be_min (unat (vs_GapNumber a)) = be_min (unat (vs_GapNumber b))"
    using assms(3) by (simp_all add: vote_item_def T_VoteForSign_def val_VoteForSign_def T_BlockInfo_def
        val_BlockInfo_def lastField_Cons)
  have "nat (bi_Number (vs_ProposedBlockInfo a)) = nat (bi_Number (vs_ProposedBlockInfo b))"
    using be_min_inj [OF e(3)] .
  then have "bi_Number (vs_ProposedBlockInfo a) = bi_Number (vs_ProposedBlockInfo b)"
    using assms(1,2) by (simp add: wf_BlockInfo_def eq_nat_nat_iff)
  then show ?thesis
    using hash_bytes_inj [OF e(1)] be_min_unat_inj [OF e(2)] be_min_unat_inj [OF e(4)]
    by simp
qed

lemma timeout_item_inj: "timeout_item a = timeout_item b \<Longrightarrow> a = b"
  using be_min_unat_inj
  by (simp add: timeout_item_def T_TimeoutForSign_def val_TimeoutForSign_def lastField_Cons)

lemma lastField_mandatory: "lastField ((t, False) # fs) (v # vs) = Suc (lastField fs vs)"
  by (simp add: lastField_Cons)

lemma sig_item_shape: "\<exists>s xs. sig_item h = Lst (Str s # xs) \<and> 14 \<le> length xs"
  by (cases "BaseFee h")
    (simp_all add: sig_item_def T_sigHash_def val_sigHash_def header_prefix_def val_header_prefix_def lastField_mandatory)

lemma vote_item_shape: "\<exists>xs y. vote_item m = Lst [Lst xs, y]"
  by (simp add: vote_item_def T_VoteForSign_def val_VoteForSign_def T_BlockInfo_def val_BlockInfo_def lastField_Cons)

lemma timeout_item_shape: "\<exists>a b. timeout_item m = Lst [Str a, Str b]"
  by (simp add: timeout_item_def T_TimeoutForSign_def val_TimeoutForSign_def lastField_Cons)

text \<open>A header whose big integers are non-negative and whose encoding fits the 64-bit sizes.\<close>

definition wf_Header :: "Header \<Rightarrow> bool" where
  "wf_Header h \<longleftrightarrow> 0 \<le> Difficulty h \<and> 0 \<le> Number h \<and> 0 \<le> Time h
     \<and> (\<forall>f. BaseFee h = Some f \<longrightarrow> 0 \<le> f) \<and> isize (sig_item h) < 2 ^ 64"

lemma wt_sigHash: "wf_Header h \<Longrightarrow> wt (T_sigHash h) (val_sigHash h)"
  by (cases "BaseFee h")
    (simp_all add: wf_Header_def T_sigHash_def val_sigHash_def header_prefix_def val_header_prefix_def)

lemma vote_payload:
  "wf_BlockInfo (vs_ProposedBlockInfo m) \<Longrightarrow>
   EncodeToBytes T_VoteForSign (val_VoteForSign m) = Inr (rlp_enc (vote_item m))"
  using EncodeToBytes_spec [of T_VoteForSign "val_VoteForSign m"] vote_item_wt [of m]
  by (simp add: vote_item_def)

lemma timeout_payload:
  "EncodeToBytes T_TimeoutForSign (val_TimeoutForSign m) = Inr (rlp_enc (timeout_item m))"
  using EncodeToBytes_spec [of T_TimeoutForSign "val_TimeoutForSign m"] timeout_item_wt [of m]
  by (simp add: timeout_item_def)

lemma header_payload:
  "wf_Header h \<Longrightarrow> EncodeToBytes (T_sigHash h) (val_sigHash h) = Inr (rlp_enc (sig_item h))"
  using EncodeToBytes_spec [OF wt_sigHash] rlp_enc_bounded [of "sig_item h"]
  by (simp add: sig_item_def wf_Header_def)

lemma enc_items_differ: "x \<noteq> y \<Longrightarrow> length (rlp_enc x) < 2 ^ 64 \<Longrightarrow> rlp_enc x \<noteq> rlp_enc y"
  using rlp_enc_inj by blast

lemma vote_signing_inj:
  assumes "wf_BlockInfo (vs_ProposedBlockInfo a)" and "wf_BlockInfo (vs_ProposedBlockInfo b)"
    and "EncodeToBytes T_VoteForSign (val_VoteForSign a) = EncodeToBytes T_VoteForSign (val_VoteForSign b)"
  shows "a = b"
proof -
  have "rlp_enc (vote_item a) = rlp_enc (vote_item b)"
    using assms(3) by (simp only: vote_payload [OF assms(1)] vote_payload [OF assms(2)] sum.inject)
  then have "vote_item a = vote_item b"
    using enc_items_differ vote_item_wt [OF assms(1), THEN conjunct2] by blast
  then show ?thesis using vote_item_inj [OF assms(1,2)] by blast
qed

lemma timeout_signing_inj:
  assumes "EncodeToBytes T_TimeoutForSign (val_TimeoutForSign a) = EncodeToBytes T_TimeoutForSign (val_TimeoutForSign b)"
  shows "a = b"
proof -
  have "rlp_enc (timeout_item a) = rlp_enc (timeout_item b)"
    using assms by (simp only: timeout_payload sum.inject)
  then have "timeout_item a = timeout_item b"
    using enc_items_differ timeout_item_wt [THEN conjunct2] by blast
  then show ?thesis by (rule timeout_item_inj)
qed


definition sample_header :: Header where
  "sample_header = \<lparr>ParentHash = 7, UncleHash = 0, Coinbase = 3, Root = 1, TxHash = 0, ReceiptHash = 0, Bloom = 0,
     Difficulty = 1, Number = 900, GasLimit = 0, GasUsed = 0, Time = 10, Extra = [], MixDigest = 0, Nonce = 0,
     Validators = [], Validator = [], Penalties = [], BaseFee = None\<rparr>"

lemma sample_header_wf: "wf_Header sample_header"
  using nbytes_le [of 900 2] nbytes_le [of 1 1] nbytes_le [of 10 1] nbytes_le [of 0 1]
  by (simp add: wf_Header_def sample_header_def sig_item_def T_sigHash_def val_sigHash_def header_prefix_def
      val_header_prefix_def lastField_mandatory)


section \<open>Pool keys\<close>

lemma dec_unat_inj: "dec (unat (a :: u64)) = dec (unat b) \<Longrightarrow> a = b"
  by (drule dec_inj) (rule unsigned_word_eqI)

lemma Vote_PoolKey_inj:
  assumes "Vote_PoolKey v = Vote_PoolKey w"
  shows "vote_ProposedBlockInfo v = vote_ProposedBlockInfo w \<and> vote_GapNumber v = vote_GapNumber w"
proof -
  let ?b = "vote_ProposedBlockInfo v" and ?c = "vote_ProposedBlockInfo w"
  have 1: "dec (unat (bi_Round ?b)) = dec (unat (bi_Round ?c))
      \<and> dec (unat (vote_GapNumber v)) @ CHR '':'' # dec_int (bi_Number ?b) @ CHR '':'' # Hash_Hex (bi_Hash ?b)
        = dec (unat (vote_GapNumber w)) @ CHR '':'' # dec_int (bi_Number ?c) @ CHR '':'' # Hash_Hex (bi_Hash ?c)"
    using assms by (intro split_colon dec_no_colon) (simp add: Vote_PoolKey_def Let_def)
  then have 2: "dec (unat (vote_GapNumber v)) = dec (unat (vote_GapNumber w))
      \<and> dec_int (bi_Number ?b) @ CHR '':'' # Hash_Hex (bi_Hash ?b) = dec_int (bi_Number ?c) @ CHR '':'' # Hash_Hex (bi_Hash ?c)"
    by (intro split_colon dec_no_colon) simp
  then have 3: "dec_int (bi_Number ?b) = dec_int (bi_Number ?c) \<and> Hash_Hex (bi_Hash ?b) = Hash_Hex (bi_Hash ?c)"
    by (intro split_colon dec_int_no_colon) simp
  have "bi_Round ?b = bi_Round ?c" "vote_GapNumber v = vote_GapNumber w"
    using 1 2 by (auto dest: dec_unat_inj)
  moreover have "bi_Number ?b = bi_Number ?c" "bi_Hash ?b = bi_Hash ?c"
    using 3 by (auto dest: dec_int_inj Hash_Hex_inj)
  ultimately show ?thesis by (intro conjI BlockInfo.equality) simp_all
qed

lemma Timeout_PoolKey_inj:
  "Timeout_PoolKey s = Timeout_PoolKey t \<Longrightarrow> to_Round s = to_Round t \<and> to_GapNumber s = to_GapNumber t"
proof -
  assume "Timeout_PoolKey s = Timeout_PoolKey t"
  then have "dec (unat (to_Round s)) = dec (unat (to_Round t)) \<and> dec (unat (to_GapNumber s)) = dec (unat (to_GapNumber t))"
    by (intro split_colon dec_no_colon) (simp add: Timeout_PoolKey_def)
  then show ?thesis by (auto dest: dec_unat_inj)
qed

lemma PoolKey_round:
  "ParseInt (split_first (Vote_PoolKey v)) =
     (if unat (bi_Round (vote_ProposedBlockInfo v)) < 2 ^ 63
      then Some (int (unat (bi_Round (vote_ProposedBlockInfo v)))) else None)"
  "ParseInt (split_first (Timeout_PoolKey t)) =
     (if unat (to_Round t) < 2 ^ 63 then Some (int (unat (to_Round t))) else None)"
proof -
  have "split_first (Vote_PoolKey v) = dec (unat (bi_Round (vote_ProposedBlockInfo v)))"
    unfolding Vote_PoolKey_def Let_def append.simps by (rule split_first_key [OF dec_no_colon])
  then show "ParseInt (split_first (Vote_PoolKey v)) =
     (if unat (bi_Round (vote_ProposedBlockInfo v)) < 2 ^ 63
      then Some (int (unat (bi_Round (vote_ProposedBlockInfo v)))) else None)"
    by (simp only: ParseInt_dec)
  have "split_first (Timeout_PoolKey t) = dec (unat (to_Round t))"
    unfolding Timeout_PoolKey_def append.simps by (rule split_first_key [OF dec_no_colon])
  then show "ParseInt (split_first (Timeout_PoolKey t)) =
     (if unat (to_Round t) < 2 ^ 63 then Some (int (unat (to_Round t))) else None)"
    by (simp only: ParseInt_dec)
qed

text \<open>
  C14: two votes share a key of the vote pool exactly when they are for the same block, round,
  number and gap number, two timeouts exactly when they are for the same round and gap number, and
  the round of a message below 2^63 is read back from its key.
\<close>

theorem PoolKey_identifies:
  "(Vote_PoolKey v = Vote_PoolKey w
      \<longleftrightarrow> vote_ProposedBlockInfo v = vote_ProposedBlockInfo w \<and> vote_GapNumber v = vote_GapNumber w)
   \<and> (Timeout_PoolKey s = Timeout_PoolKey t \<longleftrightarrow> to_Round s = to_Round t \<and> to_GapNumber s = to_GapNumber t)
   \<and> ParseInt (split_first (Vote_PoolKey v)) =
       (if unat (bi_Round (vote_ProposedBlockInfo v)) < 2 ^ 63
        then Some (int (unat (bi_Round (vote_ProposedBlockInfo v)))) else None)
   \<and> ParseInt (split_first (Timeout_PoolKey s)) =
       (if unat (to_Round s) < 2 ^ 63 then Some (int (unat (to_Round s))) else None)"
proof (intro conjI PoolKey_round)
  show "Vote_PoolKey v = Vote_PoolKey w
      \<longleftrightarrow> vote_ProposedBlockInfo v = vote_ProposedBlockInfo w \<and> vote_GapNumber v = vote_GapNumber w"
    using Vote_PoolKey_inj [of v w] by (auto simp: Vote_PoolKey_def)
  show "Timeout_PoolKey s = Timeout_PoolKey t \<longleftrightarrow> to_Round s = to_Round t \<and> to_GapNumber s = to_GapNumber t"
    using Timeout_PoolKey_inj [of s t] by (auto simp: Timeout_PoolKey_def)
qed

end
