(* ===== verification/Lru.thy ===== *)
theory Lru
  imports Prelude "HOL-Library.AList"
begin

text \<open>
  The LRU cache of \<^verbatim>\<open>src/common/lru\<close>: a map of items and a recency list, most recent first. The
  locking wrapper \<^verbatim>\<open>Cache\<close> runs each operation of \<^verbatim>\<open>BasicLRU\<close> under its mutex, so the same
  functions model it. The interface the engine relies on is the locale \<open>cache_laws\<close>.
\<close>

section \<open>State and operations\<close>

record ('k, 'v) lru =
  lru_list :: "'k list"
  lru_items :: "('k \<times> 'v) list"
  lru_cap :: nat

text \<open>\<^verbatim>\<open>int\<close> capacities: at most 0 becomes 1.\<close>

definition NewBasicLRU :: "int \<Rightarrow> ('k, 'v) lru" where
  "NewBasicLRU capacity =
    \<lparr>lru_list = [], lru_items = [], lru_cap = nat (if capacity \<le> 0 then 1 else capacity)\<rparr>"

definition lru_Len :: "('k, 'v) lru \<Rightarrow> nat" where
  "lru_Len c = length (lru_items c)"

definition moveToFront :: "'k \<Rightarrow> 'k list \<Rightarrow> 'k list" where
  "moveToFront k xs = k # remove1 k xs"

definition lru_Add :: "'k \<Rightarrow> 'v \<Rightarrow> ('k, 'v) lru \<Rightarrow> ('k, 'v) lru \<times> bool" where
  "lru_Add key value c =
    (if map_of (lru_items c) key \<noteq> None
     then (c\<lparr>lru_items := AList.update key value (lru_items c),
             lru_list := moveToFront key (lru_list c)\<rparr>, False)
     else if lru_cap c \<le> lru_Len c
     then let old = last (lru_list c)
          in (c\<lparr>lru_items := AList.update key value (AList.delete old (lru_items c)),
                lru_list := key # butlast (lru_list c)\<rparr>, True)
     else (c\<lparr>lru_items := AList.update key value (lru_items c),
             lru_list := key # lru_list c\<rparr>, False))"

definition lru_Contains :: "'k \<Rightarrow> ('k, 'v) lru \<Rightarrow> bool" where
  "lru_Contains key c \<longleftrightarrow> map_of (lru_items c) key \<noteq> None"

definition lru_Peek :: "('k, 'v) lru \<Rightarrow> 'k \<Rightarrow> 'v option" where
  "lru_Peek c key = map_of (lru_items c) key"

definition lru_Get :: "'k \<Rightarrow> ('k, 'v) lru \<Rightarrow> ('k, 'v) lru \<times> 'v option" where
  "lru_Get key c =
    (case map_of (lru_items c) key of
       None \<Rightarrow> (c, None)
     | Some v \<Rightarrow> (c\<lparr>lru_list := moveToFront key (lru_list c)\<rparr>, Some v))"

definition lru_GetOldest :: "('k, 'v) lru \<Rightarrow> ('k \<times> 'v option) option" where
  "lru_GetOldest c =
    (if lru_list c = [] then None
     else let key = last (lru_list c) in Some (key, map_of (lru_items c) key))"

definition lru_Purge :: "('k, 'v) lru \<Rightarrow> ('k, 'v) lru" where
  "lru_Purge c = c\<lparr>lru_list := [], lru_items := []\<rparr>"

definition lru_Remove :: "'k \<Rightarrow> ('k, 'v) lru \<Rightarrow> ('k, 'v) lru \<times> bool" where
  "lru_Remove key c =
    (if map_of (lru_items c) key \<noteq> None
     then (c\<lparr>lru_items := AList.delete key (lru_items c), lru_list := remove1 key (lru_list c)\<rparr>, True)
     else (c, False))"

definition lru_RemoveOldest :: "('k, 'v) lru \<Rightarrow> ('k, 'v) lru \<times> ('k \<times> 'v option) option" where
  "lru_RemoveOldest c =
    (if lru_list c = [] then (c, None)
     else let key = last (lru_list c)
          in (c\<lparr>lru_items := AList.delete key (lru_items c), lru_list := butlast (lru_list c)\<rparr>,
              Some (key, map_of (lru_items c) key)))"

text \<open>\<^verbatim>\<open>Keys\<close> walks the list from its end: oldest first.\<close>

definition lru_Keys :: "('k, 'v) lru \<Rightarrow> 'k list" where
  "lru_Keys c = rev (lru_list c)"

section \<open>The invariant\<close>

definition lru_inv :: "('k, 'v) lru \<Rightarrow> bool" where
  "lru_inv c \<longleftrightarrow> 0 < lru_cap c \<and> distinct (lru_list c) \<and> distinct (map fst (lru_items c))
     \<and> set (lru_list c) = fst ` set (lru_items c) \<and> lru_Len c \<le> lru_cap c"

lemma lru_inv_new: "lru_inv (NewBasicLRU n)"
  by (simp add: lru_inv_def NewBasicLRU_def lru_Len_def)

lemma lru_inv_length: "lru_inv c \<Longrightarrow> length (lru_list c) = lru_Len c"
  unfolding lru_inv_def lru_Len_def by (metis distinct_card length_map list.set_map)

lemma lru_mem: "lru_inv c \<Longrightarrow> k \<in> set (lru_list c) \<longleftrightarrow> map_of (lru_items c) k \<noteq> None"
  by (simp add: lru_inv_def map_of_eq_None_iff)

lemma AList_update_keys:
  "distinct (map fst xs) \<Longrightarrow> distinct (map fst (AList.update k v xs))"
  "fst ` set (AList.update k v xs) = insert k (fst ` set xs)"
  "length (AList.update k v xs) = (if map_of xs k = None then Suc (length xs) else length xs)"
proof -
  show "distinct (map fst xs) \<Longrightarrow> distinct (map fst (AList.update k v xs))"
    by (rule distinct_update)
  show "fst ` set (AList.update k v xs) = insert k (fst ` set xs)"
    using dom_update [of k v xs] by (simp add: image_image)
  show "length (AList.update k v xs) = (if map_of xs k = None then Suc (length xs) else length xs)"
    by (induction xs) auto
qed

lemma AList_delete_keys:
  "distinct (map fst xs) \<Longrightarrow> distinct (map fst (AList.delete k xs))"
  "fst ` set (AList.delete k xs) = fst ` set xs - {k}"
  by (rule distinct_delete) (auto simp: AList.delete_eq)

lemma AList_delete_length:
  assumes "distinct (map fst xs)" and "map_of xs k \<noteq> None"
  shows "Suc (length (AList.delete k xs)) = length xs"
proof -
  have "card (fst ` set (AList.delete k xs)) = card (fst ` set xs) - 1"
    using assms(2) by (simp add: AList_delete_keys map_of_eq_None_iff)
  moreover have "card (fst ` set ys) = length ys" if "distinct (map fst ys)" for ys :: "('a \<times> 'b) list"
    using distinct_card [OF that] by simp
  moreover have "0 < length xs" using assms(2) by (cases xs) auto
  ultimately show ?thesis
    using AList_delete_keys(1) [OF assms(1), of k] assms(1) by (metis Suc_pred' One_nat_def)
qed

lemma last_in_items: "lru_inv c \<Longrightarrow> lru_list c \<noteq> [] \<Longrightarrow> map_of (lru_items c) (last (lru_list c)) \<noteq> None"
  using lru_mem [of c "last (lru_list c)"] last_in_set by blast

lemma full_nonempty: "lru_inv c \<Longrightarrow> lru_cap c \<le> lru_Len c \<Longrightarrow> lru_list c \<noteq> []"
  using lru_inv_length [of c] by (auto simp: lru_inv_def)

lemma set_butlast_distinct: "distinct xs \<Longrightarrow> xs \<noteq> [] \<Longrightarrow> set (butlast xs) = set xs - {last xs}"
  by (induction xs rule: rev_induct) auto

lemma lru_inv_Add:
  assumes i: "lru_inv c"
  shows "lru_inv (fst (lru_Add k v c))"
proof -
  consider (hit) "map_of (lru_items c) k \<noteq> None"
    | (full) "map_of (lru_items c) k = None" "lru_cap c \<le> lru_Len c"
    | (room) "map_of (lru_items c) k = None" "\<not> lru_cap c \<le> lru_Len c" by blast
  then show ?thesis
  proof cases
    case hit
    then have "k \<in> set (lru_list c)" using lru_mem [OF i] by blast
    then show ?thesis
      using i hit by (auto simp: lru_Add_def lru_inv_def moveToFront_def lru_Len_def AList_update_keys)
  next
    case full
    have ne: "lru_list c \<noteq> []" using full_nonempty [OF i full(2)] .
    define old where "old = last (lru_list c)"
    have o: "map_of (lru_items c) old \<noteq> None" using last_in_items [OF i ne] by (simp add: old_def)
    have k: "k \<notin> set (lru_list c)" using full(1) lru_mem [OF i] by blast
    have d: "distinct (map fst (lru_items c))" "distinct (lru_list c)" using i by (auto simp: lru_inv_def)
    have n: "map_of (AList.delete old (lru_items c)) k = None"
      using full(1) by (simp add: map_of_delete map_of_eq_None_iff AList_delete_keys)
    have "Suc (length (AList.delete old (lru_items c))) = lru_Len c"
      using AList_delete_length [OF d(1) o] by (simp add: lru_Len_def)
    moreover have "set (lru_list c) = fst ` set (lru_items c)" using i by (simp add: lru_inv_def)
    moreover have "k \<noteq> old" using k ne by (auto simp: old_def)
    ultimately show ?thesis
      using full i k n d ne
      by (simp add: lru_Add_def Let_def old_def [symmetric] lru_inv_def lru_Len_def AList_update_keys
          AList_delete_keys distinct_butlast set_butlast_distinct insert_Diff_if)
  next
    case room
    then have "k \<notin> set (lru_list c)" using lru_mem [OF i] by blast
    then show ?thesis
      using i room by (auto simp: lru_Add_def lru_inv_def lru_Len_def AList_update_keys)
  qed
qed

lemma lru_inv_Get: "lru_inv c \<Longrightarrow> lru_inv (fst (lru_Get k c))"
  using lru_mem [of c k]
  by (auto simp: lru_Get_def lru_inv_def moveToFront_def lru_Len_def split: option.splits)

lemma lru_inv_Remove: "lru_inv c \<Longrightarrow> lru_inv (fst (lru_Remove k c))"
  using AList_delete_length [of "lru_items c" k]
  by (cases "map_of (lru_items c) k") (auto simp: lru_Remove_def lru_inv_def lru_Len_def AList_delete_keys)

lemma lru_inv_RemoveOldest: "lru_inv c \<Longrightarrow> lru_inv (fst (lru_RemoveOldest c))"
  using AList_delete_length [of "lru_items c" "last (lru_list c)"] last_in_items [of c]
  by (auto simp: lru_RemoveOldest_def lru_inv_def lru_Len_def AList_delete_keys distinct_butlast
      set_butlast_distinct Let_def)

lemma lru_inv_Purge: "lru_inv c \<Longrightarrow> lru_inv (lru_Purge c)"
  by (simp add: lru_inv_def lru_Purge_def lru_Len_def)

section \<open>The interface of a cache\<close>

text \<open>
  What a client may rely on: reading returns the stored value and changes no content, adding makes
  the new value readable and never makes any other value readable that was not there before.
\<close>

locale cache_laws =
  fixes inv :: "'c \<Rightarrow> bool"
    and peek :: "'c \<Rightarrow> 'k \<Rightarrow> 'v option"
    and get :: "'k \<Rightarrow> 'c \<Rightarrow> 'c \<times> 'v option"
    and add :: "'k \<Rightarrow> 'v \<Rightarrow> 'c \<Rightarrow> 'c"
  assumes get_value: "snd (get k c) = peek c k"
    and get_content: "peek (fst (get k c)) = peek c"
    and get_inv: "inv c \<Longrightarrow> inv (fst (get k c))"
    and add_self: "peek (add k v c) k = Some v"
    and add_other: "peek (add k v c) k' = Some w \<Longrightarrow> k' \<noteq> k \<Longrightarrow> peek c k' = Some w"
    and add_inv: "inv c \<Longrightarrow> inv (add k v c)"
begin

text \<open>A property of all cached entries survives every use of the cache.\<close>

lemma entries_get: "(\<And>k v. peek c k = Some v \<Longrightarrow> P k v) \<Longrightarrow> peek (fst (get k c)) k' = Some w \<Longrightarrow> P k' w"
  by (simp add: get_content)

lemma entries_add:
  "(\<And>k v. peek c k = Some v \<Longrightarrow> P k v) \<Longrightarrow> P k v \<Longrightarrow> peek (add k v c) k' = Some w \<Longrightarrow> P k' w"
  using add_self add_other by (metis option.inject)

lemma get_hit: "snd (get k c) = Some v \<Longrightarrow> (\<And>k v. peek c k = Some v \<Longrightarrow> P k v) \<Longrightarrow> P k v"
  by (simp add: get_value)

end

lemma lru_peek_get [simp]: "lru_Peek (fst (lru_Get k c)) = lru_Peek c"
  by (auto simp: lru_Get_def lru_Peek_def fun_eq_iff split: option.splits)

lemma lru_get_value: "snd (lru_Get k c) = lru_Peek c k"
  by (simp add: lru_Get_def lru_Peek_def split: option.splits)

interpretation lruc: cache_laws lru_inv lru_Peek lru_Get "\<lambda>k v c. fst (lru_Add k v c)"
proof
  show "lru_Peek (fst (lru_Add k v c)) k = Some v" for k v and c :: "('a, 'b) lru"
    by (simp add: lru_Add_def lru_Peek_def update_conv Let_def)
  show "lru_Peek c k' = Some w" if "lru_Peek (fst (lru_Add k v c)) k' = Some w" and "k' \<noteq> k"
    for k v k' w and c :: "('a, 'b) lru"
    using that
    by (auto simp: lru_Add_def lru_Peek_def update_conv map_of_delete Let_def delete_conv fun_upd_apply
        split: if_splits)
qed (auto simp: lru_get_value lru_inv_Get lru_inv_Add)

section \<open>Refinement of the recency list\<close>

text \<open>
  The abstract cache is the list of its entries, most recently used first, cut to the capacity:
  using an entry moves it to the front, adding one drops the oldest when there is no room.
\<close>

definition lru_abs :: "('k, 'v) lru \<Rightarrow> ('k \<times> 'v option) list" where
  "lru_abs c = map (\<lambda>k. (k, map_of (lru_items c) k)) (lru_list c)"

definition spec_touch :: "'k \<Rightarrow> 'v \<Rightarrow> ('k \<times> 'v) list \<Rightarrow> ('k \<times> 'v) list" where
  "spec_touch k v xs = (k, v) # filter (\<lambda>p. fst p \<noteq> k) xs"

lemma filter_abs:
  "distinct xs \<Longrightarrow> filter (\<lambda>p. fst p \<noteq> k) (map (\<lambda>k. (k, f k)) xs) = map (\<lambda>k. (k, f k)) (remove1 k xs)"
  by (simp add: filter_map o_def distinct_remove1_removeAll removeAll_filter_not_eq eq_commute)

lemma lru_abs_upd: "\<forall>x\<in>set xs. g x = f x \<Longrightarrow> map (\<lambda>k. (k, g k)) xs = map (\<lambda>k. (k, f k)) xs"
  by simp

lemma lru_abs_Add_hit:
  assumes i: "lru_inv c" and h: "map_of (lru_items c) k \<noteq> None"
  shows "lru_abs (fst (lru_Add k v c)) = take (lru_cap c) (spec_touch k (Some v) (lru_abs c))"
proof -
  have d: "distinct (lru_list c)" and m: "k \<in> set (lru_list c)"
    using i lru_mem [OF i] h by (auto simp: lru_inv_def)
  have e: "lru_abs (fst (lru_Add k v c)) = spec_touch k (Some v) (lru_abs c)"
    using h d
    by (simp add: lru_Add_def lru_abs_def spec_touch_def filter_abs moveToFront_def update_conv)
  have "length (spec_touch k (Some v) (lru_abs c)) \<le> lru_cap c"
    using lru_inv_length [OF i] i m length_pos_if_in_set [OF m]
    by (simp add: lru_abs_def spec_touch_def filter_abs [OF d] length_remove1 lru_inv_def)
  then show ?thesis using e by simp
qed

lemma lru_abs_Add_miss:
  assumes i: "lru_inv c" and h: "map_of (lru_items c) k = None"
  shows "lru_abs (fst (lru_Add k v c)) = take (lru_cap c) (spec_touch k (Some v) (lru_abs c))"
proof -
  have d: "distinct (lru_list c)" and m: "k \<notin> set (lru_list c)"
    using i lru_mem [OF i] h by (auto simp: lru_inv_def)
  have t: "spec_touch k (Some v) (lru_abs c) = (k, Some v) # lru_abs c"
    using m by (simp add: spec_touch_def lru_abs_def filter_abs [OF d] remove1_idem)
  show ?thesis
  proof (cases "lru_cap c \<le> lru_Len c")
    case True
    then have len: "length (lru_list c) = lru_cap c"
      using lru_inv_length [OF i] i by (simp add: lru_inv_def)
    have ne: "lru_list c \<noteq> []" using full_nonempty [OF i True] .
    have "x \<noteq> last (lru_list c) \<and> x \<noteq> k" if "x \<in> set (butlast (lru_list c))" for x
      using that set_butlast_distinct [OF d ne] m by auto
    moreover have "take (lru_cap c) ((k, Some v) # lru_abs c) =
        (k, Some v) # map (\<lambda>k. (k, map_of (lru_items c) k)) (butlast (lru_list c))"
      using len ne by (cases "lru_cap c") (auto simp: lru_abs_def take_map butlast_conv_take)
    ultimately show ?thesis
      using True h t by (simp add: lru_Add_def lru_abs_def Let_def update_conv delete_conv fun_upd_def)
  next
    case False
    then have "length ((k, Some v) # lru_abs c) \<le> lru_cap c"
      using lru_inv_length [OF i] by (simp add: lru_abs_def)
    moreover have "lru_abs (fst (lru_Add k v c)) = (k, Some v) # lru_abs c"
      using False h m by (auto simp: lru_Add_def lru_abs_def update_conv)
    ultimately show ?thesis using t by simp
  qed
qed



end
