(* ===== verification/Float64.thy ===== *)
theory Float64
  imports Complex_Main Rlp_Correct
begin

text \<open>
  Go's \<^verbatim>\<open>float64\<close> as the code uses it: finite binary64 values are rationals, an operation is the
  exact operation followed by rounding to 53 significant bits, ties to even. The values that
  occur (numbers of nodes, thresholds between 0 and 1, powers below 2 to the 32) are far from
  overflow and from the subnormal range. \<open>Pow\<close> is \<^verbatim>\<open>math.Pow\<close> for a natural exponent, by the
  library's repeated squaring on mantissa and exponent.
\<close>

section \<open>Rounding\<close>

definition fl_exp :: "rat \<Rightarrow> int" where
  "fl_exp x =
    (case quotient_of x of (p, q) \<Rightarrow>
       let e = int (bitLen (nat p)) - int (bitLen (nat q))
       in if 2 powi e \<le> x then e else e - 1)"

definition round_even :: "rat \<Rightarrow> int" where
  "round_even x =
    (let f = \<lfloor>x\<rfloor>; d = x - of_int f
     in if d < 1 / 2 then f else if 1 / 2 < d then f + 1 else if even f then f else f + 1)"

definition fround_pos :: "rat \<Rightarrow> rat" where
  "fround_pos x = (let u = 2 powi (fl_exp x - 52) in of_int (round_even (x / u)) * u)"

definition fround :: "rat \<Rightarrow> rat" where
  "fround x = (if x = 0 then 0 else if x < 0 then - fround_pos (- x) else fround_pos x)"

definition fmul :: "rat \<Rightarrow> rat \<Rightarrow> rat" where
  "fmul x y = fround (x * y)"

definition float_of_nat :: "nat \<Rightarrow> rat" where
  "float_of_nat n = fround (of_nat n)"

section \<open>Error bound\<close>

lemma bitLen_bounds: "0 < n \<Longrightarrow> 2 ^ (bitLen n - 1) \<le> n \<and> n < 2 ^ bitLen n"
  using bitLen_lower [of n] bitLen_upper [of n] by simp

lemma fl_exp_bounds:
  assumes "0 < x"
  shows "2 powi fl_exp x \<le> x \<and> x < 2 powi (fl_exp x + 1)"
proof -
  obtain p q where pq: "quotient_of x = (p, q)" by (cases "quotient_of x")
  have q: "0 < q" using quotient_of_denom_pos [OF pq] .
  have x: "x = of_int p / of_int q" using quotient_of_div [OF pq] .
  have p: "0 < p" using assms q by (simp add: x zero_less_divide_iff)
  define a b where "a = bitLen (nat p)" and "b = bitLen (nat q)"
  have a: "2 ^ (a - 1) \<le> nat p" "nat p < 2 ^ a" using bitLen_bounds [of "nat p"] p by (auto simp: a_def)
  have b: "2 ^ (b - 1) \<le> nat q" "nat q < 2 ^ b" using bitLen_bounds [of "nat q"] q by (auto simp: b_def)
  have pos: "0 < a" "0 < b" using a b p q by (cases a; cases b; auto)+
  have ar: "2 powi (int a - 1) \<le> (of_int p :: rat)" "(of_int p :: rat) < 2 powi int a"
  proof -
    have "(2::rat) powi (int a - 1) = of_nat (2 ^ (a - 1))"
      using pos by (simp add: power_int_def nat_diff_distrib)
    also have "\<dots> \<le> of_nat (nat p)" using a(1) by (simp only: of_nat_le_iff)
    finally show "2 powi (int a - 1) \<le> (of_int p :: rat)" using p by simp
    have "(of_nat (nat p) :: rat) < of_nat (2 ^ a)" using a(2) by (simp only: of_nat_less_iff)
    then show "(of_int p :: rat) < 2 powi int a" using p by (simp add: power_int_def)
  qed
  have br: "2 powi (int b - 1) \<le> (of_int q :: rat)" "(of_int q :: rat) < 2 powi int b"
  proof -
    have "(2::rat) powi (int b - 1) = of_nat (2 ^ (b - 1))"
      using pos by (simp add: power_int_def nat_diff_distrib)
    also have "\<dots> \<le> of_nat (nat q)" using b(1) by (simp only: of_nat_le_iff)
    finally show "2 powi (int b - 1) \<le> (of_int q :: rat)" using q by simp
    have "(of_nat (nat q) :: rat) < of_nat (2 ^ b)" using b(2) by (simp only: of_nat_less_iff)
    then show "(of_int q :: rat) < 2 powi int b" using q by (simp add: power_int_def)
  qed
  have qr: "0 < (of_int q :: rat)" using q by simp
  have up: "x < 2 powi (int a - int b + 1)"
  proof -
    have "x < 2 powi int a / of_int q" unfolding x using ar(2) qr by (rule divide_strict_right_mono)
    also have "\<dots> \<le> 2 powi int a / 2 powi (int b - 1)"
      using br(1) qr by (intro divide_left_mono) (auto intro: mult_pos_pos)
    also have "\<dots> = 2 powi (int a - int b + 1)" by (simp add: power_int_diff power_int_add)
    finally show ?thesis .
  qed
  have lo: "2 powi (int a - int b - 1) \<le> x"
  proof -
    have "(2::rat) powi (int a - int b - 1) = 2 powi (int a - 1) / 2 powi int b"
      by (simp add: power_int_diff)
    also have "\<dots> \<le> 2 powi (int a - 1) / of_int q"
      using br(2) qr by (intro divide_left_mono) (auto intro: mult_pos_pos)
    also have "\<dots> \<le> x" unfolding x using ar(1) qr by (intro divide_right_mono) auto
    finally show ?thesis .
  qed
  show ?thesis
    using up lo by (auto simp: fl_exp_def pq a_def b_def Let_def)
qed

lemma round_even_error: "\<bar>of_int (round_even x) - x\<bar> \<le> 1 / 2"
proof -
  define f where "f = \<lfloor>x\<rfloor>"
  have "of_int f \<le> x" "x < of_int f + 1" unfolding f_def by linarith+
  then show ?thesis by (auto simp: round_even_def Let_def f_def [symmetric] abs_if)
qed

lemma round_even_int [simp]: "round_even (of_int n) = n"
  by (simp add: round_even_def)

lemma fround_error: "0 < x \<Longrightarrow> \<bar>fround x - x\<bar> \<le> x / 2 ^ 53"
proof -
  assume x: "0 < x"
  define u :: rat where "u = 2 powi (fl_exp x - 52)"
  have u: "0 < u" by (simp add: u_def)
  have "2 powi fl_exp x \<le> x" using fl_exp_bounds [OF x] by simp
  moreover have "2 powi fl_exp x = u * 2 ^ 52"
    unfolding u_def by (simp add: power_int_diff)
  ultimately have b: "u * 2 ^ 52 \<le> x" by simp
  have "\<bar>of_int (round_even (x / u)) * u - x\<bar> = \<bar>of_int (round_even (x / u)) - x / u\<bar> * u"
  proof -
    have "of_int (round_even (x / u)) * u - x = (of_int (round_even (x / u)) - x / u) * u"
      using u by (simp add: left_diff_distrib)
    then show ?thesis using u by (simp add: abs_mult)
  qed
  also have "\<dots> \<le> 1 / 2 * u" using round_even_error u by (intro mult_right_mono) auto
  also have "\<dots> \<le> x / 2 ^ 53" using b by (simp add: field_simps)
  finally show ?thesis using x by (simp add: fround_def fround_pos_def u_def Let_def)
qed

lemma fround_0 [simp]: "fround 0 = 0"
  by (simp add: fround_def)

lemma fround_ge: "0 \<le> x \<Longrightarrow> x * (1 - 1 / 2 ^ 53) \<le> fround x"
proof (cases "x = 0")
  case False
  assume "0 \<le> x"
  with False have "\<bar>fround x - x\<bar> \<le> x / 2 ^ 53" using fround_error [of x] by simp
  then have "- (x / 2 ^ 53) \<le> fround x - x" by linarith
  then show ?thesis by (simp add: algebra_simps)
qed simp

lemma fround_le: "0 \<le> x \<Longrightarrow> fround x \<le> x * (1 + 1 / 2 ^ 53)"
proof (cases "x = 0")
  case False
  assume "0 \<le> x"
  with False have "\<bar>fround x - x\<bar> \<le> x / 2 ^ 53" using fround_error [of x] by simp
  then have "fround x - x \<le> x / 2 ^ 53" by linarith
  then show ?thesis by (simp add: algebra_simps)
qed simp

text \<open>Numbers of at most 53 bits are exact.\<close>

lemma fround_exact:
  assumes "n < 2 ^ 53"
  shows "fround (of_nat n) = of_nat n"
proof (cases "n = 0")
  case False
  define x :: rat where "x = of_nat n"
  have x: "0 < x" using False by (simp add: x_def)
  have "2 powi fl_exp x \<le> x" using fl_exp_bounds [OF x] by simp
  also have "x < 2 powi 53"
  proof -
    have "x < of_nat (2 ^ 53)" unfolding x_def using assms by (simp only: of_nat_less_iff)
    then show ?thesis by (simp add: power_int_def)
  qed
  finally have "2 powi fl_exp x < (2::rat) powi 53" .
  then have e: "fl_exp x < 53"
    using power_int_increasing [of 53 "fl_exp x" "2::rat"] by (simp only: not_le [symmetric]) auto
  define k where "k = nat (52 - fl_exp x)"
  have u: "(2::rat) powi (fl_exp x - 52) = inverse (2 ^ k)"
    using e by (auto simp: k_def power_int_def power_one_over inverse_eq_divide)
  have "x / inverse (2 ^ k) = of_int (int (n * 2 ^ k))"
    by (simp add: x_def divide_inverse)
  then have "fround_pos x = x"
    unfolding fround_pos_def Let_def u by (simp only: round_even_int) (simp add: x_def)
  then show ?thesis using x by (simp add: fround_def x_def)
qed simp

lemma float_of_nat_exact: "n < 2 ^ 53 \<Longrightarrow> float_of_nat n = of_nat n"
  by (simp add: float_of_nat_def fround_exact)

section \<open>Powers\<close>

definition frexp :: "rat \<Rightarrow> rat \<times> int" where
  "frexp x = (let e = fl_exp \<bar>x\<bar> + 1 in (x / 2 powi e, e))"

function pow_loop :: "nat \<Rightarrow> rat \<Rightarrow> int \<Rightarrow> rat \<Rightarrow> int \<Rightarrow> rat \<times> int" where
  "pow_loop i x1 xe a1 ae =
    (if i = 0 then (a1, ae)
     else if xe < - 4096 \<or> 4096 < xe then (a1, ae + xe)
     else let (a1', ae') = (if odd i then (fmul a1 x1, ae + xe) else (a1, ae));
              x1' = fmul x1 x1;
              (x1'', xe'') = (if x1' < 1 / 2 then (x1' + x1', 2 * xe - 1) else (x1', 2 * xe))
          in pow_loop (i div 2) x1'' xe'' a1' ae')"
  by pat_completeness auto
termination
  by (relation "measure (\<lambda>(i, _). i)") auto

declare pow_loop.simps [simp del]

definition Pow :: "rat \<Rightarrow> nat \<Rightarrow> rat" where
  "Pow x y =
    (if y = 0 \<or> x = 1 then 1
     else if y = 1 then x
     else if x = 0 then 0
     else let (x1, xe) = frexp x; (a1, ae) = pow_loop y x1 xe 1 0
          in a1 * 2 powi ae)"

lemma Pow_one [simp]: "Pow 1 n = 1"
  by (simp add: Pow_def)

lemma Pow_zero_exponent [simp]: "Pow b 0 = 1"
  by (simp add: Pow_def)

lemma powi_less_iff: "(2::rat) powi a < 2 powi b \<longleftrightarrow> a < b"
proof
  assume "(2::rat) powi a < 2 powi b"
  then show "a < b" using power_int_increasing [of b a "2::rat"] by (simp only: not_le [symmetric]) auto
next
  assume "a < b"
  then show "(2::rat) powi a < 2 powi b" using power_int_strict_increasing [of a b "2::rat"] by simp
qed

lemma fl_exp_powi: "fl_exp (2 powi k) = k"
proof -
  have "(2::rat) powi fl_exp (2 powi k) \<le> 2 powi k" "(2::rat) powi k < 2 powi (fl_exp (2 powi k) + 1)"
    using fl_exp_bounds [of "2 powi k"] by auto
  then show ?thesis using powi_less_iff by (metis linorder_neqE_linordered_idom not_le zle_add1_eq_le)
qed

lemma fround_powi: "fround (2 powi k) = 2 powi k"
proof -
  have "2 powi k / (2::rat) powi (k - 52) = 2 powi 52"
    by (simp flip: power_int_diff)
  also have "\<dots> = of_int (2 ^ 52)" by simp
  finally have "fround_pos (2 powi k) = 2 powi k"
    unfolding fround_pos_def fl_exp_powi Let_def by (simp only: round_even_int) (simp add: power_int_diff)
  then show ?thesis by (simp add: fround_def) (metis less_irrefl not_less_iff_gr_or_eq zero_less_numeral zero_less_power_int)
qed

lemma fmul_powi: "fmul (2 powi a) (2 powi b) = 2 powi (a + b)"
  by (simp add: fmul_def fround_powi flip: power_int_add)

lemma pow_loop_powi:
  "1 \<le> xe \<Longrightarrow> (xe - 1) * int i \<le> 4000 \<Longrightarrow>
   \<exists>a e. pow_loop i (1 / 2) xe (2 powi j) ae = (2 powi a, e) \<and> a + e = j + ae + (xe - 1) * int i"
proof (induction i arbitrary: xe j ae rule: less_induct)
  case (less i)
  show ?case
  proof (cases "i = 0")
    case True
    then show ?thesis by (auto simp: pow_loop.simps)
  next
    case False
    have "xe - 1 \<le> (xe - 1) * int i" using less(2) False by (simp add: mult_le_cancel_left1)
    then have g: "\<not> (xe < - 4096 \<or> 4096 < xe)" using less(2,3) by linarith
    define j' ae' where "j' = (if odd i then j - 1 else j)" and "ae' = (if odd i then ae + xe else ae)"
    have half: "fmul (1 / 2) (1 / 2) = 1 / 4" and half_j: "fmul (2 powi j) (1 / 2) = 2 powi (j - 1)"
      using fmul_powi [of "- 1" "- 1"] fmul_powi [of j "- 1"] by simp_all
    have step: "pow_loop i (1 / 2) xe (2 powi j) ae = pow_loop (i div 2) (1 / 2) (2 * xe - 1) (2 powi j') ae'"
      using False g
      by (subst pow_loop.simps) (simp add: half half_j j'_def ae'_def Let_def)
    have "(2 * xe - 1 - 1) * int (i div 2) \<le> (xe - 1) * int i"
    proof -
      have "(2 * xe - 1 - 1) * int (i div 2) = (xe - 1) * (2 * int (i div 2))" by (simp add: algebra_simps)
      also have "\<dots> \<le> (xe - 1) * int i" using less(2) by (intro mult_left_mono) auto
      finally show ?thesis .
    qed
    then obtain a e where ae: "pow_loop (i div 2) (1 / 2) (2 * xe - 1) (2 powi j') ae' = (2 powi a, e)"
        "a + e = j' + ae' + (2 * xe - 1 - 1) * int (i div 2)"
      using less.IH [of "i div 2" "2 * xe - 1" j' ae'] less(2,3) False by auto
    have "int i = 2 * int (i div 2) + (if odd i then 1 else 0)" by (cases "odd i") presburger+
    then have "a + e = j + ae + (xe - 1) * int i"
      using ae(2) by (cases "odd i") (simp_all add: j'_def ae'_def algebra_simps)
    then show ?thesis using step ae(1) by auto
  qed
qed

lemma Pow_two: "n < 32 \<Longrightarrow> Pow 2 n = 2 ^ n"
proof -
  assume n: "n < 32"
  have "fl_exp 2 = 1" using fl_exp_powi [of 1] by simp
  then have f: "frexp 2 = (1 / 2, 2)" by (simp add: frexp_def)
  obtain a e where "pow_loop n (1 / 2) 2 (2 powi 0) 0 = (2 powi a, e)" "a + e = int n"
    using pow_loop_powi [of 2 n 0 0] n by auto
  moreover have "(2::rat) powi a * 2 powi e = 2 powi (a + e)" by (simp add: power_int_add)
  ultimately show ?thesis by (simp add: Pow_def f Let_def)
qed

section \<open>Certificate thresholds\<close>

text \<open>
  \<^verbatim>\<open>float64(n) < float64(m)*certThreshold\<close>, the comparison behind every quorum of the engine.
\<close>

definition below_threshold :: "nat \<Rightarrow> nat \<Rightarrow> rat \<Rightarrow> bool" where
  "below_threshold n m certThreshold \<longleftrightarrow> float_of_nat n < fmul (float_of_nat m) certThreshold"

lemma threshold_reached:
  assumes "\<not> below_threshold n m c" and "n < 2 ^ 53" and "m < 2 ^ 53" and "0 \<le> c"
  shows "of_nat m * c * (1 - 1 / 2 ^ 53) \<le> of_nat n"
proof -
  have "fround (of_nat m * c) \<le> of_nat n"
    using assms by (simp add: below_threshold_def fmul_def float_of_nat_exact)
  then show ?thesis using fround_ge [of "of_nat m * c"] assms(4) by simp
qed

text \<open>The threshold 0.667 of the network configurations, as the compiler rounds it.\<close>

definition cert_0667 :: rat where
  "cert_0667 = fround (667 / 1000)"

lemma cert_0667_bounds: "666999 / 1000000 \<le> cert_0667 \<and> cert_0667 \<le> 667001 / 1000000"
  using fround_ge [of "667 / 1000"] fround_le [of "667 / 1000"] by (simp add: cert_0667_def)

text \<open>Whoever reaches the threshold 0.667 is more than two thirds of the nodes.\<close>

lemma quorum_two_thirds:
  assumes "\<not> below_threshold n m c" and "666999 / 1000000 \<le> c" and "n < 2 ^ 53" and "m < 2 ^ 53" and "0 < m"
  shows "2 * m < 3 * n"
proof -
  have "of_nat m * (666999 / 1000000) * (1 - 1 / 2 ^ 53) \<le> of_nat m * c * (1 - 1 / (2::rat) ^ 53)"
    using assms(2) by (intro mult_right_mono mult_left_mono) auto
  also have "\<dots> \<le> of_nat n" using threshold_reached [of n m c] assms by simp
  finally have "of_nat m * (666999 / 1000000) * (1 - 1 / (2::rat) ^ 53) \<le> of_nat n" .
  moreover have "2 * of_nat m < 3 * (of_nat m * (666999 / 1000000) * (1 - 1 / (2::rat) ^ 53))"
    using assms(5) by simp
  ultimately have "2 * (of_nat m :: rat) < 3 * of_nat n" by linarith
  then have "(of_nat (2 * m) :: rat) < of_nat (3 * n)" by simp
  then show ?thesis by (simp only: of_nat_less_iff)
qed

end
