(* ===== verification/V2Config.thy ===== *)
theory V2Config
  imports Float64
begin

text \<open>
  The consensus configuration of \<^verbatim>\<open>src/params/config.go\<close>: the version-2 parameters per switch round,
  the index that finds the parameters of a round, and the choice of the engine for a block.
\<close>

section \<open>State\<close>

record V2Config =
  MaxMasternodes :: int
  SwitchRound :: u64
  MinePeriod :: int
  TimeoutSyncThreshold :: int
  TimeoutPeriod :: int
  CertThreshold :: rat
  ExpBase :: rat
  ExpMaxExponent :: u8

record V2 =
  SwitchEpoch :: u64
  SwitchBlock :: int
  CurrentConfig :: V2Config
  AllConfigs :: "(u64 \<times> V2Config) list"
  configIndex :: "u64 list"
  SkipV2Validation :: bool

record BRDPoSConfig =
  Period :: u64
  Epoch :: u64
  Reward :: u64
  RewardCheckpoint :: u64
  Gap :: u64
  FoudationWalletAddr :: address
  SkipV1Validation :: bool
  cfg_V2 :: V2

datatype consensus_version = ConsensusEngineVersion1 | ConsensusEngineVersion2

section \<open>Operations\<close>

definition BlockConsensusVersion :: "BRDPoSConfig \<Rightarrow> int \<Rightarrow> consensus_version" where
  "BlockConsensusVersion c num =
    (if SwitchBlock (cfg_V2 c) < num then ConsensusEngineVersion2 else ConsensusEngineVersion1)"

text \<open>The first index not above the round, 0 if there is none.\<close>

definition config_index :: "u64 list \<Rightarrow> u64 \<Rightarrow> u64" where
  "config_index idx rnd = (case find (\<lambda>i. i \<le> rnd) idx of None \<Rightarrow> 0 | Some i \<Rightarrow> i)"

text \<open>\<^verbatim>\<open>Config\<close>; a missing entry of the map is the nil pointer.\<close>

definition V2_Config :: "V2 \<Rightarrow> u64 \<Rightarrow> V2Config option" where
  "V2_Config v rnd = map_of (AllConfigs v) (config_index (configIndex v) rnd)"

definition UpdateConfig :: "u64 \<Rightarrow> V2 \<Rightarrow> error + V2" where
  "UpdateConfig rnd v =
    (case map_of (AllConfigs v) (config_index (configIndex v) rnd) of
       None \<Rightarrow> Inl Panic
     | Some c \<Rightarrow> Inr (v\<lparr>CurrentConfig := c\<rparr>))"

definition exch :: "nat \<Rightarrow> nat \<Rightarrow> u64 list \<Rightarrow> u64 list" where
  "exch i j xs = (if xs ! i < xs ! j then xs[i := xs ! j, j := xs ! i] else xs)"

definition sort_descending :: "u64 list \<Rightarrow> u64 list" where
  "sort_descending xs =
    fold (\<lambda>i. fold (\<lambda>j. exch i j) [Suc i..<length xs]) [0..<length xs - 1] xs"

definition BuildConfigIndex :: "V2 \<Rightarrow> V2" where
  "BuildConfigIndex v = v\<lparr>configIndex := sort_descending (map fst (AllConfigs v))\<rparr>"

section \<open>The index is sorted\<close>

lemma mset_swap': "i < length xs \<Longrightarrow> j < length xs \<Longrightarrow> mset (xs[i := xs ! j, j := xs ! i]) = mset xs"
  using mset_swap [of j xs i] by (cases "i = j") (auto simp: list_update_swap)

definition inner_post :: "nat \<Rightarrow> nat \<Rightarrow> u64 list \<Rightarrow> u64 list \<Rightarrow> bool" where
  "inner_post i m xs ys \<longleftrightarrow> length ys = length xs \<and> mset ys = mset xs \<and> (\<forall>k<i. ys ! k = xs ! k)
     \<and> (\<forall>k. i < k \<longrightarrow> k < m \<longrightarrow> ys ! k \<le> ys ! i)
     \<and> (\<forall>k. m \<le> k \<longrightarrow> k < length xs \<longrightarrow> ys ! k = xs ! k)
     \<and> (\<forall>k. i \<le> k \<longrightarrow> k < length xs \<longrightarrow> (\<exists>l. i \<le> l \<and> l < length xs \<and> ys ! k = xs ! l))"

lemma inner_loop:
  assumes "i < m" and "m \<le> length xs"
  shows "inner_post i m xs (fold (\<lambda>j. exch i j) [Suc i..<m] xs)"
  using assms
proof (induction m)
  case (Suc m)
  show ?case
  proof (cases "i = m")
    case True
    then show ?thesis using Suc.prems by (auto simp: inner_post_def)
  next
    case False
    define ys where "ys = fold (\<lambda>j. exch i j) [Suc i..<m] xs"
    have p: "inner_post i m xs ys" using Suc False by (simp add: ys_def)
    have im: "i < m" "m < length xs" "i < length xs" using Suc.prems False by auto
    have e: "fold (\<lambda>j. exch i j) [Suc i..<Suc m] xs = exch i m ys"
      using im by (simp add: ys_def)
    have ms: "mset (exch i m ys) = mset xs"
      using p im mset_swap' [of i ys m] by (simp add: exch_def inner_post_def)
    show ?thesis
    proof (cases "ys ! i < ys ! m")
      case True
      define zs where "zs = ys[i := ys ! m, m := ys ! i]"
      have ez: "exch i m ys = zs" using True by (simp add: exch_def zs_def)
      have len: "length ys = length xs" using p by (simp add: inner_post_def)
      have z: "zs ! k = (if k = m then ys ! i else if k = i then ys ! m else ys ! k)" if "k < length xs" for k
        using that im len by (simp add: zs_def nth_list_update)
      have "zs ! k \<le> zs ! i" if "i < k" "k < Suc m" for k
        using that p True im z [of k] z [of i] by (auto simp: inner_post_def less_Suc_eq)
      moreover have "\<exists>l. i \<le> l \<and> l < length xs \<and> zs ! k = xs ! l" if "i \<le> k" "k < length xs" for k
        using that p im z [of k] unfolding inner_post_def by (metis less_imp_le order_refl)
      ultimately show ?thesis
        unfolding e ez using p im z ms ez len by (auto simp: inner_post_def zs_def)
    next
      case False
      then have "exch i m ys = ys" by (simp add: exch_def)
      then show ?thesis
        unfolding e using p im False by (auto simp: inner_post_def less_Suc_eq)
    qed
  qed
qed simp

definition outer_post :: "nat \<Rightarrow> u64 list \<Rightarrow> u64 list \<Rightarrow> bool" where
  "outer_post n xs ys \<longleftrightarrow> length ys = length xs \<and> mset ys = mset xs
     \<and> (\<forall>i k. i < n \<longrightarrow> i < k \<longrightarrow> k < length xs \<longrightarrow> ys ! k \<le> ys ! i)"

lemma outer_loop:
  assumes "n \<le> length xs - 1"
  shows "outer_post n xs (fold (\<lambda>i. fold (\<lambda>j. exch i j) [Suc i..<length xs]) [0..<n] xs)"
  using assms
proof (induction n)
  case (Suc n)
  define ys where "ys = fold (\<lambda>i. fold (\<lambda>j. exch i j) [Suc i..<length xs]) [0..<n] xs"
  have p: "outer_post n xs ys" using Suc by (simp add: ys_def)
  then have len: "length ys = length xs" by (simp add: outer_post_def)
  define zs where "zs = fold (\<lambda>j. exch n j) [Suc n..<length xs] ys"
  have q: "inner_post n (length xs) ys zs"
    using inner_loop [of n "length xs" ys] Suc.prems len by (simp add: zs_def)
  have "zs ! k \<le> zs ! i" if ik: "i < Suc n" "i < k" "k < length xs" for i k
  proof (cases "i = n")
    case True
    then show ?thesis using q ik len by (simp add: inner_post_def)
  next
    case False
    then have i: "i < n" "zs ! i = ys ! i" using q ik by (auto simp: inner_post_def)
    show ?thesis
    proof (cases "k < n")
      case True
      then show ?thesis using p q i ik by (simp add: inner_post_def outer_post_def)
    next
      case False
      then obtain l where "n \<le> l" "l < length xs" "zs ! k = ys ! l"
        using q ik(3) len unfolding inner_post_def by (metis linorder_not_le)
      then show ?thesis using p i by (simp add: outer_post_def)
    qed
  qed
  then have "outer_post (Suc n) xs zs" using p q len by (simp add: outer_post_def inner_post_def)
  moreover have "fold (\<lambda>i. fold (\<lambda>j. exch i j) [Suc i..<length xs]) [0..<Suc n] xs = zs"
    by (simp add: zs_def ys_def)
  ultimately show ?case by simp
qed (simp add: outer_post_def)

lemma sort_descending_sorted:
  "mset (sort_descending xs) = mset xs" "sorted_wrt (\<ge>) (sort_descending xs)"
proof -
  have p: "outer_post (length xs - 1) xs (sort_descending xs)"
    unfolding sort_descending_def by (rule outer_loop) simp
  then show "mset (sort_descending xs) = mset xs" by (simp add: outer_post_def)
  show "sorted_wrt (\<ge>) (sort_descending xs)"
    using p by (auto simp: outer_post_def sorted_wrt_iff_nth_less)
qed

section \<open>Finding the parameters of a round\<close>

lemma find_descending:
  assumes "sorted_wrt (\<ge>) idx" and "find (\<lambda>i. i \<le> rnd) idx = Some k"
  shows "k \<in> set idx \<and> k \<le> rnd \<and> (\<forall>j\<in>set idx. j \<le> rnd \<longrightarrow> j \<le> (k :: u64))"
  using assms
proof (induction idx)
  case (Cons a idx)
  then show ?case by (auto split: if_splits)
qed simp

section \<open>The networks' tables\<close>

definition v2config :: "int \<Rightarrow> u64 \<Rightarrow> rat \<Rightarrow> int \<Rightarrow> int \<Rightarrow> int \<Rightarrow> rat \<Rightarrow> u8 \<Rightarrow> V2Config" where
  "v2config maxMasternodes switchRound certThreshold timeoutSyncThreshold timeoutPeriod minePeriod base maxExponent =
    \<lparr>MaxMasternodes = maxMasternodes, SwitchRound = switchRound, MinePeriod = minePeriod,
     TimeoutSyncThreshold = timeoutSyncThreshold, TimeoutPeriod = timeoutPeriod,
     CertThreshold = certThreshold, ExpBase = base, ExpMaxExponent = maxExponent\<rparr>"

definition cert_045 :: rat where
  "cert_045 = fround (45 / 100)"

definition MainnetV2Configs :: "(u64 \<times> V2Config) list" where
  "MainnetV2Configs =
    [(0, v2config 108 0 cert_0667 3 30 2 1 0),
     (2000, v2config 108 2000 cert_0667 2 600 2 1 0),
     (8000, v2config 108 8000 cert_0667 2 60 2 1 0),
     (220000, v2config 108 220000 cert_0667 2 30 2 1 0),
     (460000, v2config 108 460000 cert_0667 2 20 2 1 0),
     (3200000, v2config 108 3200000 cert_0667 3 10 2 0 0)]"

definition TestnetV2Configs :: "(u64 \<times> V2Config) list" where
  "TestnetV2Configs =
    [(0, v2config 15 0 cert_045 3 60 2 1 0),
     (900000, v2config 108 900000 cert_0667 3 60 2 1 0),
     (15000000, v2config 108 15000000 cert_0667 3 10 2 0 0)]"

definition DevnetV2Configs :: "(u64 \<times> V2Config) list" where
  "DevnetV2Configs = [(0, v2config 108 0 cert_0667 3 5 2 2 5)]"

lemma mainnet_threshold: "(k, c) \<in> set MainnetV2Configs \<Longrightarrow> CertThreshold c = cert_0667"
  by (auto simp: MainnetV2Configs_def v2config_def)

lemma cert_045_upper: "cert_045 \<le> 45001 / 100000"
  using fround_le [of "45 / 100"] by (simp add: cert_045_def)

lemma cert_045_nonneg: "0 \<le> cert_045"
  using fround_ge [of "45 / 100"] by (simp add: cert_045_def)

lemma not_below_upper:
  assumes "of_nat m * c * (1 + 1 / 2 ^ 53) \<le> of_nat n" and "n < 2 ^ 53" and "m < 2 ^ 53" and "0 \<le> c"
  shows "\<not> below_threshold n m c"
proof -
  have "fround (of_nat m * c) \<le> of_nat m * c * (1 + 1 / 2 ^ 53)" using assms(4) by (intro fround_le) simp
  then have "fround (of_nat m * c) \<le> of_nat n" using assms(1) by (rule order_trans)
  then show ?thesis using assms(2,3) by (simp add: below_threshold_def fmul_def float_of_nat_exact not_less)
qed

lemma V2_Config_found:
  assumes "0 \<in> fst ` set (AllConfigs v)"
  shows "\<exists>k c. V2_Config (BuildConfigIndex v) rnd = Some c \<and> map_of (AllConfigs v) k = Some c
     \<and> k \<le> rnd \<and> (\<forall>j\<in>fst ` set (AllConfigs v). j \<le> rnd \<longrightarrow> j \<le> k)"
proof -
  define idx where "idx = sort_descending (map fst (AllConfigs v))"
  have s: "set idx = fst ` set (AllConfigs v)"
    using sort_descending_sorted(1) [of "map fst (AllConfigs v)"] unfolding idx_def by (metis set_map set_mset_mset)
  have "0 \<in> set idx" "(0::u64) \<le> rnd" using assms s by simp_all
  then have "find (\<lambda>i. i \<le> rnd) idx \<noteq> None" by (auto simp: find_None_iff)
  then obtain k where k: "find (\<lambda>i. i \<le> rnd) idx = Some k" by blast
  have kk: "k \<in> set idx \<and> k \<le> rnd \<and> (\<forall>j\<in>set idx. j \<le> rnd \<longrightarrow> j \<le> k)"
    using find_descending [OF _ k] sort_descending_sorted(2) unfolding idx_def by blast
  then obtain c where c: "map_of (AllConfigs v) k = Some c"
    unfolding s by (metis map_of_eq_None_iff option.exhaust)
  have "V2_Config (BuildConfigIndex v) rnd = Some c"
    using k c by (simp add: V2_Config_def BuildConfigIndex_def config_index_def idx_def)
  then show ?thesis using c kk unfolding s by blast
qed

text \<open>
  C15: with an index built by \<open>BuildConfigIndex\<close> over a table that has an entry for round 0, every
  round has parameters, namely those of the largest switch round not above it.
\<close>

theorem V2_Config_latest:
  assumes "0 \<in> fst ` set (AllConfigs v)"
  shows "\<exists>k c. V2_Config (BuildConfigIndex v) rnd = Some c \<and> map_of (AllConfigs v) k = Some c
     \<and> k \<le> rnd \<and> (\<forall>j\<in>fst ` set (AllConfigs v). j \<le> rnd \<longrightarrow> j \<le> k)"
  using V2_Config_found [OF assms] .

theorem V2_Config_latest_witness:
  "\<exists>k c. V2_Config (BuildConfigIndex \<lparr>SwitchEpoch = 0, SwitchBlock = 900,
        CurrentConfig = v2config 108 0 cert_0667 3 30 2 1 0, AllConfigs = MainnetV2Configs,
        configIndex = [], SkipV2Validation = False\<rparr>) 2500 = Some c
     \<and> map_of MainnetV2Configs k = Some c \<and> k \<le> 2500
     \<and> (\<forall>j\<in>fst ` set MainnetV2Configs. j \<le> 2500 \<longrightarrow> j \<le> k)"
  using V2_Config_latest [of "\<lparr>SwitchEpoch = 0, SwitchBlock = 900,
        CurrentConfig = v2config 108 0 cert_0667 3 30 2 1 0, AllConfigs = MainnetV2Configs,
        configIndex = [], SkipV2Validation = False\<rparr>" 2500]
  by (simp add: MainnetV2Configs_def)




end
