(* ===== verification/Countdown.thy ===== *)
theory Countdown
  imports Float64
begin

text \<open>
  The round timer of \<^verbatim>\<open>src/common/countdown\<close>: the exponential duration helper and the timer that
  the engine resets on every new round. Durations are signed 64-bit nanoseconds.
\<close>

section \<open>The duration helper\<close>

record ExpTimeoutDuration =
  et_duration :: int
  et_base :: rat
  et_maxExponent :: u8

definition int64_wrap :: "int \<Rightarrow> int" where
  "int64_wrap x = sint (word_of_int x :: u64)"

definition maxExponentUpperbound :: u8 where
  "maxExponentUpperbound = 32"

text \<open>\<open>None\<close> is the nil error.\<close>

definition sanityCheck :: "ExpTimeoutDuration \<Rightarrow> error option" where
  "sanityCheck d =
    (if maxExponentUpperbound \<le> et_maxExponent d
     then Some (Errorf ''max_exponent >= max_exponent_upperbound'')
     else if 4294967295 \<le> Pow (et_base d) (unat (et_maxExponent d))
     then Some (Errorf ''base^max_exponent should be less than 2^32'')
     else None)"

definition NewExpTimeoutDuration :: "int \<Rightarrow> rat \<Rightarrow> u8 \<Rightarrow> ExpTimeoutDuration \<times> error option" where
  "NewExpTimeoutDuration duration base maxExponent =
    (let d = \<lparr>et_duration = duration, et_base = base, et_maxExponent = maxExponent\<rparr>
     in (d, sanityCheck d))"

definition timeout_exponent :: "u8 \<Rightarrow> u64 \<Rightarrow> u64 \<Rightarrow> u8" where
  "timeout_exponent maxExponent currentRound highestRound =
    (let e = ucast (currentRound - highestRound) - 1
     in if maxExponent < e then maxExponent else e)"

definition GetTimeoutDuration :: "ExpTimeoutDuration \<Rightarrow> u64 \<Rightarrow> u64 \<Rightarrow> int" where
  "GetTimeoutDuration d currentRound highestRound =
    (let power = (if highestRound < currentRound
                  then Pow (et_base d) (unat (timeout_exponent (et_maxExponent d) currentRound highestRound))
                  else 1)
     in int64_wrap (et_duration d * \<lfloor>power\<rfloor>))"

definition SetParams :: "int \<Rightarrow> rat \<Rightarrow> u8 \<Rightarrow> ExpTimeoutDuration \<Rightarrow> ExpTimeoutDuration \<times> error option" where
  "SetParams duration base maxExponent d =
    (let d' = d\<lparr>et_duration := duration, et_base := base, et_maxExponent := maxExponent\<rparr>
     in case sanityCheck d' of
          Some err \<Rightarrow> (d'\<lparr>et_duration := et_duration d, et_base := et_base d,
                        et_maxExponent := et_maxExponent d\<rparr>, Some err)
        | None \<Rightarrow> (d', None))"

section \<open>The timer\<close>

text \<open>
  \<open>ct_armed\<close> is the duration the running timer was last armed with, \<open>None\<close> while no timer runs;
  \<open>ct_fired\<close> counts the calls of the timeout callback.
\<close>

record CountdownTimer =
  ct_initilised :: bool
  ct_helper :: ExpTimeoutDuration
  ct_currentRound :: u64
  ct_highestRound :: u64
  ct_armed :: "int option"
  ct_fired :: nat

definition NewExpCountDown :: "int \<Rightarrow> rat \<Rightarrow> u8 \<Rightarrow> error + CountdownTimer" where
  "NewExpCountDown duration base max_exponent =
    (case NewExpTimeoutDuration duration base max_exponent of
       (d, Some err) \<Rightarrow> Inl err
     | (d, None) \<Rightarrow> Inr \<lparr>ct_initilised = False, ct_helper = d, ct_currentRound = 0, ct_highestRound = 0,
                       ct_armed = None, ct_fired = 0\<rparr>)"

definition startTimer :: "u64 \<Rightarrow> u64 \<Rightarrow> CountdownTimer \<Rightarrow> CountdownTimer" where
  "startTimer currentRound highestRound t =
    t\<lparr>ct_currentRound := currentRound, ct_highestRound := highestRound,
      ct_armed := Some (GetTimeoutDuration (ct_helper t) currentRound highestRound)\<rparr>"

text \<open>The three cases of the timer's select loop.\<close>

definition timer_reset :: "u64 \<Rightarrow> u64 \<Rightarrow> CountdownTimer \<Rightarrow> CountdownTimer" where
  "timer_reset currentRound highestRound t =
    t\<lparr>ct_currentRound := currentRound, ct_highestRound := highestRound,
      ct_armed := Some (GetTimeoutDuration (ct_helper t) currentRound highestRound)\<rparr>"

definition timer_fire :: "CountdownTimer \<Rightarrow> CountdownTimer" where
  "timer_fire t =
    t\<lparr>ct_fired := Suc (ct_fired t),
      ct_armed := Some (GetTimeoutDuration (ct_helper t) (ct_currentRound t) (ct_highestRound t))\<rparr>"

definition StopTimer :: "CountdownTimer \<Rightarrow> CountdownTimer" where
  "StopTimer t = t\<lparr>ct_armed := None, ct_initilised := False\<rparr>"

definition timer_Reset :: "u64 \<Rightarrow> u64 \<Rightarrow> CountdownTimer \<Rightarrow> CountdownTimer" where
  "timer_Reset currentRound highestRound t =
    (if \<not> ct_initilised t
     then startTimer currentRound highestRound (t\<lparr>ct_initilised := True\<rparr>)
     else timer_reset currentRound highestRound t)"

definition timer_SetParams :: "int \<Rightarrow> rat \<Rightarrow> u8 \<Rightarrow> CountdownTimer \<Rightarrow> CountdownTimer \<times> error option" where
  "timer_SetParams duration base maxExponent t =
    (case SetParams duration base maxExponent (ct_helper t) of
       (d, err) \<Rightarrow> (t\<lparr>ct_helper := d\<rparr>, err))"

section \<open>Properties\<close>

lemma int64_wrap_id: "- (2 ^ 63) \<le> x \<Longrightarrow> x < 2 ^ 63 \<Longrightarrow> int64_wrap x = x"
  unfolding int64_wrap_def sint_sbintrunc' by (rule signed_take_bit_int_eq_self) simp_all

lemma timeout_exponent_le: "timeout_exponent m c h \<le> m"
  by (simp add: timeout_exponent_def Let_def not_less)

lemma timeout_exponent_gap:
  assumes "0 < g" and "g \<le> 256"
  shows "unat (timeout_exponent m (h + of_nat g) h) = min (g - 1) (unat m)"
proof -
  have "(ucast (of_nat g :: u64) :: u8) - 1 = of_nat (g - 1)"
    using assms by (simp add: of_nat_diff unsigned_of_nat take_bit_nat_eq_self)
  moreover have "unat (of_nat (g - 1) :: u8) = g - 1"
  proof -
    have "g - 1 < 2 ^ LENGTH(8)" using assms by simp
    then show ?thesis by (simp only: unat_of_nat mod_less)
  qed
  ultimately show ?thesis
    by (simp add: timeout_exponent_def Let_def word_less_nat_alt min_def)
qed

text \<open>
  C19: changing the parameters is all or nothing: with an error the helper is unchanged, without
  one it holds the new parameters, and the bounds of the sanity check hold of it either way.
\<close>

theorem SetParams_atomic:
  assumes "sanityCheck d = None" and "SetParams du b m d = (d', err)"
  shows "sanityCheck d' = None \<and>
    (if err = None then d' = \<lparr>et_duration = du, et_base = b, et_maxExponent = m\<rparr> else d' = d)"
  using assms by (auto simp: SetParams_def Let_def split: option.splits)

theorem SetParams_atomic_witness:
  "sanityCheck \<lparr>et_duration = 5000000000, et_base = 1, et_maxExponent = 0\<rparr> = None"
  using SetParams_atomic [of "\<lparr>et_duration = 5000000000, et_base = 1, et_maxExponent = 0\<rparr>" 7 1 40
      "\<lparr>et_duration = 5000000000, et_base = 1, et_maxExponent = 0\<rparr>"]
  by (simp add: sanityCheck_def maxExponentUpperbound_def SetParams_def)


text \<open>
  C21: the exponent is computed in eight bits, so the back-off is periodic: 256 further rounds
  without a certificate bring the same duration again, and round 257 waits as short as round 1.
\<close>

theorem timeout_duration_wraps:
  assumes "h < c" and "h < c + 256"
  shows "GetTimeoutDuration d (c + 256) h = GetTimeoutDuration d c h"
proof -
  have "(ucast (c + 256 - h) :: u8) = ucast (c - h)"
  proof -
    have "c + 256 - h = (c - h) + 256" by simp
    then have "unat (c + 256 - h) = (unat (c - h) + 256) mod 2 ^ 64"
      by (simp only: unat_word_ariths(1)) simp
    moreover have "(unat (c - h) + 256) mod 2 ^ 64 mod 256 = (unat (c - h) + 256) mod 256"
      by (rule mod_mod_cancel) simp
    ultimately have "unat (c + 256 - h) mod 256 = unat (c - h) mod 256" by simp
    then have "(of_nat (unat (c + 256 - h)) :: u8) = of_nat (unat (c - h))"
      by (simp only: word_of_nat_eq_iff take_bit_eq_mod) simp
    then show ?thesis by simp
  qed
  then show ?thesis using assms by (simp add: GetTimeoutDuration_def timeout_exponent_def)
qed

theorem timeout_duration_wraps_witness:
  "GetTimeoutDuration \<lparr>et_duration = 5, et_base = 2, et_maxExponent = 5\<rparr> (1 + 256) 0 = 5"
proof -
  have "(0::u64) < 1" "(0::u64) < 1 + 256" by simp_all
  from timeout_duration_wraps [OF this, of "\<lparr>et_duration = 5, et_base = 2, et_maxExponent = 5\<rparr>"]
  show ?thesis by (simp add: GetTimeoutDuration_def timeout_exponent_def int64_wrap_id)
qed


end
