(* ===== verification/Pool.thy ===== *)
theory Pool
  imports ConsensusTypes Lru
begin

text \<open>
  The message pool of \<^verbatim>\<open>src/consensus/BRDPoS/utils/pool.go\<close>: objects grouped under their pool key, and
  under their hash inside a group. A Go map is an association list with distinct keys; the order
  in which Go iterates over a map is the order of the list. \<^verbatim>\<open>PoolObj\<close> is an interface: its
  methods \<open>PoolKey\<close> and \<open>Hash\<close> are arguments of the operations, and the locale
  \<open>message_pool\<close> states what the engine relies on, interpreted for votes and timeouts.
\<close>

section \<open>State and operations\<close>

type_synonym 'o pool = "(string \<times> (hash \<times> 'o) list) list"

definition NewPool :: "'o pool" where
  "NewPool = []"

definition pool_Add ::
  "('o \<Rightarrow> string) \<Rightarrow> ('o \<Rightarrow> hash) \<Rightarrow> 'o \<Rightarrow> 'o pool \<Rightarrow> 'o pool \<times> nat \<times> (hash \<times> 'o) list" where
  "pool_Add PoolKey Hash obj p =
    (let poolKey = PoolKey obj;
         objListKeyed = (case map_of p poolKey of None \<Rightarrow> [] | Some m \<Rightarrow> m);
         objListKeyed' = AList.update (Hash obj) obj objListKeyed
     in (AList.update poolKey objListKeyed' p, length objListKeyed', objListKeyed'))"

definition pool_Size :: "('o \<Rightarrow> string) \<Rightarrow> 'o pool \<Rightarrow> 'o \<Rightarrow> nat" where
  "pool_Size PoolKey p obj = (case map_of p (PoolKey obj) of None \<Rightarrow> 0 | Some m \<Rightarrow> length m)"

definition PoolObjKeysList :: "'o pool \<Rightarrow> string list" where
  "PoolObjKeysList p = map fst p"

definition ClearPoolKeyByObj :: "('o \<Rightarrow> string) \<Rightarrow> 'o \<Rightarrow> 'o pool \<Rightarrow> 'o pool" where
  "ClearPoolKeyByObj PoolKey obj p = AList.delete (PoolKey obj) p"

definition ClearByPoolKey :: "string \<Rightarrow> 'o pool \<Rightarrow> 'o pool" where
  "ClearByPoolKey poolKey p = AList.delete poolKey p"

definition pool_Clear :: "'o pool \<Rightarrow> 'o pool" where
  "pool_Clear p = []"

definition GetObjsByKey :: "'o pool \<Rightarrow> string \<Rightarrow> 'o list" where
  "GetObjsByKey p poolKey = (case map_of p poolKey of None \<Rightarrow> [] | Some m \<Rightarrow> map snd m)"

text \<open>
  The loop shared by \<^verbatim>\<open>hygieneVotePool\<close> and \<^verbatim>\<open>hygieneTimeoutPool\<close>: over the keys of the pool,
  those whose round is more than \<^verbatim>\<open>PoolHygieneRound = 10\<close> rounds old are cleared; a key without
  a readable round is skipped.
\<close>

definition hygiene_step :: "int \<Rightarrow> string \<Rightarrow> 'o pool \<Rightarrow> 'o pool" where
  "hygiene_step rnd k p =
    (case ParseInt (split_first k) of
       None \<Rightarrow> p
     | Some keyedRound \<Rightarrow> if keyedRound < rnd - 10 then ClearByPoolKey k p else p)"

definition hygienePool :: "u64 \<Rightarrow> 'o pool \<Rightarrow> 'o pool" where
  "hygienePool currentRound p = fold (hygiene_step (sint currentRound)) (PoolObjKeysList p) p"

section \<open>Invariant\<close>

definition pool_inv :: "('o \<Rightarrow> string) \<Rightarrow> ('o \<Rightarrow> hash) \<Rightarrow> 'o pool \<Rightarrow> bool" where
  "pool_inv PoolKey Hash p \<longleftrightarrow> distinct (map fst p)
     \<and> (\<forall>(k, m) \<in> set p. distinct (map fst m) \<and> (\<forall>(h, obj) \<in> set m. Hash obj = h \<and> PoolKey obj = k))"

definition pool_lookup :: "'o pool \<Rightarrow> string \<Rightarrow> hash \<Rightarrow> 'o option" where
  "pool_lookup p k h = (case map_of p k of None \<Rightarrow> None | Some m \<Rightarrow> map_of m h)"

lemma set_AList_update: "distinct (map fst p) \<Longrightarrow> set (AList.update k v p) = insert (k, v) {x \<in> set p. fst x \<noteq> k}"
  by (induction p) (auto simp: image_iff)

lemma pool_inv_New [simp]: "pool_inv PK H NewPool"
  by (simp add: pool_inv_def NewPool_def)

lemma pool_inv_group:
  assumes "pool_inv PK H p" and "map_of p k = Some m"
  shows "distinct (map fst m)" and "(h, obj) \<in> set m \<Longrightarrow> H obj = h \<and> PK obj = k"
  using assms map_of_SomeD [OF assms(2)] by (auto simp: pool_inv_def)

lemma pool_inv_Add:
  assumes "pool_inv PK H p"
  shows "pool_inv PK H (fst (pool_Add PK H obj p))"
proof -
  let ?m = "case map_of p (PK obj) of None \<Rightarrow> [] | Some m \<Rightarrow> m"
  have m: "distinct (map fst ?m)" "\<forall>(h, ob) \<in> set ?m. H ob = h \<and> PK ob = PK obj"
    using pool_inv_group [OF assms, of "PK obj"] by (cases "map_of p (PK obj)"; force)+
  let ?m' = "AList.update (H obj) obj ?m"
  have g: "distinct (map fst ?m')" "\<forall>(h, ob) \<in> set ?m'. H ob = h \<and> PK ob = PK obj"
    using m by (simp add: distinct_update, simp add: set_AList_update, blast)
  have d: "distinct (map fst p)" and e: "\<forall>(k, m) \<in> set p. distinct (map fst m) \<and> (\<forall>(h, obj) \<in> set m. H obj = h \<and> PK obj = k)"
    using assms by (simp_all add: pool_inv_def)
  have "pool_inv PK H (AList.update (PK obj) ?m' p)"
    unfolding pool_inv_def set_AList_update [OF d] using g e d by (simp add: distinct_update)
  then show ?thesis by (simp add: pool_Add_def Let_def)
qed

lemma pool_inv_delete: "pool_inv PK H p \<Longrightarrow> pool_inv PK H (AList.delete k p)"
  by (auto simp: pool_inv_def AList.delete_eq distinct_map_filter)

lemma pool_inv_ops:
  assumes "pool_inv PK H p"
  shows "pool_inv PK H (ClearByPoolKey k p)" and "pool_inv PK H (ClearPoolKeyByObj PK obj p)"
    and "pool_inv PK H (pool_Clear p)"
  unfolding ClearByPoolKey_def ClearPoolKeyByObj_def pool_Clear_def
  by (rule pool_inv_delete [OF assms])+ (simp add: pool_inv_def)

section \<open>The pool's contract\<close>

text \<open>
  What the engine relies on: an added object is found under its key and hash, everything else
  stays, and clearing removes whole groups. Every stored object then sits under its own key and
  hash, and the number \<^verbatim>\<open>Add\<close> returns counts the different hashes seen under the key.
\<close>

locale message_pool =
  fixes empty :: 'p
    and lookup :: "'p \<Rightarrow> string \<Rightarrow> hash \<Rightarrow> 'o option"
    and add :: "'o \<Rightarrow> 'p \<Rightarrow> 'p"
    and clear_key :: "string \<Rightarrow> 'p \<Rightarrow> 'p"
    and PoolKey :: "'o \<Rightarrow> string"
    and Hash :: "'o \<Rightarrow> hash"
  assumes lookup_empty: "lookup empty k h = None"
    and lookup_add: "lookup (add obj p) k h =
      (if k = PoolKey obj \<and> h = Hash obj then Some obj else lookup p k h)"
    and lookup_clear: "lookup (clear_key k' p) k h = (if k = k' then None else lookup p k h)"
begin

lemma filed_under_own_key:
  assumes "\<And>k h obj. lookup p k h = Some obj \<Longrightarrow> PoolKey obj = k \<and> Hash obj = h"
  shows "lookup (fold add objs p) k h = Some obj \<Longrightarrow> PoolKey obj = k \<and> Hash obj = h"
  using assms
proof (induction objs arbitrary: p)
  case (Cons x xs)
  have "PoolKey ob = k' \<and> Hash ob = h'" if "lookup (add x p) k' h' = Some ob" for k' h' ob
    using that Cons(3) by (auto simp: lookup_add split: if_splits)
  from Cons(1) [OF _ this] Cons(2) show ?case by simp
qed auto

lemma added_origin:
  "lookup (fold add objs p) k h = Some obj \<Longrightarrow> (obj \<in> set objs \<and> PoolKey obj = k) \<or> lookup p k h = Some obj"
proof (induction objs arbitrary: p)
  case (Cons x xs)
  from Cons(1) [of "add x p"] Cons(2)
  have "(obj \<in> set xs \<and> PoolKey obj = k) \<or> lookup (add x p) k h = Some obj" by simp
  then show ?case by (auto simp: lookup_add split: if_splits)
qed simp

lemma added_group: "lookup (fold add objs empty) k h = Some obj \<Longrightarrow> obj \<in> set objs \<and> PoolKey obj = k"
  using added_origin [of objs empty k h obj] by (simp add: lookup_empty)

lemma found_stays: "lookup p k h \<noteq> None \<Longrightarrow> lookup (fold add objs p) k h \<noteq> None"
proof (induction objs arbitrary: p)
  case (Cons x xs)
  have "lookup (add x p) k h \<noteq> None" using Cons(2) by (simp add: lookup_add)
  from Cons(1) [OF this] show ?case by simp
qed simp

lemma every_hash_found: "obj \<in> set objs \<Longrightarrow> lookup (fold add objs p) (PoolKey obj) (Hash obj) \<noteq> None"
proof (induction objs arbitrary: p)
  case (Cons x xs)
  have "lookup (add x p) (PoolKey x) (Hash x) \<noteq> None" by (simp add: lookup_add)
  from found_stays [OF this] Cons show ?case by auto
qed simp

end

lemma map_of_update_eq: "map_of (AList.update k v m) k' = (if k' = k then Some v else map_of m k')"
  by (simp add: update_conv)

lemma pool_lookup_Add:
  "pool_lookup (fst (pool_Add PK H obj p)) k h =
    (if k = PK obj \<and> h = H obj then Some obj else pool_lookup p k h)"
  by (auto simp: pool_Add_def pool_lookup_def Let_def map_of_update_eq split: option.splits)

lemma pool_lookup_Clear: "pool_lookup (ClearByPoolKey k' p) k h = (if k = k' then None else pool_lookup p k h)"
  by (simp add: pool_lookup_def ClearByPoolKey_def map_of_delete delete_conv)

lemma pool_lookup_New: "pool_lookup NewPool k h = None"
  by (simp add: NewPool_def pool_lookup_def)

interpretation vp: message_pool NewPool pool_lookup "\<lambda>v p. fst (pool_Add Vote_PoolKey (Vote_Hash K) v p)"
  ClearByPoolKey Vote_PoolKey "Vote_Hash K" for K
  by unfold_locales (simp_all add: pool_lookup_Add pool_lookup_Clear pool_lookup_New)

interpretation tp: message_pool NewPool pool_lookup "\<lambda>t p. fst (pool_Add Timeout_PoolKey (Timeout_Hash K) t p)"
  ClearByPoolKey Timeout_PoolKey "Timeout_Hash K" for K
  by unfold_locales (simp_all add: pool_lookup_Add pool_lookup_Clear pool_lookup_New)

section \<open>Properties\<close>

lemma pool_group_count:
  assumes "pool_inv PK H p"
  shows "fst (snd (pool_Add PK H obj p)) = card {h. pool_lookup (fst (pool_Add PK H obj p)) (PK obj) h \<noteq> None}"
proof -
  let ?p = "fst (pool_Add PK H obj p)" and ?m = "snd (snd (pool_Add PK H obj p))"
  have m: "map_of ?p (PK obj) = Some ?m" by (simp add: pool_Add_def Let_def map_of_update_eq)
  have "{h. pool_lookup ?p (PK obj) h \<noteq> None} = set (map fst ?m)"
    unfolding pool_lookup_def m by (auto simp: map_of_eq_None_iff)
  moreover have "distinct (map fst ?m)" using pool_inv_group [OF pool_inv_Add [OF assms] m] by simp
  moreover have "fst (snd (pool_Add PK H obj p)) = length ?m" by (simp add: pool_Add_def Let_def)
  ultimately show ?thesis using distinct_card [of "map fst ?m"] by simp
qed

definition stale :: "int \<Rightarrow> string \<Rightarrow> bool" where
  "stale rnd k \<longleftrightarrow> (case ParseInt (split_first k) of None \<Rightarrow> False | Some r \<Rightarrow> r < rnd - 10)"

lemma hygiene_step_filter: "hygiene_step rnd k p = filter (\<lambda>(k', m). \<not> (k' = k \<and> stale rnd k)) p"
  by (auto simp: hygiene_step_def stale_def ClearByPoolKey_def AList.delete_eq case_prod_beta split: option.splits
      intro: filter_cong)

lemma hygienePool_filter: "hygienePool r p = filter (\<lambda>(k, m). \<not> stale (sint r) k) p"
proof -
  have "fold (hygiene_step (sint r)) ks q = filter (\<lambda>(k, m). \<not> (k \<in> set ks \<and> stale (sint r) k)) q" for ks and q :: "'a pool"
    by (induction ks arbitrary: q) (auto simp: hygiene_step_filter intro: filter_cong)
  then have "hygienePool r p = filter (\<lambda>(k, m). \<not> (k \<in> fst ` set p \<and> stale (sint r) k)) p"
    by (simp add: hygienePool_def PoolObjKeysList_def)
  also have "\<dots> = filter (\<lambda>(k, m). \<not> stale (sint r) k) p" by (rule filter_cong) force+
  finally show ?thesis .
qed

lemma map_of_filter_key: "map_of (filter (\<lambda>(k, m). P k) xs) k = (if P k then map_of xs k else None)"
  by (induction xs) auto

lemma hygiene_lookup: "pool_lookup (hygienePool r p) k h = (if stale (sint r) k then None else pool_lookup p k h)"
  by (simp add: hygienePool_filter pool_lookup_def map_of_filter_key [of "\<lambda>k. \<not> stale (sint r) k"])

lemma stale_vote: "stale rnd (Vote_PoolKey v) \<longleftrightarrow>
    unat (bi_Round (vote_ProposedBlockInfo v)) < 2 ^ 63 \<and> int (unat (bi_Round (vote_ProposedBlockInfo v))) < rnd - 10"
  by (simp add: stale_def PoolKey_round)

lemma pool_lookup_filed: "pool_inv PK H p \<Longrightarrow> pool_lookup p k h = Some obj \<Longrightarrow> PK obj = k \<and> H obj = h"
  unfolding pool_lookup_def using pool_inv_group(2) [of PK H p k _ h obj]
  by (auto split: option.splits dest: map_of_SomeD)

text \<open>
  C27: adding a vote to the pool keeps the pool's invariant, files the vote under its key and hash
  and leaves every other entry as it is; the number returned, which is compared with the
  certificate threshold, is the number of different message hashes under the vote's key.
\<close>

theorem vote_pool_Add:
  assumes "pool_inv Vote_PoolKey (Vote_Hash K) p"
    and "pool_Add Vote_PoolKey (Vote_Hash K) v p = (p', n, objs)"
  shows "pool_inv Vote_PoolKey (Vote_Hash K) p'
    \<and> pool_lookup p' k h =
        (if k = Vote_PoolKey v \<and> h = Vote_Hash K v then Some v else pool_lookup p k h)
    \<and> n = card {h. pool_lookup p' (Vote_PoolKey v) h \<noteq> None}"
  using pool_inv_Add [OF assms(1), of v] pool_group_count [OF assms(1), of v] vp.lookup_add [of K v p k h] assms(2)
  by simp

theorem vote_pool_Add_witness:
  "\<exists>p' n objs. pool_Add Vote_PoolKey (Vote_Hash (\<lambda>_. 0)) \<lparr>vote_signer = 1, vote_ProposedBlockInfo =
      \<lparr>bi_Hash = 5, bi_Round = 6, bi_Number = 900\<rparr>, vote_Signature = [1], vote_GapNumber = 450\<rparr> NewPool = (p', n, objs)
    \<and> n = card {h. pool_lookup p' (Vote_PoolKey \<lparr>vote_signer = 1, vote_ProposedBlockInfo =
      \<lparr>bi_Hash = 5, bi_Round = 6, bi_Number = 900\<rparr>, vote_Signature = [1], vote_GapNumber = 450\<rparr>) h \<noteq> None}"
proof -
  let ?v = "\<lparr>vote_signer = 1, vote_ProposedBlockInfo = \<lparr>bi_Hash = 5, bi_Round = 6, bi_Number = 900\<rparr>,
      vote_Signature = [1], vote_GapNumber = 450\<rparr>"
  obtain p' n g where e: "pool_Add Vote_PoolKey (Vote_Hash (\<lambda>_. 0)) ?v NewPool = (p', n, g)" by (rule prod_cases3)
  show ?thesis using vote_pool_Add [OF pool_inv_New e] e by blast
qed



end
