(* ===== verification/Engine.thy ===== *)
theory Engine
  imports Pool V2Config Countdown
begin

text \<open>
  The state of the version-2 consensus engine (\<^verbatim>\<open>src/consensus/BRDPoS/engines/engine_v2\<close>) and the
  operations that only read the chain and fill the caches: decoding of headers, signatures,
  snapshots and the epoch a header belongs to.

  A method of \<^verbatim>\<open>*BRDPoS_v2\<close> is a state-and-error computation over the record \<open>BRDPoS_v2\<close>. The locks
  make each handler atomic, so a handler is one computation. Channels are logs of what was sent:
  \<open>broadcasts\<close> for \<^verbatim>\<open>BroadcastCh\<close>, \<open>minePeriods\<close> for the sends the goroutines put on
  \<^verbatim>\<open>minePeriodCh\<close>, and \<open>newRoundCh\<close> for the channel of capacity one. Dereferencing a nil
  pointer, slicing out of range and the like are the error \<open>Panic\<close>. The code divides by
  \<^verbatim>\<open>config.Epoch\<close>, which the adaptor's constructor never leaves 0.
\<close>

section \<open>State\<close>

record SnapshotV2 =
  snap_Number :: u64
  snap_Hash :: hash
  NextEpochCandidates :: "address list"

record Block =
  block_header :: Header
  block_uncles :: "Header list"

text \<open>
  The interface \<^verbatim>\<open>consensus.ChainReader\<close>; a missing header or block is the nil pointer. Of the chain's
  configuration the engine uses the block of the fee rule, which is also set per network in the
  package \<^verbatim>\<open>common\<close>.
\<close>

record ChainReader =
  CurrentHeader :: Header
  GetHeader :: "hash \<Rightarrow> u64 \<Rightarrow> Header option"
  GetHeaderByNumber :: "u64 \<Rightarrow> Header option"
  GetHeaderByHash :: "hash \<Rightarrow> Header option"
  GetBlock :: "hash \<Rightarrow> u64 \<Rightarrow> Block option"
  cc_Eip1559Block :: "int option"
  common_Eip1559Block :: "int option"

text \<open>
  What the engine takes from outside the repository: Keccak-256 and the public key recovery of
  the secp256k1 library, the clock in seconds, and whether a write of the database fails.
\<close>

record env =
  keccak :: "byte list \<Rightarrow> hash"
  Ecrecover :: "hash \<Rightarrow> signature \<Rightarrow> byte list option"
  now :: int
  dbPut :: "SnapshotV2 \<Rightarrow> error option"

datatype message = MVote Vote | MTimeout Timeout | MSyncInfo SyncInfo

record BRDPoS_v2 =
  config :: BRDPoSConfig
  db :: "hash \<Rightarrow> SnapshotV2 option"
  isInitilised :: bool
  whosTurn :: address
  snapshots :: "(hash, SnapshotV2) lru"
  signatures :: "(hash, address) lru"
  epochSwitches :: "(hash, EpochSwitchInfo) lru"
  verifiedHeaders :: "(hash, unit) lru"
  round2epochBlockInfo :: "(u64, BlockInfo) lru"
  signer :: address
  signFn :: "address \<Rightarrow> hash \<Rightarrow> error + signature"
  broadcasts :: "message list"
  minePeriods :: "int list"
  newRoundCh :: "u64 option"
  timeoutWorker :: CountdownTimer
  timeoutCount :: int
  timeoutPool :: "Timeout pool"
  votePool :: "Vote pool"
  currentRound :: u64
  highestSelfMinedRound :: u64
  highestVotedRound :: u64
  highestQuorumCert :: QuorumCert
  lockQuorumCert :: "QuorumCert option"
  highestTimeoutCert :: TimeoutCert
  highestCommitBlock :: "BlockInfo option"
  forensicsJobs :: "(Header list \<times> QuorumCert) list"
  votePoolCollectionTime :: "int option"

type_synonym 'a eng = "(BRDPoS_v2, error, 'a) comp"

section \<open>Caches\<close>

definition snapshots_Get :: "hash \<Rightarrow> SnapshotV2 option eng" where
  "snapshots_Get k = (\<lambda>x. case lru_Get k (snapshots x) of (c, v) \<Rightarrow> (x\<lparr>snapshots := c\<rparr>, Inr v))"

definition snapshots_Add :: "hash \<Rightarrow> SnapshotV2 \<Rightarrow> unit eng" where
  "snapshots_Add k v = modify (\<lambda>x. x\<lparr>snapshots := fst (lru_Add k v (snapshots x))\<rparr>)"

definition epochSwitches_Get :: "hash \<Rightarrow> EpochSwitchInfo option eng" where
  "epochSwitches_Get k = (\<lambda>x. case lru_Get k (epochSwitches x) of (c, v) \<Rightarrow> (x\<lparr>epochSwitches := c\<rparr>, Inr v))"

definition epochSwitches_Add :: "hash \<Rightarrow> EpochSwitchInfo \<Rightarrow> unit eng" where
  "epochSwitches_Add k v = modify (\<lambda>x. x\<lparr>epochSwitches := fst (lru_Add k v (epochSwitches x))\<rparr>)"

definition signatures_Get :: "hash \<Rightarrow> address option eng" where
  "signatures_Get k = (\<lambda>x. case lru_Get k (signatures x) of (c, v) \<Rightarrow> (x\<lparr>signatures := c\<rparr>, Inr v))"

definition signatures_Add :: "hash \<Rightarrow> address \<Rightarrow> unit eng" where
  "signatures_Add k v = modify (\<lambda>x. x\<lparr>signatures := fst (lru_Add k v (signatures x))\<rparr>)"

definition verifiedHeaders_Get :: "hash \<Rightarrow> unit option eng" where
  "verifiedHeaders_Get k = (\<lambda>x. case lru_Get k (verifiedHeaders x) of (c, v) \<Rightarrow> (x\<lparr>verifiedHeaders := c\<rparr>, Inr v))"

definition verifiedHeaders_Add :: "hash \<Rightarrow> unit eng" where
  "verifiedHeaders_Add k = modify (\<lambda>x. x\<lparr>verifiedHeaders := fst (lru_Add k () (verifiedHeaders x))\<rparr>)"

definition round2epoch_Get :: "u64 \<Rightarrow> BlockInfo option eng" where
  "round2epoch_Get k =
    (\<lambda>x. case lru_Get k (round2epochBlockInfo x) of (c, v) \<Rightarrow> (x\<lparr>round2epochBlockInfo := c\<rparr>, Inr v))"

definition round2epoch_Add :: "u64 \<Rightarrow> BlockInfo \<Rightarrow> unit eng" where
  "round2epoch_Add k v =
    modify (\<lambda>x. x\<lparr>round2epochBlockInfo := fst (lru_Add k v (round2epochBlockInfo x))\<rparr>)"

lemmas cache_defs = snapshots_Get_def snapshots_Add_def epochSwitches_Get_def epochSwitches_Add_def
  signatures_Get_def signatures_Add_def verifiedHeaders_Get_def verifiedHeaders_Add_def
  round2epoch_Get_def round2epoch_Add_def

section \<open>Headers\<close>

text \<open>
  \<^verbatim>\<open>(*Header).Hash\<close> on a pointer: the nil pointer is encoded as the empty list, the byte \<open>0xC0\<close>,
  and does not panic.
\<close>

definition Header_ptr_Hash :: "env \<Rightarrow> Header option \<Rightarrow> hash" where
  "Header_ptr_Hash E h = (case h of None \<Rightarrow> keccak E [0xC0] | Some hdr \<Rightarrow> Header_Hash (keccak E) hdr)"

text \<open>
  \<^verbatim>\<open>make\<close> panics on a negative length: \<open>len - 97\<close> divided by 20 is rounded towards 0 in Go, so only
  an extra field of at most 77 bytes gives a negative number of masternodes.
\<close>

definition decodeMasternodesFromHeaderExtra :: "Header \<Rightarrow> error + address list" where
  "decodeMasternodesFromHeaderExtra h =
    (if length (Extra h) \<le> 77 then Inl Panic
     else Inr (addresses_at (drop 32 (Extra h)) ((length (Extra h) - 97) div 20)))"

definition GetMasternodesFromEpochSwitchHeader :: "Header option \<Rightarrow> address list" where
  "GetMasternodesFromEpochSwitchHeader epochSwitchHeader =
    (case epochSwitchHeader of
       None \<Rightarrow> []
     | Some h \<Rightarrow> addresses_at (Validators h) (length (Validators h) div 20))"

definition getExtraFields :: "BRDPoSConfig \<Rightarrow> Header \<Rightarrow> error + QuorumCert option \<times> u64 \<times> address list" where
  "getExtraFields cfg h =
    (if Number h = SwitchBlock (cfg_V2 cfg)
     then (case decodeMasternodesFromHeaderExtra h of
             Inl e \<Rightarrow> Inl e
           | Inr masternodes \<Rightarrow> Inr (None, 0, masternodes))
     else (case DecodeBytesExtraFields (Extra h) of
             Inl e \<Rightarrow> Inl e
           | Inr ex \<Rightarrow> Inr (ex_QuorumCert ex, ex_Round ex, GetMasternodesFromEpochSwitchHeader (Some h))))"

definition GetRoundNumber :: "BRDPoSConfig \<Rightarrow> Header \<Rightarrow> error + u64" where
  "GetRoundNumber cfg h =
    (if Number h \<le> SwitchBlock (cfg_V2 cfg) then Inr 0
     else (case DecodeBytesExtraFields (Extra h) of Inl e \<Rightarrow> Inl e | Inr ex \<Rightarrow> Inr (ex_Round ex)))"

section \<open>Signatures\<close>

text \<open>The last 20 bytes of the hash of the public key without its leading byte.\<close>

definition pubkey_address :: "env \<Rightarrow> byte list \<Rightarrow> address" where
  "pubkey_address E pubkey = ucast (keccak E (drop 1 pubkey))"

definition verifyMsgSignature :: "env \<Rightarrow> hash \<Rightarrow> signature \<Rightarrow> address list \<Rightarrow> error + bool \<times> address" where
  "verifyMsgSignature E signedHashToBeVerified sig masternodes =
    (if masternodes = [] then Inl (Errorf ''empty masternode list detected when verifying message signatures'')
     else (case Ecrecover E signedHashToBeVerified sig of
             None \<Rightarrow> Inl (Errorf ''error while verifying message'')
           | Some pubkey \<Rightarrow>
               if pubkey = [] then Inl Panic
               else let signerAddress = pubkey_address E pubkey
                    in Inr (signerAddress \<in> set masternodes, signerAddress)))"

definition signSignature :: "hash \<Rightarrow> signature eng" where
  "signSignature signingHash =
    (\<lambda>x. (x, case signFn x (signer x) signingHash of
               Inl e \<Rightarrow> Inl (if e = Panic then Panic else Errorf ''error while signing hash'')
             | Inr s \<Rightarrow> Inr s))"

definition ecrecover :: "env \<Rightarrow> Header \<Rightarrow> address eng" where
  "ecrecover E h =
    bindE (signatures_Get (Header_Hash (keccak E) h)) (\<lambda>r. case r of
      Some a \<Rightarrow> ok a
    | None \<Rightarrow>
        (case Ecrecover E (sigHash (keccak E) h) (Validator h) of
           None \<Rightarrow> fail (Errorf ''recovery failed'')
         | Some pubkey \<Rightarrow>
             if pubkey = [] then fail Panic
             else thenE (signatures_Add (Header_Hash (keccak E) h) (pubkey_address E pubkey))
                    (ok (pubkey_address E pubkey))))"

section \<open>Snapshots\<close>

text \<open>\<open>n - n % Epoch - Gap\<close>, or 0 when that would wrap: the code computes it in five places.\<close>

definition gap_number :: "BRDPoSConfig \<Rightarrow> u64 \<Rightarrow> u64" where
  "gap_number cfg n = (if n - n mod Epoch cfg < Gap cfg then 0 else n - n mod Epoch cfg - Gap cfg)"

definition newSnapshot :: "u64 \<Rightarrow> hash \<Rightarrow> address list \<Rightarrow> SnapshotV2" where
  "newSnapshot number h candidates = \<lparr>snap_Number = number, snap_Hash = h, NextEpochCandidates = candidates\<rparr>"

definition loadSnapshot :: "(hash \<Rightarrow> SnapshotV2 option) \<Rightarrow> hash \<Rightarrow> error + SnapshotV2" where
  "loadSnapshot d h = (case d h of None \<Rightarrow> Inl (Errorf ''not found'') | Some s \<Rightarrow> Inr s)"

definition storeSnapshot :: "env \<Rightarrow> SnapshotV2 \<Rightarrow> unit eng" where
  "storeSnapshot E s =
    (case dbPut E s of
       Some err \<Rightarrow> fail err
     | None \<Rightarrow> modify (\<lambda>x. x\<lparr>db := (db x)(snap_Hash s := Some s)\<rparr>))"

definition IsCandidates :: "SnapshotV2 \<Rightarrow> address \<Rightarrow> bool" where
  "IsCandidates s a \<longleftrightarrow> a \<in> set (NextEpochCandidates s)"

definition getSnapshot :: "env \<Rightarrow> ChainReader \<Rightarrow> u64 \<Rightarrow> bool \<Rightarrow> SnapshotV2 eng" where
  "getSnapshot E chain number isGapNumber =
    reads config (\<lambda>cfg.
      let gapBlockNum = (if isGapNumber then number else gap_number cfg number);
          gapBlockHash = Header_ptr_Hash E (GetHeaderByNumber chain gapBlockNum)
      in bindE (snapshots_Get gapBlockHash) (\<lambda>r. case r of
           Some snap \<Rightarrow> ok snap
         | None \<Rightarrow>
             reads db (\<lambda>d. case loadSnapshot d gapBlockHash of
               Inl err \<Rightarrow> fail err
             | Inr snap \<Rightarrow> thenE (snapshots_Add (snap_Hash snap) snap) (ok snap))))"

definition GetSnapshot :: "env \<Rightarrow> ChainReader \<Rightarrow> Header \<Rightarrow> SnapshotV2 eng" where
  "GetSnapshot E chain h = getSnapshot E chain (big_Uint64 (Number h)) False"

definition GetSignersFromSnapshot :: "env \<Rightarrow> ChainReader \<Rightarrow> Header \<Rightarrow> address list eng" where
  "GetSignersFromSnapshot E chain h =
    bindE (getSnapshot E chain (big_Uint64 (Number h)) False) (\<lambda>snap. ok (NextEpochCandidates snap))"

definition IsAuthorisedAddress :: "env \<Rightarrow> ChainReader \<Rightarrow> Header \<Rightarrow> address \<Rightarrow> bool eng" where
  "IsAuthorisedAddress E chain h a =
    handleE (GetSnapshot E chain h) (\<lambda>r. case r of
      Inl _ \<Rightarrow> ok False
    | Inr snap \<Rightarrow> ok (a \<in> set (NextEpochCandidates snap)))"

section \<open>What the lookups leave alone\<close>

text \<open>Two states that differ in the caches only; the lookups keep this relation.\<close>

definition strip_caches :: "BRDPoS_v2 \<Rightarrow> BRDPoS_v2" where
  "strip_caches x = x\<lparr>snapshots := NewBasicLRU 0, signatures := NewBasicLRU 0, epochSwitches := NewBasicLRU 0,
     verifiedHeaders := NewBasicLRU 0, round2epochBlockInfo := NewBasicLRU 0\<rparr>"

definition cache_only :: "BRDPoS_v2 \<Rightarrow> BRDPoS_v2 \<Rightarrow> bool" where
  "cache_only x y \<longleftrightarrow> strip_caches x = strip_caches y"

interpretation co: step_rel cache_only
  by unfold_locales (simp_all add: cache_only_def)

lemma cache_only_fields:
  assumes "cache_only x y"
  shows "config y = config x" "db y = db x" "isInitilised y = isInitilised x" "whosTurn y = whosTurn x"
    "signer y = signer x" "signFn y = signFn x" "broadcasts y = broadcasts x" "minePeriods y = minePeriods x"
    "newRoundCh y = newRoundCh x" "timeoutWorker y = timeoutWorker x" "timeoutCount y = timeoutCount x"
    "timeoutPool y = timeoutPool x" "votePool y = votePool x" "currentRound y = currentRound x"
    "highestSelfMinedRound y = highestSelfMinedRound x" "highestVotedRound y = highestVotedRound x"
    "highestQuorumCert y = highestQuorumCert x" "lockQuorumCert y = lockQuorumCert x"
    "highestTimeoutCert y = highestTimeoutCert x" "highestCommitBlock y = highestCommitBlock x"
    "forensicsJobs y = forensicsJobs x" "votePoolCollectionTime y = votePoolCollectionTime x"
  using assms unfolding cache_only_def strip_caches_def
  by (cases x; cases y; simp)+

lemma cache_ops_co:
  "keeps cache_only (snapshots_Get k)" "keeps cache_only (snapshots_Add k s)"
  "keeps cache_only (epochSwitches_Get k)" "keeps cache_only (epochSwitches_Add k i)"
  "keeps cache_only (signatures_Get k)" "keeps cache_only (signatures_Add k a)"
  "keeps cache_only (verifiedHeaders_Get k)" "keeps cache_only (verifiedHeaders_Add k)"
  "keeps cache_only (round2epoch_Get r)" "keeps cache_only (round2epoch_Add r b)"
  by (simp_all add: keeps_def cache_defs cache_only_def strip_caches_def modify_def case_prod_beta)

lemmas co_rules = co.keeps_rules cache_ops_co

lemma signSignature_co: "keeps cache_only (signSignature h)"
  by (simp add: keeps_def signSignature_def cache_only_def)

lemma ecrecover_co: "keeps cache_only (ecrecover E h)"
  unfolding ecrecover_def by (intro co_rules)

lemma getSnapshot_co: "keeps cache_only (getSnapshot E chain n g)"
  unfolding getSnapshot_def by (intro co_rules)

lemma GetSnapshot_co: "keeps cache_only (GetSnapshot E chain h)"
  unfolding GetSnapshot_def by (rule getSnapshot_co)

lemma GetSignersFromSnapshot_co: "keeps cache_only (GetSignersFromSnapshot E chain h)"
  unfolding GetSignersFromSnapshot_def by (intro co_rules getSnapshot_co)

lemma IsAuthorisedAddress_co: "keeps cache_only (IsAuthorisedAddress E chain h a)"
  unfolding IsAuthorisedAddress_def by (intro co_rules GetSnapshot_co)

end
