(* ===== verification/Engine_Epoch.thy ===== *)
theory Engine_Epoch
  imports Engine
begin

text \<open>
  The epoch a header belongs to (\<^verbatim>\<open>epochSwitch.go\<close>, and the epoch lookups of \<^verbatim>\<open>engine.go\<close>): whether a
  header starts an epoch, the masternodes of the epoch, and the recursive, cached search for the
  epoch switch block.
\<close>

section \<open>Operations\<close>

definition IsEpochSwitch :: "env \<Rightarrow> Header \<Rightarrow> (bool \<times> u64) eng" where
  "IsEpochSwitch E h =
    reads config (\<lambda>cfg.
      if Number h = SwitchBlock (cfg_V2 cfg) then ok (True, big_Uint64 (Number h) div Epoch cfg)
      else (case getExtraFields cfg h of
        Inl err \<Rightarrow> fail err
      | Inr (None, _, _) \<Rightarrow> fail Panic
      | Inr (Some quorumCert, rnd, _) \<Rightarrow>
          let parentRound = bi_Round (qc_ProposedBlockInfo quorumCert);
              epochStartRound = rnd - rnd mod Epoch cfg;
              epochNum = SwitchEpoch (cfg_V2 cfg) + rnd div Epoch cfg
          in if bi_Number (qc_ProposedBlockInfo quorumCert) = SwitchBlock (cfg_V2 cfg) then ok (True, epochNum)
             else thenE
               (if parentRound < epochStartRound
                then round2epoch_Add rnd
                       \<lparr>bi_Hash = Header_Hash (keccak E) h, bi_Round = rnd, bi_Number = Number h\<rparr>
                else ok ())
               (ok (parentRound < epochStartRound, epochNum))))"

definition isEpochSwitchAtRound :: "BRDPoSConfig \<Rightarrow> u64 \<Rightarrow> Header \<Rightarrow> error + bool \<times> u64" where
  "isEpochSwitchAtRound cfg rnd parentHeader =
    (let epochNum = SwitchEpoch (cfg_V2 cfg) + rnd div Epoch cfg
     in if Number parentHeader = SwitchBlock (cfg_V2 cfg) then Inr (True, epochNum)
        else (case getExtraFields cfg parentHeader of
                Inl err \<Rightarrow> Inl err
              | Inr (_, parentRound, _) \<Rightarrow>
                  if rnd \<le> parentRound then Inr (False, epochNum)
                  else Inr (parentRound < rnd - rnd mod Epoch cfg, epochNum)))"

text \<open>
  The branch of \<^verbatim>\<open>getEpochSwitchInfo\<close> for an epoch switch block: the genesis block keeps its
  masternodes in the extra field, every other one in its \<^verbatim>\<open>Validators\<close>, or in the extra field for
  the last version-1 block.
\<close>

definition epochSwitchInfo_at :: "env \<Rightarrow> ChainReader \<Rightarrow> Header \<Rightarrow> hash \<Rightarrow> EpochSwitchInfo eng" where
  "epochSwitchInfo_at E chain h hsh =
    (if big_Uint64 (Number h) = 0
     then if length (Extra h) < 97 then fail Panic
          else let masternodes = ExtractAddressFromBytes (take (length (Extra h) - 97) (drop 32 (Extra h)));
                   info = \<lparr>es_Penalties = [], es_Standbynodes = [], es_Masternodes = masternodes,
                           es_MasternodesLen = length masternodes,
                           es_EpochSwitchBlockInfo = \<lparr>bi_Hash = hsh, bi_Round = 0, bi_Number = Number h\<rparr>,
                           es_EpochSwitchParentBlockInfo = None\<rparr>
               in thenE (epochSwitches_Add hsh info) (ok info)
     else reads config (\<lambda>cfg. case getExtraFields cfg h of
       Inl err \<Rightarrow> fail err
     | Inr (quorumCert, rnd, masternodes) \<Rightarrow>
         bindE (getSnapshot E chain (big_Uint64 (Number h)) False) (\<lambda>snap.
           let penalties = ExtractAddressFromBytes (Penalties h);
               candidates = NextEpochCandidates snap;
               standbynodes = (if length masternodes \<noteq> length candidates
                               then RemoveItemFromArray (RemoveItemFromArray candidates masternodes) penalties
                               else []);
               info = \<lparr>es_Penalties = penalties, es_Standbynodes = standbynodes, es_Masternodes = masternodes,
                       es_MasternodesLen = length masternodes,
                       es_EpochSwitchBlockInfo = \<lparr>bi_Hash = hsh, bi_Round = rnd, bi_Number = Number h\<rparr>,
                       es_EpochSwitchParentBlockInfo = map_option qc_ProposedBlockInfo quorumCert\<rparr>
           in thenE (epochSwitches_Add hsh info) (ok info))))"

text \<open>
  The recursion over the parents is bounded by fuel; a header of number \<open>n\<close> has at most \<open>n\<close>
  ancestors, so \<open>n + 2\<close> calls reach the genesis block and miss its parent.
\<close>

fun getEpochSwitchInfo_n :: "nat \<Rightarrow> env \<Rightarrow> ChainReader \<Rightarrow> Header option \<Rightarrow> hash \<Rightarrow> EpochSwitchInfo eng" where
  "getEpochSwitchInfo_n 0 E chain header hsh = fail OutOfFuel"
| "getEpochSwitchInfo_n (Suc n) E chain header hsh =
    bindE (epochSwitches_Get hsh) (\<lambda>r. case r of
      Some info \<Rightarrow> ok info
    | None \<Rightarrow>
        (case (case header of None \<Rightarrow> GetHeaderByHash chain hsh | Some h \<Rightarrow> Some h) of
           None \<Rightarrow> fail (Errorf ''[getEpochSwitchInfo] can not find header from db hash'')
         | Some h \<Rightarrow>
             bindE (IsEpochSwitch E h) (\<lambda>(isEpochSwitch, epochNum).
               if isEpochSwitch then epochSwitchInfo_at E chain h hsh
               else bindE (getEpochSwitchInfo_n n E chain None (ParentHash h)) (\<lambda>info.
                      thenE (epochSwitches_Add hsh info) (ok info)))))"

definition epoch_fuel :: "ChainReader \<Rightarrow> Header option \<Rightarrow> hash \<Rightarrow> nat" where
  "epoch_fuel chain header hsh =
    (case (case header of None \<Rightarrow> GetHeaderByHash chain hsh | Some h \<Rightarrow> Some h) of
       None \<Rightarrow> 1
     | Some h \<Rightarrow> nat (Number h) + 2)"

definition getEpochSwitchInfo :: "env \<Rightarrow> ChainReader \<Rightarrow> Header option \<Rightarrow> hash \<Rightarrow> EpochSwitchInfo eng" where
  "getEpochSwitchInfo E chain header hsh =
    getEpochSwitchInfo_n (epoch_fuel chain header hsh) E chain header hsh"

fun previous_loop :: "nat \<Rightarrow> env \<Rightarrow> ChainReader \<Rightarrow> EpochSwitchInfo \<Rightarrow> EpochSwitchInfo eng" where
  "previous_loop 0 E chain info = ok info"
| "previous_loop (Suc limit) E chain info =
    (case es_EpochSwitchParentBlockInfo info of
       None \<Rightarrow> fail Panic
     | Some b \<Rightarrow> bindE (getEpochSwitchInfo E chain None (bi_Hash b)) (previous_loop limit E chain))"

definition getPreviousEpochSwitchInfoByHash :: "env \<Rightarrow> ChainReader \<Rightarrow> hash \<Rightarrow> int \<Rightarrow> EpochSwitchInfo eng" where
  "getPreviousEpochSwitchInfoByHash E chain hsh limit =
    bindE (getEpochSwitchInfo E chain None hsh) (previous_loop (nat limit) E chain)"

text \<open>
  A header that is not found is nil: the search by the hash of the nil pointer fails and the error
  message dereferences the pointer.
\<close>

definition GetCurrentEpochSwitchBlock :: "env \<Rightarrow> ChainReader \<Rightarrow> int \<Rightarrow> (u64 \<times> u64) eng" where
  "GetCurrentEpochSwitchBlock E chain blockNum =
    (let header = GetHeaderByNumber chain (big_Uint64 blockNum)
     in handleE (getEpochSwitchInfo E chain header (Header_ptr_Hash E header)) (\<lambda>r. case r of
          Inl err \<Rightarrow> (if header = None then fail Panic else fail err)
        | Inr info \<Rightarrow>
            reads config (\<lambda>cfg.
              ok (big_Uint64 (bi_Number (es_EpochSwitchBlockInfo info)),
                  SwitchEpoch (cfg_V2 cfg) + bi_Round (es_EpochSwitchBlockInfo info) div Epoch cfg))))"

text \<open>The getters that turn an error into the empty list.\<close>

definition epoch_list :: "(EpochSwitchInfo \<Rightarrow> address list) \<Rightarrow> EpochSwitchInfo eng \<Rightarrow> address list eng" where
  "epoch_list field m = handleE m (\<lambda>r. case r of Inl _ \<Rightarrow> ok [] | Inr info \<Rightarrow> ok (field info))"

definition GetMasternodes :: "env \<Rightarrow> ChainReader \<Rightarrow> Header \<Rightarrow> address list eng" where
  "GetMasternodes E chain h =
    epoch_list es_Masternodes (getEpochSwitchInfo E chain (Some h) (Header_Hash (keccak E) h))"

definition GetPenalties :: "env \<Rightarrow> ChainReader \<Rightarrow> Header \<Rightarrow> address list eng" where
  "GetPenalties E chain h =
    epoch_list es_Penalties (getEpochSwitchInfo E chain (Some h) (Header_Hash (keccak E) h))"

definition GetStandbynodes :: "env \<Rightarrow> ChainReader \<Rightarrow> Header \<Rightarrow> address list eng" where
  "GetStandbynodes E chain h =
    epoch_list es_Standbynodes (getEpochSwitchInfo E chain (Some h) (Header_Hash (keccak E) h))"

definition GetMasternodesByHash :: "env \<Rightarrow> ChainReader \<Rightarrow> hash \<Rightarrow> address list eng" where
  "GetMasternodesByHash E chain hsh = epoch_list es_Masternodes (getEpochSwitchInfo E chain None hsh)"

definition GetPreviousPenaltyByHash :: "env \<Rightarrow> ChainReader \<Rightarrow> hash \<Rightarrow> int \<Rightarrow> address list eng" where
  "GetPreviousPenaltyByHash E chain hsh limit =
    handleE (getPreviousEpochSwitchInfoByHash E chain hsh limit) (\<lambda>r. case r of
      Inl _ \<Rightarrow> ok []
    | Inr info \<Rightarrow>
        (case GetHeaderByHash chain (bi_Hash (es_EpochSwitchBlockInfo info)) of
           None \<Rightarrow> fail Panic
         | Some h \<Rightarrow> ok (ExtractAddressFromBytes (Penalties h))))"

definition allowedToSend :: "env \<Rightarrow> ChainReader \<Rightarrow> Header \<Rightarrow> bool eng" where
  "allowedToSend E chain blockHeader =
    bindE (GetMasternodes E chain blockHeader) (\<lambda>masterNodes. reads signer (\<lambda>me. ok (me \<in> set masterNodes)))"

section \<open>What the lookups leave alone\<close>

lemma IsEpochSwitch_co: "keeps cache_only (IsEpochSwitch E h)"
  unfolding IsEpochSwitch_def by (intro co_rules)

lemma epochSwitchInfo_at_co: "keeps cache_only (epochSwitchInfo_at E chain h hsh)"
  unfolding epochSwitchInfo_at_def by (intro co_rules getSnapshot_co)

lemma getEpochSwitchInfo_n_co: "keeps cache_only (getEpochSwitchInfo_n n E chain header hsh)"
proof (induction n arbitrary: header hsh)
  case 0
  then show ?case by (simp add: co.keeps_fail)
next
  case (Suc n)
  show ?case
    unfolding getEpochSwitchInfo_n.simps
    by (intro co_rules IsEpochSwitch_co epochSwitchInfo_at_co Suc)
qed

lemma getEpochSwitchInfo_co: "keeps cache_only (getEpochSwitchInfo E chain header hsh)"
  unfolding getEpochSwitchInfo_def by (rule getEpochSwitchInfo_n_co)

lemma epoch_list_co: "keeps cache_only m \<Longrightarrow> keeps cache_only (epoch_list f m)"
  unfolding epoch_list_def by (intro co_rules)

lemma GetMasternodes_co: "keeps cache_only (GetMasternodes E chain h)"
  unfolding GetMasternodes_def by (intro epoch_list_co getEpochSwitchInfo_co)

lemma GetMasternodesByHash_co: "keeps cache_only (GetMasternodesByHash E chain hsh)"
  unfolding GetMasternodesByHash_def by (intro epoch_list_co getEpochSwitchInfo_co)

lemma allowedToSend_co: "keeps cache_only (allowedToSend E chain h)"
  unfolding allowedToSend_def by (intro co_rules GetMasternodes_co)

lemma previous_loop_co: "keeps cache_only (previous_loop n E chain info)"
proof (induction n arbitrary: info)
  case 0
  then show ?case by (simp add: co.keeps_ok)
next
  case (Suc n)
  show ?case unfolding previous_loop.simps by (intro co_rules getEpochSwitchInfo_co Suc)
qed

lemma getPreviousEpochSwitchInfoByHash_co: "keeps cache_only (getPreviousEpochSwitchInfoByHash E chain hsh limit)"
  unfolding getPreviousEpochSwitchInfoByHash_def by (intro co_rules getEpochSwitchInfo_co previous_loop_co)

section \<open>The epoch of a header, without caches\<close>

text \<open>
  The reference: \<open>switch_result\<close> decides whether a header starts an epoch, \<open>switch_info\<close> is what the
  header of an epoch switch block and the snapshot of its gap block say, and \<open>epoch_of\<close> walks to
  the parents.
\<close>

definition switch_result :: "BRDPoSConfig \<Rightarrow> Header \<Rightarrow> error + bool \<times> u64" where
  "switch_result cfg h =
    (if Number h = SwitchBlock (cfg_V2 cfg) then Inr (True, big_Uint64 (Number h) div Epoch cfg)
     else (case getExtraFields cfg h of
       Inl err \<Rightarrow> Inl err
     | Inr (None, _, _) \<Rightarrow> Inl Panic
     | Inr (Some qc, rnd, _) \<Rightarrow>
         Inr (bi_Number (qc_ProposedBlockInfo qc) = SwitchBlock (cfg_V2 cfg)
                \<or> bi_Round (qc_ProposedBlockInfo qc) < rnd - rnd mod Epoch cfg,
              SwitchEpoch (cfg_V2 cfg) + rnd div Epoch cfg)))"

lemma IsEpochSwitch_result: "snd (IsEpochSwitch E h x) = switch_result (config x) h"
  by (auto simp: IsEpochSwitch_def switch_result_def comp_simps round2epoch_Add_def Let_def
      split: sum.splits option.splits prod.splits)

definition gap_snapshot ::
  "env \<Rightarrow> BRDPoSConfig \<Rightarrow> (hash \<Rightarrow> SnapshotV2 option) \<Rightarrow> ChainReader \<Rightarrow> u64 \<Rightarrow> error + SnapshotV2" where
  "gap_snapshot E cfg d chain n =
    loadSnapshot d (Header_ptr_Hash E (GetHeaderByNumber chain (gap_number cfg n)))"

definition switch_info ::
  "env \<Rightarrow> BRDPoSConfig \<Rightarrow> (hash \<Rightarrow> SnapshotV2 option) \<Rightarrow> ChainReader \<Rightarrow> Header \<Rightarrow> hash \<Rightarrow> error + EpochSwitchInfo"
where
  "switch_info E cfg d chain h hsh =
    (if big_Uint64 (Number h) = 0
     then if length (Extra h) < 97 then Inl Panic
          else let ms = ExtractAddressFromBytes (take (length (Extra h) - 97) (drop 32 (Extra h)))
               in Inr \<lparr>es_Penalties = [], es_Standbynodes = [], es_Masternodes = ms, es_MasternodesLen = length ms,
                       es_EpochSwitchBlockInfo = \<lparr>bi_Hash = hsh, bi_Round = 0, bi_Number = Number h\<rparr>,
                       es_EpochSwitchParentBlockInfo = None\<rparr>
     else (case getExtraFields cfg h of
       Inl err \<Rightarrow> Inl err
     | Inr (qc, rnd, ms) \<Rightarrow>
         (case gap_snapshot E cfg d chain (big_Uint64 (Number h)) of
            Inl err \<Rightarrow> Inl err
          | Inr snap \<Rightarrow>
              let ps = ExtractAddressFromBytes (Penalties h); cs = NextEpochCandidates snap
              in Inr \<lparr>es_Penalties = ps,
                      es_Standbynodes = (if length ms \<noteq> length cs
                        then RemoveItemFromArray (RemoveItemFromArray cs ms) ps else []),
                      es_Masternodes = ms, es_MasternodesLen = length ms,
                      es_EpochSwitchBlockInfo = \<lparr>bi_Hash = hsh, bi_Round = rnd, bi_Number = Number h\<rparr>,
                      es_EpochSwitchParentBlockInfo = map_option qc_ProposedBlockInfo qc\<rparr>)))"

inductive epoch_of ::
  "env \<Rightarrow> BRDPoSConfig \<Rightarrow> (hash \<Rightarrow> SnapshotV2 option) \<Rightarrow> ChainReader \<Rightarrow> Header \<Rightarrow> EpochSwitchInfo \<Rightarrow> bool"
  for E cfg d chain
where
  at_switch: "switch_result cfg h = Inr (True, n) \<Longrightarrow>
    switch_info E cfg d chain h (Header_Hash (keccak E) h) = Inr info \<Longrightarrow> epoch_of E cfg d chain h info"
| from_parent: "switch_result cfg h = Inr (False, n) \<Longrightarrow> Header_Hash (keccak E) p = ParentHash h \<Longrightarrow>
    epoch_of E cfg d chain p info \<Longrightarrow> epoch_of E cfg d chain h info"

section \<open>The caches agree with the reference\<close>

definition coherent :: "env \<Rightarrow> ChainReader \<Rightarrow> BRDPoS_v2 \<Rightarrow> bool" where
  "coherent E chain x \<longleftrightarrow>
     (\<forall>k s. lru_Peek (snapshots x) k = Some s \<longrightarrow> db x k = Some s)
   \<and> (\<forall>k s. db x k = Some s \<longrightarrow> snap_Hash s = k)
   \<and> (\<forall>k info. lru_Peek (epochSwitches x) k = Some info \<longrightarrow>
        (\<exists>h. Header_Hash (keccak E) h = k \<and> epoch_of E (config x) (db x) chain h info))"

lemma coherentD:
  assumes "coherent E chain x"
  shows "lru_Peek (snapshots x) k = Some s \<Longrightarrow> db x k = Some s" and "db x k = Some s \<Longrightarrow> snap_Hash s = k"
    and "lru_Peek (epochSwitches x) k = Some info \<Longrightarrow>
      \<exists>h. Header_Hash (keccak E) h = k \<and> epoch_of E (config x) (db x) chain h info"
  using assms by (auto simp: coherent_def)

lemma epochSwitches_Get_coherent:
  assumes "coherent E chain x" and "epochSwitches_Get k x = (y, r)"
  shows "coherent E chain y" and "r = Inr (lru_Peek (epochSwitches x) k)" and "cache_only x y"
proof -
  have y: "y = x\<lparr>epochSwitches := fst (lru_Get k (epochSwitches x))\<rparr>"
      and r: "r = Inr (snd (lru_Get k (epochSwitches x)))"
    using assms(2) by (auto simp: epochSwitches_Get_def split: prod.splits)
  show "r = Inr (lru_Peek (epochSwitches x) k)" using r lruc.get_value by simp
  show "coherent E chain y" using assms(1) y lruc.get_content by (simp add: coherent_def)
  show "cache_only x y" using cache_ops_co(3) assms(2) by (rule keepsE)
qed

lemma epochSwitches_Add_coherent:
  assumes "coherent E chain x" and "Header_Hash (keccak E) h = k" and "epoch_of E (config x) (db x) chain h info"
  shows "coherent E chain (x\<lparr>epochSwitches := fst (lru_Add k info (epochSwitches x))\<rparr>)"
  using assms lruc.entries_add
    [of "epochSwitches x" "\<lambda>k i. \<exists>h. Header_Hash (keccak E) h = k \<and> epoch_of E (config x) (db x) chain h i" k info]
  by (auto simp: coherent_def)

lemma snapshots_Add_coherent:
  assumes c: "coherent E chain x" and d: "db x k = Some s"
  shows "coherent E chain (x\<lparr>snapshots := fst (lru_Add k s (snapshots x))\<rparr>)"
proof -
  have "db x k' = Some s'" if "lru_Peek (fst (lru_Add k s (snapshots x))) k' = Some s'" for k' s'
    by (rule lruc.entries_add [of "snapshots x" "\<lambda>k s. db x k = Some s", OF _ d that]) (rule coherentD(1) [OF c])
  then show ?thesis using c by (simp add: coherent_def)
qed

lemma getSnapshot_coherent:
  assumes "coherent E chain x" and "getSnapshot E chain n False x = (y, r)"
  shows "coherent E chain y \<and> r = gap_snapshot E (config x) (db x) chain n"
proof -
  let ?k = "Header_ptr_Hash E (GetHeaderByNumber chain (gap_number (config x) n))"
  define x' where "x' = x\<lparr>snapshots := fst (lru_Get ?k (snapshots x))\<rparr>"
  have g: "snapshots_Get ?k x = (x', Inr (lru_Peek (snapshots x) ?k))"
    using lruc.get_value [of ?k "snapshots x"] by (auto simp: snapshots_Get_def x'_def split: prod.splits)
  have c: "coherent E chain x'" "db x' = db x" "config x' = config x"
    using assms(1) lruc.get_content [of ?k "snapshots x"] by (simp_all add: coherent_def x'_def)
  show ?thesis
  proof (cases "lru_Peek (snapshots x) ?k")
    case None
    show ?thesis
    proof (cases "db x ?k")
      case (Some s)
      have "snap_Hash s = ?k" using coherentD(2) [OF assms(1) Some] .
      then show ?thesis
        using assms(2) g c None Some snapshots_Add_coherent [OF c(1), of ?k s]
        by (auto simp: getSnapshot_def comp_simps Let_def gap_snapshot_def loadSnapshot_def snapshots_Add_def)
    qed (use assms(2) g c None in
        \<open>auto simp: getSnapshot_def comp_simps Let_def gap_snapshot_def loadSnapshot_def\<close>)
  next
    case (Some s)
    then have "db x ?k = Some s" by (rule coherentD(1) [OF assms(1)])
    then show ?thesis using assms(2) g c Some
      by (auto simp: getSnapshot_def comp_simps Let_def gap_snapshot_def loadSnapshot_def)
  qed
qed

lemma epochSwitchInfo_at_coherent:
  assumes "coherent E chain x" and "switch_result (config x) h = Inr (True, n)"
    and "epochSwitchInfo_at E chain h (Header_Hash (keccak E) h) x = (y, r)"
  shows "coherent E chain y \<and> r = switch_info E (config x) (db x) chain h (Header_Hash (keccak E) h)"
proof (cases "big_Uint64 (Number h) = 0")
  case True
  then show ?thesis
    using assms(3) epochSwitches_Add_coherent [OF assms(1) refl at_switch [OF assms(2)]] assms(1)
    by (auto simp: epochSwitchInfo_at_def switch_info_def comp_simps Let_def epochSwitches_Add_def split: if_splits)
next
  case False
  obtain x1 rs where g: "getSnapshot E chain (big_Uint64 (Number h)) False x = (x1, rs)" by (cases "getSnapshot E chain (big_Uint64 (Number h)) False x")
  have c: "coherent E chain x1" and rs: "rs = gap_snapshot E (config x) (db x) chain (big_Uint64 (Number h))"
    using getSnapshot_coherent [OF assms(1) g] by auto
  have f: "config x1 = config x" "db x1 = db x"
    using cache_only_fields(1,2) [OF keepsE [OF getSnapshot_co g]] by auto
  have sw: "epoch_of E (config x1) (db x1) chain h i" if "switch_info E (config x) (db x) chain h (Header_Hash (keccak E) h) = Inr i" for i
    unfolding f using at_switch [OF assms(2) that] .
  show ?thesis
  proof (cases "switch_info E (config x) (db x) chain h (Header_Hash (keccak E) h)")
    case (Inl e)
    then show ?thesis using assms(1,3) g c rs False
      by (auto simp: epochSwitchInfo_at_def switch_info_def comp_simps Let_def split: sum.splits prod.splits)
  next
    case (Inr i)
    show ?thesis
      using assms(3) g rs False epochSwitches_Add_coherent [OF c refl sw [OF Inr]] Inr
      by (auto simp: epochSwitchInfo_at_def switch_info_def comp_simps Let_def epochSwitches_Add_def
          split: sum.splits prod.splits)
  qed
qed

lemma IsEpochSwitch_coherent:
  assumes "coherent E chain x" and "IsEpochSwitch E h x = (y, r)"
  shows "coherent E chain y" and "r = switch_result (config x) h" and "config y = config x" and "db y = db x"
proof -
  show "r = switch_result (config x) h" using IsEpochSwitch_result [of E h x] assms(2) by simp
  have co: "cache_only x y" using IsEpochSwitch_co assms(2) by (rule keepsE)
  show f: "config y = config x" "db y = db x" using cache_only_fields(1,2) [OF co] .
  have "snapshots y = snapshots x" "epochSwitches y = epochSwitches x"
    using assms(2) by (auto simp: IsEpochSwitch_def comp_simps round2epoch_Add_def Let_def
        split: sum.splits option.splits prod.splits if_splits)
  then show "coherent E chain y" using assms(1) f by (simp add: coherent_def)
qed

section \<open>Fuel\<close>

lemma getExtraFields_err: "getExtraFields cfg h \<noteq> Inl OutOfFuel"
  by (auto simp: getExtraFields_def decodeMasternodesFromHeaderExtra_def DecodeBytesExtraFields_def
      split: sum.splits list.splits option.splits if_splits)

lemma cache_ops_fuelled:
  "fuelled (snapshots_Get k)" "fuelled (snapshots_Add k s)" "fuelled (epochSwitches_Get k)"
  "fuelled (epochSwitches_Add k i)" "fuelled (round2epoch_Get r)" "fuelled (round2epoch_Add r b)"
  by (simp_all add: fuelled_def cache_defs modify_def case_prod_beta)

lemma IsEpochSwitch_fuelled: "fuelled (IsEpochSwitch E h)"
  by (rule fuelledI) (auto simp: IsEpochSwitch_result switch_result_def getExtraFields_err
      split: sum.splits option.splits prod.splits dest: getExtraFields_err [THEN notE, rotated])

lemma getSnapshot_fuelled: "fuelled (getSnapshot E chain n g)"
  unfolding getSnapshot_def
  by (intro fuelled_rules cache_ops_fuelled fuelled_fail) (auto simp: loadSnapshot_def split: option.splits)

lemma epochSwitchInfo_at_fuelled: "fuelled (epochSwitchInfo_at E chain h hsh)"
  unfolding epochSwitchInfo_at_def
  by (intro fuelled_rules cache_ops_fuelled getSnapshot_fuelled fuelled_fail) (use getExtraFields_err in force)+

section \<open>The search\<close>

text \<open>
  What the engine relies on from the chain: a header found by its hash has that hash, and the
  number of its parent is one less.
\<close>

definition chain_ok :: "env \<Rightarrow> ChainReader \<Rightarrow> bool" where
  "chain_ok E chain \<longleftrightarrow>
    (\<forall>k h. GetHeaderByHash chain k = Some h \<longrightarrow> Header_Hash (keccak E) h = k \<and> 0 \<le> Number h
      \<and> (\<forall>p. GetHeaderByHash chain (ParentHash h) = Some p \<longrightarrow> Number h = Number p + 1))"

lemma chain_okD:
  assumes "chain_ok E chain" and "GetHeaderByHash chain k = Some h"
  shows "Header_Hash (keccak E) h = k" and "0 \<le> Number h"
    and "GetHeaderByHash chain (ParentHash h) = Some p \<Longrightarrow> Number h = Number p + 1"
  using assms by (auto simp: chain_ok_def)

text \<open>The value returned for a hash is the epoch of a header with that hash.\<close>

abbreviation answers ::
  "env \<Rightarrow> ChainReader \<Rightarrow> BRDPoS_v2 \<Rightarrow> hash \<Rightarrow> BRDPoS_v2 \<Rightarrow> error + EpochSwitchInfo \<Rightarrow> bool" where
  "answers E chain x hsh y r \<equiv> coherent E chain y \<and> (\<forall>info. r = Inr info \<longrightarrow>
    (\<exists>h. Header_Hash (keccak E) h = hsh \<and> epoch_of E (config x) (db x) chain h info))"

lemma parent_answers:
  assumes hh: "Header_Hash (keccak E) h = hsh" and no: "switch_result (config x) h = Inr (False, m)"
    and ih: "answers E chain x (ParentHash h) x3 r3"
    and f3: "config x3 = config x" "db x3 = db x"
    and run: "bindE (\<lambda>_. (x3, r3)) (\<lambda>info. thenE (epochSwitches_Add hsh info) (ok info)) x = (y, r)"
  shows "answers E chain x hsh y r"
proof (cases r3)
  case (Inl e)
  then show ?thesis using run ih by (auto simp: comp_simps)
next
  case (Inr info)
  then obtain p where p: "Header_Hash (keccak E) p = ParentHash h" "epoch_of E (config x) (db x) chain p info"
    using ih by blast
  have eo: "epoch_of E (config x3) (db x3) chain h info"
    unfolding f3 by (rule from_parent [OF no p])
  have yr: "y = x3\<lparr>epochSwitches := fst (lru_Add hsh info (epochSwitches x3))\<rparr>" "r = Inr info"
    using run Inr by (simp_all add: comp_simps epochSwitches_Add_def)
  show ?thesis
    unfolding yr using epochSwitches_Add_coherent [OF conjunct1 [OF ih] hh eo] eo hh f3 by auto
qed

lemma header_answers:
  assumes c: "coherent E chain x" and hh: "Header_Hash (keccak E) h = hsh"
    and ih: "\<And>x y r. coherent E chain x \<Longrightarrow> getEpochSwitchInfo_n n E chain None (ParentHash h) x = (y, r) \<Longrightarrow>
      answers E chain x (ParentHash h) y r"
    and run: "bindE (IsEpochSwitch E h) (\<lambda>(b, m). if b then epochSwitchInfo_at E chain h hsh
          else bindE (getEpochSwitchInfo_n n E chain None (ParentHash h)) (\<lambda>info.
                 thenE (epochSwitches_Add hsh info) (ok info))) x = (y, r)"
  shows "answers E chain x hsh y r"
proof -
  obtain x2 r2 where i: "IsEpochSwitch E h x = (x2, r2)" by (cases "IsEpochSwitch E h x")
  note c2 = IsEpochSwitch_coherent [OF c i]
  consider (err) e where "r2 = Inl e" | (sw) m where "r2 = Inr (True, m)" | (no) m where "r2 = Inr (False, m)"
    by (cases r2) auto
  then show ?thesis
  proof cases
    case err
    then show ?thesis using run i c2(1) by (auto simp: comp_simps)
  next
    case sw
    have s2: "switch_result (config x2) h = Inr (True, m)" using sw c2(2,3) by simp
    have "epochSwitchInfo_at E chain h (Header_Hash (keccak E) h) x2 = (y, r)" using run i sw hh by (simp add: comp_simps)
    from epochSwitchInfo_at_coherent [OF c2(1) s2 this] show ?thesis
      using s2 c2(3,4) hh at_switch [of "config x" h m E "db x" chain] by auto
  next
    case no
    obtain x3 r3 where rec: "getEpochSwitchInfo_n n E chain None (ParentHash h) x2 = (x3, r3)"
      by (cases "getEpochSwitchInfo_n n E chain None (ParentHash h) x2")
    have f3: "config x3 = config x" "db x3 = db x"
      using cache_only_fields(1,2) [OF keepsE [OF getEpochSwitchInfo_n_co rec]] c2(3,4) by auto
    have "answers E chain x (ParentHash h) x3 r3" using ih [OF c2(1) rec] c2(3,4) by simp
    moreover have "bindE (\<lambda>_. (x3, r3)) (\<lambda>info. thenE (epochSwitches_Add hsh info) (ok info)) x = (y, r)"
      using run i no rec by (simp add: comp_simps)
    ultimately show ?thesis by (intro parent_answers [OF hh _ _ f3]) (use no c2(2) in auto)
  qed
qed

lemma epoch_info_sound:
  assumes ok: "chain_ok E chain" and "coherent E chain x" and "\<And>h. header = Some h \<Longrightarrow> Header_Hash (keccak E) h = hsh"
    and "getEpochSwitchInfo_n n E chain header hsh x = (y, r)"
  shows "answers E chain x hsh y r"
  using assms(2-)
proof (induction n arbitrary: header hsh x y r)
  case 0
  then show ?case by (auto simp: comp_simps)
next
  case (Suc n)
  obtain x1 where g: "epochSwitches_Get hsh x = (x1, Inr (lru_Peek (epochSwitches x) hsh))" and c1: "coherent E chain x1"
      and co: "cache_only x x1"
    using epochSwitches_Get_coherent [OF Suc(2)] by (metis prod.exhaust)
  note f1 = cache_only_fields(1,2) [OF co]
  let ?hdr = "case header of None \<Rightarrow> GetHeaderByHash chain hsh | Some h \<Rightarrow> Some h"
  show ?case
  proof (cases "lru_Peek (epochSwitches x) hsh")
    case (Some info)
    then show ?thesis using Suc(4) g c1 coherentD(3) [OF Suc(2) Some] by (auto simp: comp_simps)
  next
    case miss: None
    show ?thesis
    proof (cases ?hdr)
      case None
      then show ?thesis using Suc(4) g c1 miss by (auto simp: comp_simps)
    next
      case (Some h)
      have hh: "Header_Hash (keccak E) h = hsh" using Some Suc(3) chain_okD(1) [OF ok] by (auto split: option.splits)
      have "answers E chain x1 hsh y r"
      proof (rule header_answers [OF c1 hh])
        show "answers E chain z (ParentHash h) z' q" if "coherent E chain z" "getEpochSwitchInfo_n n E chain None (ParentHash h) z = (z', q)"
          for z z' q by (rule Suc(1) [OF that(1) _ that(2)]) simp
        show "bindE (IsEpochSwitch E h) (\<lambda>(b, m). if b then epochSwitchInfo_at E chain h hsh
          else bindE (getEpochSwitchInfo_n n E chain None (ParentHash h)) (\<lambda>info.
                 thenE (epochSwitches_Add hsh info) (ok info))) x1 = (y, r)"
          using Suc(4) g miss Some unfolding getEpochSwitchInfo_n.simps bindE_def [of "epochSwitches_Get hsh"] by simp
      qed
      then show ?thesis using f1 by simp
    qed
  qed
qed

lemma epoch_info_fuelled:
  assumes ok: "chain_ok E chain" and "case header of None \<Rightarrow> True
      | Some h \<Rightarrow> 0 \<le> Number h \<and> (\<forall>p. GetHeaderByHash chain (ParentHash h) = Some p \<longrightarrow> Number h = Number p + 1)"
    and "epoch_fuel chain header hsh \<le> n"
  shows "fuelled (getEpochSwitchInfo_n n E chain header hsh)"
  using assms(2-)
proof (induction n arbitrary: header hsh)
  case 0
  then show ?case by (auto simp: epoch_fuel_def split: option.splits)
next
  case (Suc n)
  have rec: "fuelled (getEpochSwitchInfo_n n E chain None (ParentHash h))"
    if h: "(case header of None \<Rightarrow> GetHeaderByHash chain hsh | Some h \<Rightarrow> Some h) = Some h" for h
  proof (rule Suc(1))
    have "0 \<le> Number h" and l: "\<And>p. GetHeaderByHash chain (ParentHash h) = Some p \<Longrightarrow> Number h = Number p + 1"
      using h Suc(2) chain_okD(2,3) [OF ok] by (auto split: option.splits)
    moreover have "nat (Number h) + 2 \<le> Suc n" using Suc(3) h by (auto simp: epoch_fuel_def split: option.splits)
    ultimately show "epoch_fuel chain None (ParentHash h) \<le> n"
      using chain_okD(2) [OF ok] by (fastforce simp: epoch_fuel_def split: option.splits)
  qed simp
  show ?case
    unfolding getEpochSwitchInfo_n.simps
    by (intro fuelled_rules cache_ops_fuelled IsEpochSwitch_fuelled epochSwitchInfo_at_fuelled fuelled_fail rec) auto
qed

lemma getEpochSwitchInfo_fuelled:
  assumes "chain_ok E chain" and "\<And>h. header = Some h \<Longrightarrow>
    0 \<le> Number h \<and> (\<forall>p. GetHeaderByHash chain (ParentHash h) = Some p \<longrightarrow> Number h = Number p + 1)"
  shows "fuelled (getEpochSwitchInfo E chain header hsh)"
  unfolding getEpochSwitchInfo_def by (rule epoch_info_fuelled [OF assms(1)]) (use assms(2) in \<open>auto split: option.splits\<close>)

lemma getEpochSwitchInfo_sound:
  assumes "chain_ok E chain" and "coherent E chain x" and "\<And>h. header = Some h \<Longrightarrow> Header_Hash (keccak E) h = hsh"
    and "getEpochSwitchInfo E chain header hsh x = (y, r)"
  shows "answers E chain x hsh y r"
  using epoch_info_sound [OF assms(1-3)] assms(4) by (simp add: getEpochSwitchInfo_def)

lemma getEpochSwitchInfo_fields:
  assumes "getEpochSwitchInfo E chain header hsh x = (y, r)"
  shows "cache_only x y"
  using getEpochSwitchInfo_co assms by (rule keepsE)

end
