(* ===== verification/Engine_Samples.thy ===== *)
theory Engine_Samples
  imports Engine_Epoch
begin

text \<open>
  A small concrete engine and chain, at which the witnesses of the properties evaluate the
  model: the configuration of the main network's first rounds with the switch at block 900, and
  the blocks 900 to 904 with the rounds 0 to 4, each with the certificate of its parent.
\<close>

definition sample_env :: env where
  "sample_env = \<lparr>keccak = (\<lambda>_. 5), Ecrecover = (\<lambda>h sig. Some (4 # sig)), now = 1000, dbPut = (\<lambda>_. None)\<rparr>"

definition sample_V2Config :: V2Config where
  "sample_V2Config = v2config 108 0 cert_0667 3 30 2 1 0"

definition sample_config :: BRDPoSConfig where
  "sample_config =
    \<lparr>Period = 2, Epoch = 900, Reward = 5000, RewardCheckpoint = 900, Gap = 450, FoudationWalletAddr = 0,
     SkipV1Validation = False,
     cfg_V2 = \<lparr>SwitchEpoch = 1, SwitchBlock = 900, CurrentConfig = sample_V2Config,
       AllConfigs = [(0, sample_V2Config)], configIndex = [0], SkipV2Validation = False\<rparr>\<rparr>"

definition sample_qc :: "hash \<Rightarrow> u64 \<Rightarrow> int \<Rightarrow> QuorumCert" where
  "sample_qc k r n = \<lparr>qc_ProposedBlockInfo = \<lparr>bi_Hash = k, bi_Round = r, bi_Number = n\<rparr>,
     qc_Signatures = [[1]], qc_GapNumber = 450\<rparr>"

definition sample_extra :: "u64 \<Rightarrow> QuorumCert \<Rightarrow> byte list" where
  "sample_extra r q =
    (case ExtraFields_EncodeToBytes \<lparr>ex_Round = r, ex_QuorumCert = Some q\<rparr> of Inl _ \<Rightarrow> [] | Inr bs \<Rightarrow> bs)"

definition sample_block :: "int \<Rightarrow> hash \<Rightarrow> u64 \<Rightarrow> QuorumCert \<Rightarrow> Header" where
  "sample_block n parent r q = sample_header\<lparr>Number := n, ParentHash := parent, Extra := sample_extra r q\<rparr>"

definition sample_switch_block :: Header where
  "sample_switch_block = sample_header\<lparr>Number := 900, ParentHash := 99, Extra := replicate 51 0 @ [5] @ replicate 65 0\<rparr>"

definition sample_headers :: "(hash \<times> Header) list" where
  "sample_headers =
    [(100, sample_switch_block),
     (1, sample_block 901 100 1 (sample_qc 100 0 900)),
     (2, sample_block 902 1 2 (sample_qc 1 1 901)),
     (3, sample_block 903 2 3 (sample_qc 2 2 902)),
     (4, sample_block 904 3 4 (sample_qc 3 3 903))]"

definition sample_chain :: ChainReader where
  "sample_chain =
    \<lparr>CurrentHeader = sample_block 904 3 4 (sample_qc 3 3 903),
     GetHeader = (\<lambda>k n. map_of sample_headers k),
     GetHeaderByNumber = (\<lambda>n. if n = 450 then Some sample_header else None),
     GetHeaderByHash = (\<lambda>k. map_of sample_headers k),
     GetBlock = (\<lambda>k n. None), cc_Eip1559Block = None, common_Eip1559Block = None\<rparr>"

definition sample_timer :: CountdownTimer where
  "sample_timer =
    \<lparr>ct_initilised = False, ct_helper = \<lparr>et_duration = 30000000000, et_base = 1, et_maxExponent = 0\<rparr>,
     ct_currentRound = 0, ct_highestRound = 0, ct_armed = None, ct_fired = 0\<rparr>"

definition sample_engine :: BRDPoS_v2 where
  "sample_engine =
    \<lparr>config = sample_config, db = (\<lambda>k. if k = 5 then Some (newSnapshot 450 5 [5]) else None),
     isInitilised = True, whosTurn = 0,
     snapshots = NewBasicLRU 128, signatures = NewBasicLRU 128, epochSwitches = NewBasicLRU 4500,
     verifiedHeaders = NewBasicLRU 128, round2epochBlockInfo = NewBasicLRU 65536,
     signer = 5, signFn = (\<lambda>a h. Inr [1]), broadcasts = [], minePeriods = [], newRoundCh = None,
     timeoutWorker = sample_timer, timeoutCount = 0, timeoutPool = NewPool, votePool = NewPool,
     currentRound = 1, highestSelfMinedRound = 0, highestVotedRound = 0,
     highestQuorumCert = sample_qc 100 0 900, lockQuorumCert = None,
     highestTimeoutCert = \<lparr>tc_Round = 0, tc_Signatures = Some [], tc_GapNumber = 0\<rparr>,
     highestCommitBlock = None, forensicsJobs = [], votePoolCollectionTime = None\<rparr>"

lemma sample_qc_wf: "0 \<le> n \<Longrightarrow> n < 1000 \<Longrightarrow> wf_QuorumCert (sample_qc k r n)"
proof -
  assume n: "0 \<le> n" "n < 1000"
  have "(1000::int) \<le> 2 ^ 256" by simp
  then show ?thesis using n by (simp add: wf_QuorumCert_def wf_BlockInfo_def sample_qc_def)
qed

lemma sample_extra_decodes:
  assumes "0 \<le> n" and "n < 1000"
  shows "DecodeBytesExtraFields (sample_extra r (sample_qc k s n)) =
    Inr \<lparr>ex_Round = r, ex_QuorumCert = Some (sample_qc k s n)\<rparr>"
proof -
  obtain bs where "ExtraFields_EncodeToBytes \<lparr>ex_Round = r, ex_QuorumCert = Some (sample_qc k s n)\<rparr> = Inr bs"
      and "DecodeBytesExtraFields bs = Inr \<lparr>ex_Round = r, ex_QuorumCert = Some (sample_qc k s n)\<rparr>"
    using ExtraFields_roundtrip_aux [of "\<lparr>ex_Round = r, ex_QuorumCert = Some (sample_qc k s n)\<rparr>"]
      sample_qc_wf [OF assms] by auto
  then show ?thesis by (simp add: sample_extra_def)
qed

lemma sample_block_fields [simp]:
  "Number (sample_block n k r q) = n" "ParentHash (sample_block n k r q) = k"
  "Validators (sample_block n k r q) = []" "Penalties (sample_block n k r q) = []"
  "Extra (sample_block n k r q) = sample_extra r q"
  by (simp_all add: sample_block_def sample_header_def)

lemma sample_block_extra:
  assumes "n \<noteq> 900" and "0 \<le> m" and "m < 1000"
  shows "getExtraFields sample_config (sample_block n k r (sample_qc j s m)) = Inr (Some (sample_qc j s m), r, [])"
  using assms by (simp add: getExtraFields_def sample_extra_decodes sample_config_def
      GetMasternodesFromEpochSwitchHeader_def addresses_at_def)

lemma sample_lookup:
  "GetHeaderByHash sample_chain 100 = Some sample_switch_block"
  "GetHeaderByHash sample_chain 1 = Some (sample_block 901 100 1 (sample_qc 100 0 900))"
  "GetHeaderByHash sample_chain 2 = Some (sample_block 902 1 2 (sample_qc 1 1 901))"
  "GetHeaderByHash sample_chain 3 = Some (sample_block 903 2 3 (sample_qc 2 2 902))"
  "GetHeaderByHash sample_chain 4 = Some (sample_block 904 3 4 (sample_qc 3 3 903))"
  by (simp_all add: sample_chain_def sample_headers_def)

lemma sample_switch: "SwitchBlock (cfg_V2 sample_config) = 900" "config sample_engine = sample_config"
  by (simp_all add: sample_config_def sample_engine_def)

text \<open>
  A chain that holds the switch block alone, under the hash that the constant hash function of
  \<open>sample_env\<close> gives it. Its only masternode is the address 5.
\<close>

definition switch_chain :: ChainReader where
  "switch_chain = sample_chain\<lparr>GetHeaderByHash := (\<lambda>k. if k = 5 then Some sample_switch_block else None)\<rparr>"

lemma constant_hash [simp]: "Header_Hash (keccak sample_env) h = 5" "VoteSigHash (keccak sample_env) v = 5"
    "TimeoutSigHash (keccak sample_env) t = 5" "sigHash (keccak sample_env) h = 5" "keccak sample_env bs = 5"
  by (simp_all add: Header_Hash_def VoteSigHash_def TimeoutSigHash_def sigHash_def rlpHash_def sample_env_def
      split: sum.splits)

lemma switch_block_fields [simp]: "Number sample_switch_block = 900" "ParentHash sample_switch_block = 99"
    "Extra sample_switch_block = replicate 51 0 @ [5] @ replicate 65 0" "Penalties sample_switch_block = []"
  by (simp_all add: sample_switch_block_def sample_header_def)

lemma switch_chain_ok: "chain_ok sample_env switch_chain"
  by (auto simp: chain_ok_def switch_chain_def split: if_splits)

lemma NewBasicLRU_Peek [simp]: "lru_Peek (NewBasicLRU n) k = None"
  by (simp add: lru_Peek_def NewBasicLRU_def)

lemma sample_coherent: "coherent sample_env chain sample_engine"
  by (auto simp: coherent_def sample_engine_def newSnapshot_def split: if_splits)

lemma be_val_zeros: "be_val (replicate n 0 @ bs) = be_val bs"
  by (induction n) simp_all

lemma switch_masternodes: "getExtraFields sample_config sample_switch_block = Inr (None, 0, [5])"
proof -
  have "addresses_at (replicate 19 0 @ [5] @ replicate 65 0) 1 = [5]"
    by (simp add: addresses_at_def address_of_bytes_def copy_fixed_def be_val_zeros)
  then show ?thesis
    by (simp add: getExtraFields_def sample_switch decodeMasternodesFromHeaderExtra_def)
qed

text \<open>What the search returns for the switch block.\<close>

definition switch_block_info :: EpochSwitchInfo where
  "switch_block_info = \<lparr>es_Penalties = [], es_Standbynodes = [], es_Masternodes = [5], es_MasternodesLen = 1,
     es_EpochSwitchBlockInfo = \<lparr>bi_Hash = 5, bi_Round = 0, bi_Number = 900\<rparr>,
     es_EpochSwitchParentBlockInfo = None\<rparr>"

lemma sample_snapshot:
  "getSnapshot sample_env switch_chain 900 False sample_engine =
    (sample_engine\<lparr>snapshots := fst (lru_Add 5 (newSnapshot 450 5 [5]) (snapshots sample_engine))\<rparr>,
     Inr (newSnapshot 450 5 [5]))"
proof -
  have "Header_ptr_Hash sample_env (GetHeaderByNumber switch_chain (gap_number sample_config 900)) = 5"
    by (simp add: Header_ptr_Hash_def split: option.split)
  moreover have "snapshots_Get 5 sample_engine = (sample_engine, Inr None)"
    by (simp add: snapshots_Get_def lru_Get_def sample_engine_def NewBasicLRU_def)
  moreover have "db sample_engine 5 = Some (newSnapshot 450 5 [5])" "snap_Hash (newSnapshot 450 5 [5]) = 5"
    by (simp_all add: sample_engine_def newSnapshot_def)
  ultimately show ?thesis
    by (simp add: getSnapshot_def comp_simps sample_switch loadSnapshot_def snapshots_Add_def Let_def)
qed

lemma sample_epoch_info:
  assumes "header = None \<or> header = Some sample_switch_block"
  shows "\<exists>y. getEpochSwitchInfo sample_env switch_chain header 5 sample_engine = (y, Inr switch_block_info)
    \<and> coherent sample_env switch_chain y"
proof -
  have h: "(case header of None \<Rightarrow> GetHeaderByHash switch_chain 5 | Some h \<Rightarrow> Some h) = Some sample_switch_block"
    using assms by (auto simp: switch_chain_def)
  have g: "epochSwitches_Get 5 sample_engine = (sample_engine, Inr None)"
    by (simp add: epochSwitches_Get_def lru_Get_def sample_engine_def NewBasicLRU_def)
  have i: "IsEpochSwitch sample_env sample_switch_block sample_engine = (sample_engine, Inr (True, 1))"
    by (simp add: IsEpochSwitch_def comp_simps sample_switch big_Uint64_def) (simp add: sample_config_def)
  have "\<exists>y. epochSwitchInfo_at sample_env switch_chain sample_switch_block 5 sample_engine = (y, Inr switch_block_info)"
    using sample_snapshot switch_masternodes
    by (simp add: epochSwitchInfo_at_def comp_simps sample_switch big_Uint64_def Let_def epochSwitches_Add_def
        switch_block_info_def newSnapshot_def ExtractAddressFromBytes_def)
  then obtain y where y: "epochSwitchInfo_at sample_env switch_chain sample_switch_block 5 sample_engine = (y, Inr switch_block_info)"
    by blast
  have r: "getEpochSwitchInfo sample_env switch_chain header 5 sample_engine = (y, Inr switch_block_info)"
  proof -
    have "epoch_fuel switch_chain header 5 = Suc 901" by (simp add: epoch_fuel_def h)
    then show ?thesis using h g i y by (simp only: getEpochSwitchInfo_def getEpochSwitchInfo_n.simps) (simp add: comp_simps)
  qed
  have "answers sample_env switch_chain sample_engine 5 y (Inr switch_block_info)"
    by (rule getEpochSwitchInfo_sound [OF switch_chain_ok sample_coherent _ r]) simp
  then show ?thesis using r by blast
qed

text \<open>The block after the switch block alone, which starts an epoch as well.\<close>

definition next_block :: Header where
  "next_block = (sample_block 901 100 1 (sample_qc 100 0 900))\<lparr>Validators := replicate 19 0 @ [5]\<rparr>"

definition next_chain :: ChainReader where
  "next_chain = switch_chain\<lparr>GetHeaderByHash := (\<lambda>k. if k = 5 then Some next_block else None),
     GetHeader := (\<lambda>k n. if k = 5 then Some next_block else None), CurrentHeader := next_block\<rparr>"

definition next_block_info :: EpochSwitchInfo where
  "next_block_info = \<lparr>es_Penalties = [], es_Standbynodes = [], es_Masternodes = [5], es_MasternodesLen = 1,
     es_EpochSwitchBlockInfo = \<lparr>bi_Hash = 5, bi_Round = 1, bi_Number = 901\<rparr>,
     es_EpochSwitchParentBlockInfo = Some \<lparr>bi_Hash = 100, bi_Round = 0, bi_Number = 900\<rparr>\<rparr>"

lemma next_block_fields [simp]: "Number next_block = 901" "ParentHash next_block = 100" "Penalties next_block = []"
  by (simp_all add: next_block_def)

lemma next_chain_lookup [simp]: "GetHeaderByHash next_chain k = (if k = 5 then Some next_block else None)"
    "GetHeader next_chain k n = (if k = 5 then Some next_block else None)"
  by (simp_all add: next_chain_def)

lemma next_chain_ok: "chain_ok sample_env next_chain"
  by (auto simp: chain_ok_def split: if_splits)

lemma next_masternodes: "getExtraFields sample_config next_block = Inr (Some (sample_qc 100 0 900), 1, [5])"
proof -
  have "addresses_at (replicate 19 0 @ [5]) 1 = [5]"
    by (simp add: addresses_at_def address_of_bytes_def copy_fixed_def be_val_zeros)
  then show ?thesis
    by (simp add: getExtraFields_def sample_switch next_block_def sample_extra_decodes GetMasternodesFromEpochSwitchHeader_def)
qed

definition fresh :: "BRDPoS_v2 \<Rightarrow> bool" where
  "fresh x \<longleftrightarrow> config x = sample_config \<and> db x = db sample_engine \<and> lru_Peek (epochSwitches x) 5 = None
     \<and> (\<forall>s. lru_Peek (snapshots x) 5 = Some s \<longrightarrow> s = newSnapshot 450 5 [5])"

lemma fresh_engine: "fresh sample_engine"
  by (simp add: fresh_def sample_engine_def)

lemma fresh_snapshot:
  assumes "fresh x" and "(if g then n else gap_number sample_config n) = 450"
  shows "\<exists>y. getSnapshot sample_env next_chain n g x = (y, Inr (newSnapshot 450 5 [5])) \<and> fresh y"
proof -
  have h: "Header_ptr_Hash sample_env (GetHeaderByNumber next_chain 450) = 5"
    by (simp add: Header_ptr_Hash_def split: option.split)
  have d: "db x 5 = Some (newSnapshot 450 5 [5])" "snap_Hash (newSnapshot 450 5 [5]) = 5"
    using assms by (simp_all add: fresh_def sample_engine_def newSnapshot_def)
  have c: "config x = sample_config" using assms(1) by (simp add: fresh_def)
  let ?z = "x\<lparr>snapshots := fst (lru_Get 5 (snapshots x))\<rparr>"
  have z: "fresh ?z" using assms(1) lruc.get_content [of 5 "snapshots x"] by (simp add: fresh_def)
  have s: "snapshots_Get 5 x = (?z, Inr (lru_Peek (snapshots x) 5))"
    using lruc.get_value [of 5 "snapshots x"] by (simp add: snapshots_Get_def case_prod_beta)
  show ?thesis
  proof (cases "lru_Peek (snapshots x) 5")
    case None
    let ?y = "?z\<lparr>snapshots := fst (lru_Add 5 (newSnapshot 450 5 [5]) (snapshots ?z))\<rparr>"
    have "fresh ?y" using z lruc.add_self [of 5 "newSnapshot 450 5 [5]" "snapshots ?z"] by (auto simp: fresh_def)
    moreover have "getSnapshot sample_env next_chain n g x = (?y, Inr (newSnapshot 450 5 [5]))"
      using None s d h c assms(2)
      by (cases g) (simp_all add: getSnapshot_def comp_simps loadSnapshot_def snapshots_Add_def Let_def)
    ultimately show ?thesis by blast
  next
    case (Some v)
    then have "v = newSnapshot 450 5 [5]" using assms(1) by (simp add: fresh_def)
    then have "getSnapshot sample_env next_chain n g x = (?z, Inr (newSnapshot 450 5 [5]))"
      using Some s h c assms(2) by (cases g) (simp_all add: getSnapshot_def comp_simps Let_def)
    then show ?thesis using z by blast
  qed
qed

lemma next_epoch_info:
  assumes "fresh x" and "header = None \<or> header = Some next_block"
  shows "\<exists>y. getEpochSwitchInfo sample_env next_chain header 5 x = (y, Inr next_block_info)"
proof -
  let ?z = "x\<lparr>epochSwitches := fst (lru_Get 5 (epochSwitches x))\<rparr>"
  have g: "epochSwitches_Get 5 x = (?z, Inr None)"
    using assms(1) lruc.get_value [of 5 "epochSwitches x"] by (simp add: epochSwitches_Get_def case_prod_beta fresh_def)
  have z: "fresh ?z" using assms(1) lruc.get_content [of 5 "epochSwitches x"] by (simp add: fresh_def)
  have h: "(case header of None \<Rightarrow> GetHeaderByHash next_chain 5 | Some h \<Rightarrow> Some h) = Some next_block" using assms(2) by auto
  have q: "bi_Number (qc_ProposedBlockInfo (sample_qc 100 0 900)) = 900" by (simp add: sample_qc_def)
  have c: "config ?z = sample_config" using z by (simp add: fresh_def)
  have i: "IsEpochSwitch sample_env next_block ?z = (?z, Inr (True, 1))"
    using c by (simp add: IsEpochSwitch_def comp_simps sample_switch next_masternodes q) (simp add: sample_config_def)
  have gap: "gap_number sample_config 901 = 450" by (simp add: gap_number_def sample_config_def)
  obtain y where y: "getSnapshot sample_env next_chain 901 False ?z = (y, Inr (newSnapshot 450 5 [5]))"
    using fresh_snapshot [OF z, of False 901] gap by auto
  have "epochSwitchInfo_at sample_env next_chain next_block 5 ?z =
      (y\<lparr>epochSwitches := fst (lru_Add 5 next_block_info (epochSwitches y))\<rparr>, Inr next_block_info)"
    using y c by (simp add: comp_simps epochSwitchInfo_at_def next_masternodes big_Uint64_def Let_def epochSwitches_Add_def
        next_block_info_def newSnapshot_def ExtractAddressFromBytes_def sample_qc_def)
  moreover have f: "epoch_fuel next_chain header 5 = Suc 902" by (simp add: epoch_fuel_def h)
  ultimately show ?thesis
    using g i h by (simp only: getEpochSwitchInfo_def f getEpochSwitchInfo_n.simps) (simp add: comp_simps)
qed

lemma one_of_one: "\<not> below_threshold 1 1 (CertThreshold sample_V2Config)"
  using cert_0667_bounds by (intro not_below_upper) (auto simp: sample_V2Config_def v2config_def)

lemma sample_V2_Config: "V2_Config (cfg_V2 sample_config) r = Some sample_V2Config"
  by (simp add: V2_Config_def sample_config_def config_index_def)

end
