(* ===== verification/Engine_QC.thy ===== *)
theory Engine_QC
  imports Engine_Samples
begin

text \<open>
  Quorum certificates (\<^verbatim>\<open>engine.go\<close>): their verification, the update of the highest and the locked
  certificate, the commit rule and the change of the round.
\<close>

section \<open>Verification\<close>

definition VerifyBlockInfo :: "env \<Rightarrow> BRDPoSConfig \<Rightarrow> ChainReader \<Rightarrow> BlockInfo \<Rightarrow> Header option \<Rightarrow> error + unit" where
  "VerifyBlockInfo E cfg chain blockInfo blockHeader =
    (case (case blockHeader of
             None \<Rightarrow> (case GetHeaderByHash chain (bi_Hash blockInfo) of
                        None \<Rightarrow> Inl (Errorf ''[VerifyBlockInfo] header doesn't exist for the received blockInfo'')
                      | Some h \<Rightarrow> Inr h)
           | Some h \<Rightarrow> if Header_Hash (keccak E) h \<noteq> bi_Hash blockInfo
                       then Inl (Errorf ''[VerifyBlockInfo] Provided blockheader does not match what's in the blockInfo'')
                       else Inr h) of
       Inl err \<Rightarrow> Inl err
     | Inr h \<Rightarrow>
         if Number h \<noteq> bi_Number blockInfo
         then Inl (Errorf ''[VerifyBlockInfo] chain header number does not match for the received blockInfo'')
         else if bi_Number blockInfo = SwitchBlock (cfg_V2 cfg)
         then (if bi_Round blockInfo \<noteq> 0 then Inl (Errorf ''[VerifyBlockInfo] switch block round have to be 0'')
               else Inr ())
         else (case getExtraFields cfg h of
                 Inl err \<Rightarrow> Inl err
               | Inr (_, rnd, _) \<Rightarrow>
                   if rnd \<noteq> bi_Round blockInfo
                   then Inl (Errorf ''[VerifyBlockInfo] chain block's round does not match from blockInfo'')
                   else Inr ()))"

text \<open>
  The signatures of a certificate are checked by one goroutine each, all of which write the
  same error variable: any of the errors may be the one that is left, and none is left exactly
  when every signature is good. The model keeps the error of the last bad signature. A panic
  in a goroutine ends the process.
\<close>

definition sigs_error :: "(signature \<Rightarrow> error option) \<Rightarrow> signature list \<Rightarrow> error option" where
  "sigs_error check sigs =
    (if Some Panic \<in> check ` set sigs then Some Panic
     else fold (\<lambda>sig haveError. case check sig of None \<Rightarrow> haveError | Some err \<Rightarrow> Some err) sigs None)"

definition qc_sig_check :: "env \<Rightarrow> QuorumCert \<Rightarrow> address list \<Rightarrow> signature \<Rightarrow> error option" where
  "qc_sig_check E quorumCert masternodes sig =
    (case verifyMsgSignature E
            (VoteSigHash (keccak E) \<lparr>vs_ProposedBlockInfo = qc_ProposedBlockInfo quorumCert,
                                     vs_GapNumber = qc_GapNumber quorumCert\<rparr>) sig masternodes of
       Inl err \<Rightarrow> if err = Panic then Some Panic else Some (Errorf ''error while verfying QC message signatures'')
     | Inr (verified, _) \<Rightarrow>
         if verified then None else Some (Errorf ''fail to verify QC due to signature mis-match''))"

definition verifyQC :: "env \<Rightarrow> ChainReader \<Rightarrow> QuorumCert option \<Rightarrow> Header option \<Rightarrow> unit eng" where
  "verifyQC E chain quorumCert parentHeader =
    (case quorumCert of
       None \<Rightarrow> fail ErrInvalidQC
     | Some qc \<Rightarrow>
         handleE (getEpochSwitchInfo E chain parentHeader (bi_Hash (qc_ProposedBlockInfo qc))) (\<lambda>r. case r of
           Inl _ \<Rightarrow> fail (Errorf ''fail to verify QC due to failure in getting epoch switch info'')
         | Inr epochInfo \<Rightarrow>
             reads config (\<lambda>cfg.
               let sigs = fst (UniqueSignatures (qc_Signatures qc));
                   qcRound = bi_Round (qc_ProposedBlockInfo qc)
               in (case V2_Config (cfg_V2 cfg) qcRound of
                 None \<Rightarrow> fail Panic
               | Some c \<Rightarrow>
                   if 0 < qcRound \<and> below_threshold (length sigs) (es_MasternodesLen epochInfo) (CertThreshold c)
                   then fail ErrInvalidQCSignatures
                   else (case sigs_error (qc_sig_check E qc (es_Masternodes epochInfo)) sigs of
                     Some err \<Rightarrow> fail err
                   | None \<Rightarrow>
                       if gap_number cfg (big_Uint64 (bi_Number (es_EpochSwitchBlockInfo epochInfo))) \<noteq> qc_GapNumber qc
                       then fail (Errorf ''gap number mismatch QC Gap'')
                       else liftE (VerifyBlockInfo E cfg chain (qc_ProposedBlockInfo qc) parentHeader))))))"

section \<open>Processing\<close>

text \<open>The channel \<^verbatim>\<open>newRoundCh\<close> holds one round; a send to the full channel is dropped.\<close>

definition setNewRound :: "u64 \<Rightarrow> BRDPoS_v2 \<Rightarrow> BRDPoS_v2" where
  "setNewRound rnd x =
    x\<lparr>currentRound := rnd, timeoutCount := 0,
      timeoutWorker := timer_Reset rnd (bi_Round (qc_ProposedBlockInfo (highestQuorumCert x))) (timeoutWorker x),
      timeoutPool := pool_Clear (timeoutPool x),
      newRoundCh := (case newRoundCh x of None \<Rightarrow> Some rnd | Some r \<Rightarrow> Some r)\<rparr>"

definition broadcastToBftChannel :: "message \<Rightarrow> unit eng" where
  "broadcastToBftChannel msg = modify (\<lambda>x. x\<lparr>broadcasts := broadcasts x @ [msg]\<rparr>)"

definition getSyncInfo :: "BRDPoS_v2 \<Rightarrow> SyncInfo" where
  "getSyncInfo x =
    \<lparr>si_HighestQuorumCert = highestQuorumCert x, si_HighestTimeoutCert = highestTimeoutCert x\<rparr>"

definition not_newer :: "BlockInfo option \<Rightarrow> u64 \<Rightarrow> int \<Rightarrow> bool" where
  "not_newer committed rnd number \<longleftrightarrow>
    (case committed of None \<Rightarrow> False | Some b \<Rightarrow> rnd \<le> bi_Round b \<or> number < bi_Number b)"

text \<open>A parent that is not in the chain is nil, and \<^verbatim>\<open>getExtraFields\<close> dereferences it.\<close>

definition commitBlocks :: "env \<Rightarrow> ChainReader \<Rightarrow> Header \<Rightarrow> u64 \<Rightarrow> QuorumCert \<Rightarrow> bool eng" where
  "commitBlocks E chain proposedBlockHeader proposedBlockRound incomingQc =
    reads config (\<lambda>cfg.
      if Number proposedBlockHeader - 2 \<le> SwitchBlock (cfg_V2 cfg) then ok False
      else (case GetHeaderByHash chain (ParentHash proposedBlockHeader) of
        None \<Rightarrow> fail Panic
      | Some parentBlock \<Rightarrow>
          bindE (liftE (getExtraFields cfg parentBlock)) (\<lambda>(_, rnd1, _).
            if proposedBlockRound - 1 \<noteq> rnd1 then ok False
            else (case GetHeaderByHash chain (ParentHash parentBlock) of
              None \<Rightarrow> fail Panic
            | Some grandParentBlock \<Rightarrow>
                bindE (liftE (getExtraFields cfg grandParentBlock)) (\<lambda>(_, rnd2, _).
                  if proposedBlockRound - 2 \<noteq> rnd2 then ok False
                  else reads highestCommitBlock (\<lambda>committed.
                    if not_newer committed rnd2 (Number grandParentBlock) then ok False
                    else thenE (modify (\<lambda>x. x\<lparr>
                           highestCommitBlock := Some \<lparr>bi_Hash = Header_Hash (keccak E) grandParentBlock,
                             bi_Round = rnd2, bi_Number = Number grandParentBlock\<rparr>,
                           forensicsJobs := forensicsJobs x @ [([parentBlock, proposedBlockHeader], incomingQc)]\<rparr>))
                         (ok True)))))))"

definition update_highestQC :: "QuorumCert \<Rightarrow> BRDPoS_v2 \<Rightarrow> BRDPoS_v2" where
  "update_highestQC qc x =
    (if bi_Round (qc_ProposedBlockInfo (highestQuorumCert x)) < bi_Round (qc_ProposedBlockInfo qc)
     then x\<lparr>highestQuorumCert := qc\<rparr> else x)"

definition update_lockQC :: "QuorumCert option \<Rightarrow> unit eng" where
  "update_lockQC proposedBlockQuorumCert =
    reads lockQuorumCert (\<lambda>lock. case lock of
      None \<Rightarrow> modify (\<lambda>x. x\<lparr>lockQuorumCert := proposedBlockQuorumCert\<rparr>)
    | Some l \<Rightarrow>
        (case proposedBlockQuorumCert of
           None \<Rightarrow> fail Panic
         | Some q \<Rightarrow> if bi_Round (qc_ProposedBlockInfo l) < bi_Round (qc_ProposedBlockInfo q)
                     then modify (\<lambda>x. x\<lparr>lockQuorumCert := Some q\<rparr>) else ok ()))"

definition processQC :: "env \<Rightarrow> ChainReader \<Rightarrow> QuorumCert \<Rightarrow> unit eng" where
  "processQC E chain incomingQuorumCert =
    thenE (modify (update_highestQC incomingQuorumCert))
    (case GetHeaderByHash chain (bi_Hash (qc_ProposedBlockInfo incomingQuorumCert)) of
       None \<Rightarrow> fail (Errorf ''block not found'')
     | Some proposedBlockHeader \<Rightarrow>
         thenE
          (reads config (\<lambda>cfg.
            if SwitchBlock (cfg_V2 cfg) < Number proposedBlockHeader
            then bindE (liftE (getExtraFields cfg proposedBlockHeader)) (\<lambda>(proposedBlockQuorumCert, rnd, _).
                   thenE (update_lockQC proposedBlockQuorumCert)
                   (bindE (commitBlocks E chain proposedBlockHeader rnd incomingQuorumCert) (\<lambda>_. ok ())))
            else ok ()))
          (modify (\<lambda>x. if currentRound x \<le> bi_Round (qc_ProposedBlockInfo incomingQuorumCert)
                       then setNewRound (bi_Round (qc_ProposedBlockInfo incomingQuorumCert) + 1) x else x)))"

section \<open>The order of certificates\<close>

abbreviation hqc_round :: "BRDPoS_v2 \<Rightarrow> u64" where
  "hqc_round x \<equiv> bi_Round (qc_ProposedBlockInfo (highestQuorumCert x))"

fun lock_le :: "QuorumCert option \<Rightarrow> QuorumCert option \<Rightarrow> bool" where
  "lock_le None l = True"
| "lock_le (Some a) None = False"
| "lock_le (Some a) (Some b) = (bi_Round (qc_ProposedBlockInfo a) \<le> bi_Round (qc_ProposedBlockInfo b))"

fun commit_le :: "BlockInfo option \<Rightarrow> BlockInfo option \<Rightarrow> bool" where
  "commit_le None c = True"
| "commit_le (Some a) None = False"
| "commit_le (Some a) (Some b) = (a = b \<or> bi_Round a < bi_Round b \<and> bi_Number a \<le> bi_Number b)"

text \<open>Nothing the engine has learnt is lost: rounds of certificates and commits only grow.\<close>

definition cert_order :: "BRDPoS_v2 \<Rightarrow> BRDPoS_v2 \<Rightarrow> bool" where
  "cert_order x y \<longleftrightarrow> config y = config x \<and> hqc_round x \<le> hqc_round y
     \<and> lock_le (lockQuorumCert x) (lockQuorumCert y)
     \<and> commit_le (highestCommitBlock x) (highestCommitBlock y)
     \<and> tc_Round (highestTimeoutCert x) \<le> tc_Round (highestTimeoutCert y)"

lemma lock_le_refl [simp]: "lock_le l l"
  by (cases l) auto

lemma lock_le_trans: "lock_le a b \<Longrightarrow> lock_le b c \<Longrightarrow> lock_le a c"
  by (cases a; cases b; cases c) auto

lemma commit_le_refl [simp]: "commit_le l l"
  by (cases l) auto

lemma commit_le_trans: "commit_le a b \<Longrightarrow> commit_le b c \<Longrightarrow> commit_le a c"
  by (cases a; cases b; cases c) auto

interpretation cert: step_rel cert_order
  by unfold_locales (auto simp: cert_order_def intro: lock_le_trans commit_le_trans)

text \<open>A computation that only touches the caches keeps the order.\<close>

lemma cache_only_cert: "cache_only x y \<Longrightarrow> cert_order x y"
  by (simp add: cert_order_def cache_only_fields)

lemma co_cert: "keeps cache_only m \<Longrightarrow> keeps cert_order m"
  by (auto simp: keeps_def intro: cache_only_cert)

lemma commitBlocks_cert: "keeps cert_order (commitBlocks E chain h r q)"
proof (rule keepsI)
  fix x
  show "cert_order x (fst (commitBlocks E chain h r q x))"
    by (auto simp: commitBlocks_def comp_simps cert_order_def not_newer_def not_le not_less
        split: option.splits sum.splits prod.splits if_splits)
qed

lemma update_lockQC_cert: "keeps cert_order (update_lockQC q)"
  by (rule keepsI) (auto simp: update_lockQC_def comp_simps cert_order_def split: option.splits)

lemma processQC_cert: "keeps cert_order (processQC E chain qc)"
  unfolding processQC_def
  by (intro cert.keeps_rules commitBlocks_cert update_lockQC_cert)
    (auto simp: cert_order_def update_highestQC_def setNewRound_def)

section \<open>What processing a certificate leaves alone\<close>

definition qc_frame :: "BRDPoS_v2 \<Rightarrow> BRDPoS_v2 \<Rightarrow> bool" where
  "qc_frame x y \<longleftrightarrow> config y = config x \<and> db y = db x \<and> snapshots y = snapshots x
     \<and> epochSwitches y = epochSwitches x \<and> signer y = signer x \<and> signFn y = signFn x
     \<and> broadcasts y = broadcasts x \<and> votePool y = votePool x \<and> highestVotedRound y = highestVotedRound x
     \<and> highestSelfMinedRound y = highestSelfMinedRound x"

interpretation qcf: step_rel qc_frame
  by unfold_locales (auto simp: qc_frame_def)

lemma processQC_frame: "keeps qc_frame (processQC E chain qc)"
proof -
  have c: "keeps qc_frame (commitBlocks E chain h r q)" for h r q
    unfolding commitBlocks_def by (intro qcf.keeps_rules) (simp add: qc_frame_def)
  have l: "keeps qc_frame (update_lockQC q)" for q
    unfolding update_lockQC_def by (intro qcf.keeps_rules) (simp_all add: qc_frame_def)
  show ?thesis
    unfolding processQC_def
    by (intro qcf.keeps_rules c l) (simp_all add: qc_frame_def update_highestQC_def setNewRound_def)
qed

section \<open>What an accepted certificate shows\<close>

lemma sigs_error_None: "sigs_error check sigs = None \<longleftrightarrow> (\<forall>sig\<in>set sigs. check sig = None)"
proof -
  have "fold (\<lambda>sig e. case check sig of None \<Rightarrow> e | Some err \<Rightarrow> Some err) sigs e0 = None
      \<longleftrightarrow> e0 = None \<and> (\<forall>sig\<in>set sigs. check sig = None)" for e0
    by (induction sigs arbitrary: e0) (auto split: option.splits)
  then show ?thesis by (simp add: sigs_error_def image_iff) (metis option.distinct(1))
qed

definition signed_by :: "env \<Rightarrow> hash \<Rightarrow> signature \<Rightarrow> address \<Rightarrow> bool" where
  "signed_by E h sig a \<longleftrightarrow> (\<exists>pk. Ecrecover E h sig = Some pk \<and> pk \<noteq> [] \<and> pubkey_address E pk = a)"

lemma signed_by_fun: "signed_by E h sig a \<Longrightarrow> signed_by E h sig b \<Longrightarrow> a = b"
  by (auto simp: signed_by_def)

lemma verifyMsgSignature_Inr:
  "verifyMsgSignature E h sig ms = Inr (b, a) \<Longrightarrow> signed_by E h sig a \<and> (b \<longleftrightarrow> a \<in> set ms)"
  by (auto simp: verifyMsgSignature_def signed_by_def Let_def split: if_splits option.splits)

abbreviation qc_payload :: "env \<Rightarrow> QuorumCert \<Rightarrow> hash" where
  "qc_payload E qc \<equiv> VoteSigHash (keccak E)
    \<lparr>vs_ProposedBlockInfo = qc_ProposedBlockInfo qc, vs_GapNumber = qc_GapNumber qc\<rparr>"

lemma qc_sig_check_None:
  "qc_sig_check E qc ms sig = None \<Longrightarrow> \<exists>a\<in>set ms. signed_by E (qc_payload E qc) sig a"
  by (auto simp: qc_sig_check_def split: sum.splits if_splits prod.splits dest: verifyMsgSignature_Inr)

lemma verifyQC_Inr:
  assumes "verifyQC E chain q parent x = (y, Inr ())"
  obtains qc info c where "q = Some qc"
    and "getEpochSwitchInfo E chain parent (bi_Hash (qc_ProposedBlockInfo qc)) x = (y, Inr info)"
    and "V2_Config (cfg_V2 (config x)) (bi_Round (qc_ProposedBlockInfo qc)) = Some c"
    and "0 < bi_Round (qc_ProposedBlockInfo qc) \<Longrightarrow>
      \<not> below_threshold (card (set (qc_Signatures qc))) (es_MasternodesLen info) (CertThreshold c)"
    and "\<forall>sig\<in>set (qc_Signatures qc). qc_sig_check E qc (es_Masternodes info) sig = None"
    and "gap_number (config x) (big_Uint64 (bi_Number (es_EpochSwitchBlockInfo info))) = qc_GapNumber qc"
    and "VerifyBlockInfo E (config x) chain (qc_ProposedBlockInfo qc) parent = Inr ()"
proof -
  obtain qc where q: "q = Some qc" using assms by (cases q) (auto simp: verifyQC_def comp_simps)
  let ?g = "getEpochSwitchInfo E chain parent (bi_Hash (qc_ProposedBlockInfo qc)) x"
  obtain z r where g: "?g = (z, r)" by (cases ?g)
  have cz: "config z = config x" using cache_only_fields(1) [OF getEpochSwitchInfo_fields [OF g]] .
  have u: "length (fst (UniqueSignatures (qc_Signatures qc))) = card (set (qc_Signatures qc))"
    using UniqueSignatures_correct(1,2) [of "qc_Signatures qc"] by (metis distinct_card)
  show ?thesis
    using assms q g cz u UniqueSignatures_correct(2) [of "qc_Signatures qc"]
    by (auto simp: verifyQC_def comp_simps Let_def sigs_error_None
        split: sum.splits if_splits option.splits intro!: that)
qed

lemma epoch_of_len: "epoch_of E cfg d chain h info \<Longrightarrow> es_MasternodesLen info = length (es_Masternodes info)"
  by (induction rule: epoch_of.induct)
    (auto simp: switch_info_def Let_def split: if_splits sum.splits prod.splits)

lemma VerifyBlockInfo_hash:
  "VerifyBlockInfo E cfg chain b (Some h) = Inr () \<Longrightarrow> Header_Hash (keccak E) h = bi_Hash b"
  by (auto simp: VerifyBlockInfo_def split: if_splits)

lemma verifyQC_accepts:
  assumes "chain_ok E chain" and "coherent E chain x" and "verifyQC E chain (Some qc) parent x = (y, Inr ())"
  shows "coherent E chain y \<and> (\<exists>h info c. Header_Hash (keccak E) h = bi_Hash (qc_ProposedBlockInfo qc)
    \<and> epoch_of E (config x) (db x) chain h info
    \<and> V2_Config (cfg_V2 (config x)) (bi_Round (qc_ProposedBlockInfo qc)) = Some c
    \<and> (0 < bi_Round (qc_ProposedBlockInfo qc) \<longrightarrow>
        \<not> below_threshold (card (set (qc_Signatures qc))) (length (es_Masternodes info)) (CertThreshold c))
    \<and> (\<forall>sig\<in>set (qc_Signatures qc). \<exists>a\<in>set (es_Masternodes info). signed_by E (qc_payload E qc) sig a)
    \<and> qc_GapNumber qc = gap_number (config x) (big_Uint64 (bi_Number (es_EpochSwitchBlockInfo info))))"
proof -
  from verifyQC_Inr [OF assms(3)] obtain info c where
      g: "getEpochSwitchInfo E chain parent (bi_Hash (qc_ProposedBlockInfo qc)) x = (y, Inr info)"
      and c: "V2_Config (cfg_V2 (config x)) (bi_Round (qc_ProposedBlockInfo qc)) = Some c"
      and t: "0 < bi_Round (qc_ProposedBlockInfo qc) \<Longrightarrow>
        \<not> below_threshold (card (set (qc_Signatures qc))) (es_MasternodesLen info) (CertThreshold c)"
      and s: "\<forall>sig\<in>set (qc_Signatures qc). qc_sig_check E qc (es_Masternodes info) sig = None"
      and n: "gap_number (config x) (big_Uint64 (bi_Number (es_EpochSwitchBlockInfo info))) = qc_GapNumber qc"
      and v: "VerifyBlockInfo E (config x) chain (qc_ProposedBlockInfo qc) parent = Inr ()"
    by (metis option.inject)
  have "answers E chain x (bi_Hash (qc_ProposedBlockInfo qc)) y (Inr info)"
    by (rule getEpochSwitchInfo_sound [OF assms(1,2) _ g]) (use v VerifyBlockInfo_hash in blast)
  then obtain h where h: "coherent E chain y" "Header_Hash (keccak E) h = bi_Hash (qc_ProposedBlockInfo qc)"
      "epoch_of E (config x) (db x) chain h info" by auto
  show ?thesis
    using h c t s n epoch_of_len [OF h(3)] qc_sig_check_None by (intro conjI exI [of _ h] exI [of _ info] exI [of _ c]) auto
qed

section \<open>The commit rule\<close>

definition round_of :: "BRDPoSConfig \<Rightarrow> Header \<Rightarrow> u64 \<Rightarrow> bool" where
  "round_of cfg h r \<longleftrightarrow> (\<exists>q ms. getExtraFields cfg h = Inr (q, r, ms))"

text \<open>
  \<open>three_chain cfg chain b g r\<close>: the parent and the grandparent \<open>g\<close> of \<open>b\<close> are in the chain and the
  rounds of the three are consecutive, \<open>r\<close> being the one of \<open>b\<close>.
\<close>

definition three_chain :: "BRDPoSConfig \<Rightarrow> ChainReader \<Rightarrow> Header \<Rightarrow> Header \<Rightarrow> u64 \<Rightarrow> bool" where
  "three_chain cfg chain b g r \<longleftrightarrow>
    (\<exists>p. GetHeaderByHash chain (ParentHash b) = Some p \<and> GetHeaderByHash chain (ParentHash p) = Some g
      \<and> round_of cfg p (r - 1) \<and> round_of cfg g (r - 2) \<and> SwitchBlock (cfg_V2 cfg) < Number b - 2)"

lemma commitBlocks_commits:
  assumes "commitBlocks E chain b r qc x = (y, res)"
  shows "y = x \<and> res \<noteq> Inr True
    \<or> res = Inr True \<and> (\<exists>g. three_chain (config x) chain b g r \<and> \<not> not_newer (highestCommitBlock x) (r - 2) (Number g)
        \<and> highestCommitBlock y = Some \<lparr>bi_Hash = Header_Hash (keccak E) g, bi_Round = r - 2, bi_Number = Number g\<rparr>)"
proof (cases "y = x \<and> res \<noteq> Inr True")
  case False
  have "\<exists>p g. GetHeaderByHash chain (ParentHash b) = Some p \<and> GetHeaderByHash chain (ParentHash p) = Some g
      \<and> round_of (config x) p (r - 1) \<and> round_of (config x) g (r - 2) \<and> SwitchBlock (cfg_V2 (config x)) < Number b - 2
      \<and> \<not> not_newer (highestCommitBlock x) (r - 2) (Number g) \<and> res = Inr True
      \<and> highestCommitBlock y = Some \<lparr>bi_Hash = Header_Hash (keccak E) g, bi_Round = r - 2, bi_Number = Number g\<rparr>"
    using assms False
    by (auto simp: commitBlocks_def comp_simps round_of_def split: if_splits option.splits sum.splits prod.splits)
  then show ?thesis unfolding three_chain_def by blast
qed simp

definition new_lock :: "QuorumCert option \<Rightarrow> QuorumCert option \<Rightarrow> QuorumCert option" where
  "new_lock l q =
    (case l of None \<Rightarrow> q
     | Some a \<Rightarrow> (case q of None \<Rightarrow> Some a
                | Some b \<Rightarrow> if bi_Round (qc_ProposedBlockInfo a) < bi_Round (qc_ProposedBlockInfo b) then Some b else Some a))"

lemma update_lockQC_result:
  assumes "update_lockQC q x = (y, r)"
  shows "r = Inr () \<and> y = x\<lparr>lockQuorumCert := new_lock (lockQuorumCert x) q\<rparr> \<or> r = Inl Panic \<and> y = x"
  using assms by (auto simp: update_lockQC_def new_lock_def comp_simps split: option.splits if_splits)

lemma processQC_Inr:
  assumes "processQC E chain qc x = (y, Inr ())"
  obtains b where "GetHeaderByHash chain (bi_Hash (qc_ProposedBlockInfo qc)) = Some b"
    and "highestQuorumCert y =
      (if hqc_round x < bi_Round (qc_ProposedBlockInfo qc) then qc else highestQuorumCert x)"
    and "currentRound y = (if currentRound x \<le> bi_Round (qc_ProposedBlockInfo qc)
      then bi_Round (qc_ProposedBlockInfo qc) + 1 else currentRound x)"
    and "\<not> SwitchBlock (cfg_V2 (config x)) < Number b \<Longrightarrow>
      lockQuorumCert y = lockQuorumCert x \<and> highestCommitBlock y = highestCommitBlock x"
    and "SwitchBlock (cfg_V2 (config x)) < Number b \<Longrightarrow>
      \<exists>q r ms. getExtraFields (config x) b = Inr (q, r, ms) \<and> lockQuorumCert y = new_lock (lockQuorumCert x) q"
proof -
  let ?r = "bi_Round (qc_ProposedBlockInfo qc)"
  define x1 where "x1 = update_highestQC qc x"
  have x1: "config x1 = config x" "lockQuorumCert x1 = lockQuorumCert x" "highestCommitBlock x1 = highestCommitBlock x"
      "currentRound x1 = currentRound x" "highestQuorumCert x1 = (if hqc_round x < ?r then qc else highestQuorumCert x)"
    by (auto simp: x1_def update_highestQC_def)
  obtain b where b: "GetHeaderByHash chain (bi_Hash (qc_ProposedBlockInfo qc)) = Some b"
    using assms by (auto simp: processQC_def comp_simps split: option.splits)
  let ?m = "reads config (\<lambda>cfg. if SwitchBlock (cfg_V2 cfg) < Number b
      then bindE (liftE (getExtraFields cfg b)) (\<lambda>(q, rnd, _). thenE (update_lockQC q)
             (bindE (commitBlocks E chain b rnd qc) (\<lambda>_. ok ())))
      else ok ())"
  obtain x2 where m: "?m x1 = (x2, Inr ())"
      and y: "y = (if currentRound x2 \<le> ?r then setNewRound (?r + 1) x2 else x2)"
    using assms b by (auto simp: processQC_def x1_def comp_simps split: prod.splits sum.splits)
  have m2: "highestQuorumCert x2 = highestQuorumCert x1 \<and> currentRound x2 = currentRound x1 \<and>
      (if SwitchBlock (cfg_V2 (config x)) < Number b
       then \<exists>q r ms. getExtraFields (config x) b = Inr (q, r, ms) \<and> lockQuorumCert x2 = new_lock (lockQuorumCert x) q
       else x2 = x1)"
  proof (cases "SwitchBlock (cfg_V2 (config x)) < Number b")
    case True
    then obtain q r ms x3 z where e: "getExtraFields (config x) b = Inr (q, r, ms)" and l: "update_lockQC q x1 = (x3, Inr ())"
        and c: "commitBlocks E chain b r qc x3 = (x2, Inr z)"
      using m x1(1) by (auto simp: comp_simps split: prod.splits sum.splits)
    have "highestQuorumCert x2 = highestQuorumCert x3 \<and> currentRound x2 = currentRound x3 \<and> lockQuorumCert x2 = lockQuorumCert x3"
      using c by (auto simp: commitBlocks_def comp_simps split: if_splits option.splits sum.splits prod.splits)
    then show ?thesis using True e update_lockQC_result [OF l] x1 by auto
  qed (use m x1 in \<open>simp add: comp_simps\<close>)
  show ?thesis
    by (rule that [OF b]) (use y m2 x1 in \<open>auto simp: setNewRound_def\<close>)
qed

lemma processQC_commits:
  assumes "processQC E chain qc x = (y, res)" and "highestCommitBlock y \<noteq> highestCommitBlock x"
  shows "\<exists>b g r. GetHeaderByHash chain (bi_Hash (qc_ProposedBlockInfo qc)) = Some b \<and> round_of (config x) b r
    \<and> three_chain (config x) chain b g r \<and> \<not> not_newer (highestCommitBlock x) (r - 2) (Number g)
    \<and> highestCommitBlock y = Some \<lparr>bi_Hash = Header_Hash (keccak E) g, bi_Round = r - 2, bi_Number = Number g\<rparr>"
proof -
  define x1 where "x1 = update_highestQC qc x"
  have x1: "config x1 = config x" "highestCommitBlock x1 = highestCommitBlock x"
    by (auto simp: x1_def update_highestQC_def)
  have nr: "highestCommitBlock (setNewRound r z) = highestCommitBlock z" for r z by (simp add: setNewRound_def)
  obtain b where b: "GetHeaderByHash chain (bi_Hash (qc_ProposedBlockInfo qc)) = Some b"
    using assms x1 by (auto simp: processQC_def x1_def comp_simps split: option.splits)
  have sw: "SwitchBlock (cfg_V2 (config x)) < Number b"
    using assms b x1 nr by (auto simp: processQC_def x1_def comp_simps split: if_splits)
  obtain q r ms where e: "getExtraFields (config x) b = Inr (q, r, ms)"
    using assms b sw x1 by (auto simp: processQC_def x1_def comp_simps split: sum.splits)
  obtain x2 r2 where l: "update_lockQC q x1 = (x2, r2)" by (cases "update_lockQC q x1")
  have x2: "config x2 = config x" "highestCommitBlock x2 = highestCommitBlock x"
    using update_lockQC_result [OF l] x1 by auto
  obtain x3 r3 where c: "commitBlocks E chain b r qc x2 = (x3, r3)" by (cases "commitBlocks E chain b r qc x2")
  have "highestCommitBlock y = highestCommitBlock x \<or> highestCommitBlock y = highestCommitBlock x3"
    using assms(1) b sw e l c x1(1) x2(2) x1_def nr
    by (auto simp: processQC_def comp_simps split: sum.splits if_splits)
  then have "highestCommitBlock y = highestCommitBlock x3" using assms(2) by blast
  then show ?thesis
    using commitBlocks_commits [OF c] b e x2 assms(2) unfolding round_of_def by auto
qed

text \<open>
  C22: when processing a certificate moves the committed block, then the certified block and its two
  predecessors are in the chain with consecutive rounds, the block that becomes committed is the
  first of the three, its round is higher than the round committed before and its number is not
  lower. Whatever the outcome of the call, what was committed before is never replaced otherwise.
\<close>

theorem commit_rule:
  assumes "processQC E chain qc x = (y, res)" and "highestCommitBlock y \<noteq> highestCommitBlock x"
  shows "(\<exists>b g r. GetHeaderByHash chain (bi_Hash (qc_ProposedBlockInfo qc)) = Some b \<and> round_of (config x) b r
      \<and> three_chain (config x) chain b g r
      \<and> highestCommitBlock y = Some \<lparr>bi_Hash = Header_Hash (keccak E) g, bi_Round = r - 2, bi_Number = Number g\<rparr>)
    \<and> (\<forall>c c'. highestCommitBlock x = Some c \<longrightarrow> highestCommitBlock y = Some c' \<longrightarrow>
        bi_Round c < bi_Round c' \<and> bi_Number c \<le> bi_Number c')"
  using processQC_commits [OF assms] by (auto simp: not_newer_def not_le not_less)

theorem commit_rule_witness:
  "\<exists>y. processQC sample_env sample_chain (sample_qc 3 3 903) sample_engine = (y, Inr ())
    \<and> highestCommitBlock y = Some \<lparr>bi_Hash = 5, bi_Round = 1, bi_Number = 901\<rparr>
    \<and> (\<exists>b g r. GetHeaderByHash sample_chain 3 = Some b \<and> round_of sample_config b r
         \<and> three_chain sample_config sample_chain b g r)"
proof -
  let ?r = "processQC sample_env sample_chain (sample_qc 3 3 903) sample_engine"
  have q: "qc_ProposedBlockInfo (sample_qc k r n) = \<lparr>bi_Hash = k, bi_Round = r, bi_Number = n\<rparr>" for k r n
    by (simp add: sample_qc_def)
  have e: "config sample_engine = sample_config" "lockQuorumCert sample_engine = None"
      "highestCommitBlock sample_engine = None" "highestQuorumCert sample_engine = sample_qc 100 0 900"
    by (simp_all add: sample_engine_def)
  have "snd ?r = Inr () \<and> highestCommitBlock (fst ?r) = Some \<lparr>bi_Hash = 5, bi_Round = 1, bi_Number = 901\<rparr>"
    by (simp add: processQC_def comp_simps q e update_highestQC_def sample_lookup sample_switch sample_block_extra
        update_lockQC_def commitBlocks_def not_newer_def setNewRound_def)
  then obtain y where y: "?r = (y, Inr ())" "highestCommitBlock y = Some \<lparr>bi_Hash = 5, bi_Round = 1, bi_Number = 901\<rparr>"
    by (cases ?r) auto
  then have "highestCommitBlock y \<noteq> highestCommitBlock sample_engine" by (simp add: e)
  from commit_rule [OF y(1) this] y show ?thesis by (auto simp: q e)
qed

section \<open>Acceptance and the cache\<close>

text \<open>
  C23: the search for the epoch of a block ends within its bound, changes nothing but caches, and
  keeps them in agreement with the chain; what it returns for a hash is the epoch information,
  computed without caches from headers and snapshots, of a header with that hash.
\<close>

theorem epoch_search_correct:
  assumes "chain_ok E chain" and "coherent E chain x"
    and "\<And>h. header = Some h \<Longrightarrow> Header_Hash (keccak E) h = hsh \<and> 0 \<le> Number h
      \<and> (\<forall>p. GetHeaderByHash chain (ParentHash h) = Some p \<longrightarrow> Number h = Number p + 1)"
    and "getEpochSwitchInfo E chain header hsh x = (y, r)"
  shows "r \<noteq> Inl OutOfFuel \<and> cache_only x y \<and> coherent E chain y
    \<and> (\<forall>info. r = Inr info \<longrightarrow>
          (\<exists>h. Header_Hash (keccak E) h = hsh \<and> epoch_of E (config x) (db x) chain h info))"
proof (intro conjI)
  have "fuelled (getEpochSwitchInfo E chain header hsh)"
    using getEpochSwitchInfo_fuelled [OF assms(1)] assms(3) by blast
  then show "r \<noteq> Inl OutOfFuel" using assms(4) by (metis fuelledD snd_conv)
  show "cache_only x y" using assms(4) by (rule getEpochSwitchInfo_fields)
  have "answers E chain x hsh y r"
    by (rule getEpochSwitchInfo_sound [OF assms(1,2) _ assms(4)]) (use assms(3) in blast)
  then show "coherent E chain y" and "\<forall>info. r = Inr info \<longrightarrow>
      (\<exists>h. Header_Hash (keccak E) h = hsh \<and> epoch_of E (config x) (db x) chain h info)" by auto
qed

theorem epoch_search_correct_witness:
  "\<exists>y. getEpochSwitchInfo sample_env switch_chain (Some sample_switch_block) 5 sample_engine = (y, Inr switch_block_info)
    \<and> coherent sample_env switch_chain y
    \<and> (\<exists>h. epoch_of sample_env sample_config (db sample_engine) switch_chain h switch_block_info)"
proof -
  obtain y where y: "getEpochSwitchInfo sample_env switch_chain (Some sample_switch_block) 5 sample_engine = (y, Inr switch_block_info)"
    using sample_epoch_info by blast
  have "Header_Hash (keccak sample_env) h = 5 \<and> 0 \<le> Number h
      \<and> (\<forall>p. GetHeaderByHash switch_chain (ParentHash h) = Some p \<longrightarrow> Number h = Number p + 1)"
    if "Some sample_switch_block = Some h" for h
    using that by (auto simp: switch_chain_def split: if_splits)
  from epoch_search_correct [OF switch_chain_ok sample_coherent this y] y show ?thesis
    by (auto simp: sample_switch)
qed


lemma sample_verifyQC:
  "\<exists>y. verifyQC sample_env switch_chain (Some (sample_qc 5 0 900)) None sample_engine = (y, Inr ())"
proof -
  obtain y where y: "getEpochSwitchInfo sample_env switch_chain None 5 sample_engine = (y, Inr switch_block_info)"
    using sample_epoch_info by blast
  have c: "config y = sample_config"
    using cache_only_fields(1) [OF getEpochSwitchInfo_fields [OF y]] by (simp add: sample_switch)
  have v: "V2_Config (cfg_V2 sample_config) 0 = Some sample_V2Config"
    by (simp add: V2_Config_def config_index_def sample_config_def)
  have "Ecrecover sample_env 5 [1] = Some [4, 1]" by (simp add: sample_env_def)
  then have s: "sigs_error (qc_sig_check sample_env (sample_qc 5 0 900) [5]) (fst (UniqueSignatures [[1]])) = None"
    by (simp add: sigs_error_None UniqueSignatures_correct qc_sig_check_def verifyMsgSignature_def pubkey_address_def Let_def)
  have "VerifyBlockInfo sample_env sample_config switch_chain \<lparr>bi_Hash = 5, bi_Round = 0, bi_Number = 900\<rparr> None = Inr ()"
    by (simp add: VerifyBlockInfo_def switch_chain_def sample_switch)
  moreover have "gap_number sample_config 900 = 450" by (simp add: gap_number_def sample_config_def)
  ultimately show ?thesis
    using y c v s by (simp add: verifyQC_def comp_simps sample_qc_def switch_block_info_def big_Uint64_def Let_def)
qed


lemma epochSwitchInfo_at_stored:
  assumes "epochSwitchInfo_at E chain h hsh x = (y, Inr info)"
  shows "lru_Peek (epochSwitches y) hsh = Some info"
  using assms lruc.add_self
  by (auto simp: epochSwitchInfo_at_def comp_simps Let_def epochSwitches_Add_def
      split: if_splits sum.splits prod.splits)

lemma epoch_info_stored:
  assumes "lru_Peek (epochSwitches x) hsh = None" and "getEpochSwitchInfo_n n E chain header hsh x = (y, Inr info)"
  shows "lru_Peek (epochSwitches y) hsh = Some info"
proof (cases n)
  case (Suc m)
  have g: "snd (epochSwitches_Get hsh x) = Inr None"
    using assms(1) lruc.get_value [of hsh "epochSwitches x"] by (auto simp: epochSwitches_Get_def split: prod.splits)
  show ?thesis
    using assms(2) g epochSwitchInfo_at_stored lruc.add_self unfolding Suc getEpochSwitchInfo_n.simps
    by (auto simp: bindE_def thenE_def ok_def fail_def epochSwitches_Add_def modify_def
        split: prod.splits sum.splits option.splits if_splits)
qed (use assms(2) in \<open>simp add: fail_def\<close>)

lemma epoch_info_hit:
  assumes "lru_Peek (epochSwitches x) hsh = Some info"
  shows "snd (getEpochSwitchInfo E chain header hsh x) = Inr info"
proof -
  have "epoch_fuel chain header hsh \<noteq> 0" by (auto simp: epoch_fuel_def split: option.splits)
  then obtain m where "epoch_fuel chain header hsh = Suc m" by (cases "epoch_fuel chain header hsh") auto
  moreover have "snd (epochSwitches_Get hsh x) = Inr (Some info)"
    using assms lruc.get_value [of hsh "epochSwitches x"] by (auto simp: epochSwitches_Get_def split: prod.splits)
  ultimately show ?thesis by (auto simp: getEpochSwitchInfo_def bindE_def ok_def split: prod.splits sum.splits)
qed

lemma verifyQC_no_match:
  assumes "getEpochSwitchInfo E chain (Some p) (bi_Hash (qc_ProposedBlockInfo qc)) x = (x', Inr info)"
    and "Header_Hash (keccak E) p \<noteq> bi_Hash (qc_ProposedBlockInfo qc)"
  shows "\<exists>e. verifyQC E chain (Some qc) (Some p) x = (x', Inl e)"
  using assms by (auto simp: verifyQC_def comp_simps Let_def VerifyBlockInfo_def split: option.splits)

text \<open>
  C25: with a parent header at hand, \<^verbatim>\<open>verifyQC\<close> looks up the epoch under the hash the certificate
  claims before it compares that hash with the header's. A certificate with another hash is
  rejected, but the cache of epochs keeps the information of the parent under the claimed hash,
  and later searches for that hash are answered with it.
\<close>

theorem rejected_certificate_stays_in_cache:
  assumes "lru_Peek (epochSwitches x) (bi_Hash (qc_ProposedBlockInfo qc)) = None"
    and "Header_Hash (keccak E) p \<noteq> bi_Hash (qc_ProposedBlockInfo qc)"
    and "getEpochSwitchInfo E chain (Some p) (bi_Hash (qc_ProposedBlockInfo qc)) x = (x', Inr info)"
  shows "(\<exists>e. verifyQC E chain (Some qc) (Some p) x = (x', Inl e))
    \<and> (\<forall>chain' header. snd (getEpochSwitchInfo E chain' header (bi_Hash (qc_ProposedBlockInfo qc)) x') = Inr info)"
  using verifyQC_no_match [OF assms(3,2)] epoch_info_hit epoch_info_stored [OF assms(1)] assms(3)
  by (simp add: getEpochSwitchInfo_def)

lemma sample_foreign_epoch:
  "\<exists>x' info. getEpochSwitchInfo sample_env switch_chain (Some sample_switch_block) 7 sample_engine = (x', Inr info)"
proof -
  have g: "epochSwitches_Get 7 sample_engine = (sample_engine, Inr None)"
    by (simp add: epochSwitches_Get_def lru_Get_def sample_engine_def NewBasicLRU_def)
  have i: "IsEpochSwitch sample_env sample_switch_block sample_engine = (sample_engine, Inr (True, 1))"
    by (simp add: IsEpochSwitch_def comp_simps sample_switch big_Uint64_def) (simp add: sample_config_def)
  have f: "epoch_fuel switch_chain (Some sample_switch_block) 7 = Suc 901" by (simp add: epoch_fuel_def)
  show ?thesis
    using sample_snapshot switch_masternodes g i
    by (simp only: getEpochSwitchInfo_def f getEpochSwitchInfo_n.simps)
      (simp add: comp_simps epochSwitchInfo_at_def sample_switch big_Uint64_def Let_def epochSwitches_Add_def)
qed

theorem rejected_certificate_stays_in_cache_witness:
  "\<exists>x' info. (\<exists>e. verifyQC sample_env switch_chain (Some (sample_qc 7 1 901)) (Some sample_switch_block) sample_engine
        = (x', Inl e))
    \<and> snd (getEpochSwitchInfo sample_env switch_chain None 7 x') = Inr info"
proof -
  obtain x' info where f: "getEpochSwitchInfo sample_env switch_chain (Some sample_switch_block) 7 sample_engine = (x', Inr info)"
    using sample_foreign_epoch by blast
  have "lru_Peek (epochSwitches sample_engine) 7 = None" by (simp add: sample_engine_def)
  then show ?thesis
    using rejected_certificate_stays_in_cache [of sample_engine "sample_qc 7 1 901" sample_env sample_switch_block switch_chain x' info] f
    by (auto simp: sample_qc_def)
qed

end
