(* ===== verification/Engine_Search.thy ===== *)
theory Engine_Search
  imports Engine_QC
begin

text \<open>
  The search for the first block of an epoch by its number (\<^verbatim>\<open>utils.go\<close>, \<^verbatim>\<open>epochSwitch.go\<close>): in the
  cache, by walking back from the head, and by binary search; and the rounds of an epoch in which no
  block was produced. The loops carry fuel. The binary search and the walk over the missed rounds
  are shown below not to use it up; the walk from epoch to epoch has one turn for every block
  number between its ends, and one more because the first block may itself start an epoch.
\<close>

section \<open>Operations\<close>

fun between_loop ::
  "nat \<Rightarrow> env \<Rightarrow> ChainReader \<Rightarrow> int \<Rightarrow> Header option \<Rightarrow> hash \<Rightarrow> int \<Rightarrow> EpochSwitchInfo list eng" where
  "between_loop fuel E chain beginNumber iteratorHeader iteratorHash iteratorNum =
    (if iteratorNum \<le> beginNumber then ok []
     else case fuel of
       0 \<Rightarrow> fail OutOfFuel
     | Suc n \<Rightarrow>
         bindE (getEpochSwitchInfo E chain iteratorHeader iteratorHash) (\<lambda>info.
           case es_EpochSwitchParentBlockInfo info of
             None \<Rightarrow> ok []
           | Some parent \<Rightarrow>
               let num = bi_Number (es_EpochSwitchBlockInfo info)
               in bindE (between_loop n E chain beginNumber None (bi_Hash parent) num) (\<lambda>infos.
                    ok (if beginNumber \<le> num then info # infos else infos))))"

declare between_loop.simps [simp del]

definition GetEpochSwitchInfoBetween :: "env \<Rightarrow> ChainReader \<Rightarrow> Header \<Rightarrow> Header \<Rightarrow> EpochSwitchInfo list eng" where
  "GetEpochSwitchInfoBetween E chain begin_header end_header =
    bindE (between_loop (Suc (nat (Number end_header - Number begin_header))) E chain (Number begin_header)
             (Some end_header) (Header_Hash (keccak E) end_header) (Number end_header)) (\<lambda>infos. ok (rev infos))"

text \<open>The rounds \<open>a, a + 1, \<dots>, b - 1\<close> of a loop \<^verbatim>\<open>for r := a; r < b; r++\<close> over \<^verbatim>\<open>uint64\<close>.\<close>

definition rounds_from :: "u64 \<Rightarrow> u64 \<Rightarrow> u64 list" where
  "rounds_from a b = map of_nat [unat a ..< unat b]"

fun cached_switches :: "u64 list \<Rightarrow> BlockInfo list eng" where
  "cached_switches [] = ok []"
| "cached_switches (r # rs) =
    bindE (round2epoch_Get r) (\<lambda>hit. bindE (cached_switches rs) (\<lambda>rest.
      ok (case hit of None \<Rightarrow> rest | Some blockInfo \<Rightarrow> blockInfo # rest)))"

definition getBlockByEpochNumberInCache :: "env \<Rightarrow> ChainReader \<Rightarrow> u64 \<Rightarrow> BlockInfo option eng" where
  "getBlockByEpochNumberInCache E chain estRound =
    reads config (\<lambda>cfg. bindE (cached_switches (rounds_from estRound (estRound + Epoch cfg))) (\<lambda>hits.
      ok (case hits of
            [] \<Rightarrow> None
          | [blockInfo] \<Rightarrow> Some blockInfo
          | _ \<Rightarrow> find (\<lambda>blockInfo.
                   case GetHeaderByNumber chain (big_Uint64 (bi_Number blockInfo)) of
                     None \<Rightarrow> False
                   | Some h \<Rightarrow> Header_Hash (keccak E) h = bi_Hash blockInfo) hits)))"

definition no_epoch_switch :: error where
  "no_epoch_switch = Errorf ''no epoch switch header in binary search (all rounds in this epoch are missed, which is very rare)''"

fun binarySearch_n :: "nat \<Rightarrow> env \<Rightarrow> ChainReader \<Rightarrow> u64 \<Rightarrow> u64 \<Rightarrow> u64 \<Rightarrow> BlockInfo eng" where
  "binarySearch_n fuel E chain targetEpochNum start stop =
    (if stop \<le> start then fail no_epoch_switch
     else case fuel of
       0 \<Rightarrow> fail OutOfFuel
     | Suc n \<Rightarrow>
         (case GetHeaderByNumber chain ((start + stop) div 2) of
            None \<Rightarrow> fail (Errorf ''header nil in binary search'')
          | Some h \<Rightarrow>
              bindE (IsEpochSwitch E h) (\<lambda>(isEpochSwitch, epochNum).
                if epochNum = targetEpochNum
                then reads config (\<lambda>cfg. bindE (liftE (getExtraFields cfg h)) (\<lambda>(_, rnd, _).
                  if isEpochSwitch
                  then ok \<lparr>bi_Hash = Header_Hash (keccak E) h, bi_Round = rnd, bi_Number = Number h\<rparr>
                  else let stop' = big_Uint64 (Number h);
                           estStart = stop' - rnd mod Epoch cfg
                       in binarySearch_n n E chain targetEpochNum (if start < estStart then estStart else start) stop'))
                else if targetEpochNum < epochNum
                then binarySearch_n n E chain targetEpochNum start (big_Uint64 (Number h))
                else let nextStart = big_Uint64 (Number h)
                     in if nextStart = start then fail no_epoch_switch
                        else binarySearch_n n E chain targetEpochNum nextStart stop)))"

declare binarySearch_n.simps [simp del]

text \<open>Every turn halves the interval: 65 turns are enough for 64-bit numbers.\<close>

definition binarySearchBlockByEpochNumber :: "env \<Rightarrow> ChainReader \<Rightarrow> u64 \<Rightarrow> u64 \<Rightarrow> u64 \<Rightarrow> BlockInfo eng" where
  "binarySearchBlockByEpochNumber = binarySearch_n 65"

definition GetBlockByEpochNumber :: "env \<Rightarrow> ChainReader \<Rightarrow> u64 \<Rightarrow> BlockInfo eng" where
  "GetBlockByEpochNumber E chain targetEpochNum =
    (let currentHeader = CurrentHeader chain
     in bindE (getEpochSwitchInfo E chain (Some currentHeader) (Header_Hash (keccak E) currentHeader)) (\<lambda>epochSwitchInfo.
       reads config (\<lambda>cfg.
         let switchInfo = es_EpochSwitchBlockInfo epochSwitchInfo;
             epochNum = SwitchEpoch (cfg_V2 cfg) + bi_Round switchInfo div Epoch cfg
         in if targetEpochNum = epochNum then ok switchInfo
            else if epochNum < targetEpochNum then fail (Errorf ''input epoch number > current epoch number'')
            else if targetEpochNum < SwitchEpoch (cfg_V2 cfg)
            then fail (Errorf ''input epoch number < v2 begin epoch number'')
            else bindE (getBlockByEpochNumberInCache E chain ((targetEpochNum - SwitchEpoch (cfg_V2 cfg)) * Epoch cfg)) (\<lambda>hit.
              case hit of
                Some blockInfo \<Rightarrow> ok blockInfo
              | None \<Rightarrow>
                  let estblockNumDiff = sint (Epoch cfg) * sint (epochNum - targetEpochNum);
                      estBlockNum = max (bi_Number switchInfo - estblockNumDiff) (SwitchBlock (cfg_V2 cfg));
                      search = binarySearchBlockByEpochNumber E chain targetEpochNum (big_Uint64 estBlockNum)
                                 (big_Uint64 (bi_Number switchInfo))
                  in if epochNum - targetEpochNum \<le> 2
                     then (case GetHeaderByNumber chain (big_Uint64 estBlockNum) of
                       None \<Rightarrow> fail Panic
                     | Some estBlockHeader \<Rightarrow>
                         bindE (GetEpochSwitchInfoBetween E chain estBlockHeader currentHeader) (\<lambda>epochSwitchInfos.
                           case find (\<lambda>info. SwitchEpoch (cfg_V2 cfg) + bi_Round (es_EpochSwitchBlockInfo info) div Epoch cfg
                                             = targetEpochNum) epochSwitchInfos of
                             Some info \<Rightarrow> ok (es_EpochSwitchBlockInfo info)
                           | None \<Rightarrow> search))
                     else search))))"

record MissedRoundInfo =
  mr_Round :: u64
  mr_Miner :: address
  mr_CurrentBlockHash :: hash
  mr_CurrentBlockNum :: int
  mr_ParentBlockHash :: hash
  mr_ParentBlockNum :: int

definition missed_between :: "env \<Rightarrow> BRDPoSConfig \<Rightarrow> address list \<Rightarrow> Header \<Rightarrow> Header \<Rightarrow> u64 list \<Rightarrow> MissedRoundInfo list" where
  "missed_between E cfg masternodes nextHeader parentHeader rs =
    map (\<lambda>i. \<lparr>mr_Round = i,
              mr_Miner = masternodes ! unat (i mod Epoch cfg mod of_nat (length masternodes)),
              mr_CurrentBlockHash = Header_Hash (keccak E) nextHeader, mr_CurrentBlockNum = Number nextHeader,
              mr_ParentBlockHash = Header_Hash (keccak E) parentHeader, mr_ParentBlockNum = Number parentHeader\<rparr>) rs"

fun missed_loop ::
  "nat \<Rightarrow> env \<Rightarrow> ChainReader \<Rightarrow> BRDPoSConfig \<Rightarrow> EpochSwitchInfo \<Rightarrow> Header \<Rightarrow> error + MissedRoundInfo list" where
  "missed_loop fuel E chain cfg switchInfo nextHeader =
    (if Number nextHeader \<le> bi_Number (es_EpochSwitchBlockInfo switchInfo) then Inr []
     else case fuel of
       0 \<Rightarrow> Inl OutOfFuel
     | Suc n \<Rightarrow>
         (case GetHeaderByHash chain (ParentHash nextHeader) of
            None \<Rightarrow> Inl Panic
          | Some parentHeader \<Rightarrow>
              (case GetRoundNumber cfg parentHeader of
                 Inl err \<Rightarrow> Inl err
               | Inr parentRound \<Rightarrow>
                   (case GetRoundNumber cfg nextHeader of
                      Inl err \<Rightarrow> Inl err
                    | Inr currRound \<Rightarrow>
                        let rs = (if parentRound + 1 \<noteq> currRound then rounds_from (parentRound + 1) currRound else [])
                        in if rs \<noteq> [] \<and> es_Masternodes switchInfo = [] then Inl Panic
                           else (case missed_loop n E chain cfg switchInfo parentHeader of
                              Inl err \<Rightarrow> Inl err
                            | Inr ms \<Rightarrow>
                                Inr (missed_between E cfg (es_Masternodes switchInfo) nextHeader parentHeader rs @ ms))))))"

declare missed_loop.simps [simp del]

definition CalculateMissingRounds :: "env \<Rightarrow> ChainReader \<Rightarrow> Header \<Rightarrow> (u64 \<times> int \<times> MissedRoundInfo list) eng" where
  "CalculateMissingRounds E chain header =
    bindE (getEpochSwitchInfo E chain (Some header) (Header_Hash (keccak E) header)) (\<lambda>switchInfo.
      reads config (\<lambda>cfg.
        bindE (liftE (missed_loop (nat (Number header - bi_Number (es_EpochSwitchBlockInfo switchInfo)))
                        E chain cfg switchInfo header)) (\<lambda>missedRounds.
          ok (bi_Round (es_EpochSwitchBlockInfo switchInfo), bi_Number (es_EpochSwitchBlockInfo switchInfo),
              missedRounds))))"

section \<open>What the searches leave alone\<close>

lemma between_loop_co: "keeps cache_only (between_loop fuel E chain b h k n)"
proof (induction fuel arbitrary: h k n)
  case 0
  show ?case by (subst between_loop.simps) (simp add: co.keeps_ok co.keeps_fail)
next
  case (Suc fuel)
  show ?case
    by (subst between_loop.simps, simp only: nat.case) (intro co_rules getEpochSwitchInfo_co Suc)
qed

lemma cached_switches_co: "keeps cache_only (cached_switches rs)"
proof (induction rs)
  case (Cons r rs)
  show ?case unfolding cached_switches.simps by (intro co_rules Cons)
qed (simp add: co.keeps_ok)

lemma binarySearch_co: "keeps cache_only (binarySearch_n fuel E chain t a b)"
proof (induction fuel arbitrary: a b)
  case 0
  show ?case by (subst binarySearch_n.simps) (simp add: co.keeps_fail)
next
  case (Suc fuel)
  show ?case
    by (subst binarySearch_n.simps, simp only: nat.case) (intro co_rules IsEpochSwitch_co Suc)
qed

lemma GetBlockByEpochNumber_co: "keeps cache_only (GetBlockByEpochNumber E chain t)"
  unfolding GetBlockByEpochNumber_def getBlockByEpochNumberInCache_def GetEpochSwitchInfoBetween_def
    binarySearchBlockByEpochNumber_def Let_def
  by (intro co_rules getEpochSwitchInfo_co between_loop_co cached_switches_co binarySearch_co)

lemma CalculateMissingRounds_co: "keeps cache_only (CalculateMissingRounds E chain h)"
  unfolding CalculateMissingRounds_def by (intro co_rules getEpochSwitchInfo_co)

section \<open>Binary search\<close>

definition numbered :: "ChainReader \<Rightarrow> bool" where
  "numbered chain \<longleftrightarrow> (\<forall>n h. GetHeaderByNumber chain n = Some h \<longrightarrow> Number h = int (unat n))"

lemma numbered_Uint64: "numbered chain \<Longrightarrow> GetHeaderByNumber chain n = Some h \<Longrightarrow> big_Uint64 (Number h) = n"
  by (simp add: numbered_def big_Uint64_def)

lemma unat_middle:
  assumes "(a :: u64) < b" and "unat b < 2 ^ 63"
  shows "unat ((a + b) div 2) = (unat a + unat b) div 2"
proof -
  have "unat a < unat b" using assms(1) by (simp add: word_less_nat_alt)
  then have "unat a + unat b < 2 ^ 64" using assms(2) by simp
  then have "unat (a + b) = unat a + unat b" by (simp add: unat_word_ariths(1))
  then show ?thesis by (simp add: unat_div)
qed

lemma binarySearch_end: "b \<le> a \<Longrightarrow> binarySearch_n n E chain t a b x = (x, Inl no_epoch_switch)"
  by (subst binarySearch_n.simps) (simp add: fail_def)

lemma binarySearch_step:
  assumes "numbered chain" and "a < b" and "GetHeaderByNumber chain ((a + b) div 2) = Some h"
    and "IsEpochSwitch E h x = (y, r)"
  shows "binarySearch_n (Suc n) E chain t a b x =
      (case r of Inl err \<Rightarrow> (y, Inl err) | Inr (sw, ep) \<Rightarrow>
        if ep = t then (case getExtraFields (config y) h of Inl err \<Rightarrow> (y, Inl err) | Inr (_, rnd, _) \<Rightarrow>
            if sw then (y, Inr \<lparr>bi_Hash = Header_Hash (keccak E) h, bi_Round = rnd, bi_Number = Number h\<rparr>)
            else binarySearch_n n E chain t
              (if a < (a + b) div 2 - rnd mod Epoch (config y) then (a + b) div 2 - rnd mod Epoch (config y) else a)
              ((a + b) div 2) y)
        else if t < ep then binarySearch_n n E chain t a ((a + b) div 2) y
        else if (a + b) div 2 = a then (y, Inl no_epoch_switch)
        else binarySearch_n n E chain t ((a + b) div 2) b y)"
proof -
  have "\<not> b \<le> a" using assms(2) by simp
  then show ?thesis
    using assms(3,4) numbered_Uint64 [OF assms(1,3)]
    by (simp add: binarySearch_n.simps [of "Suc n"] comp_simps Let_def split: sum.splits prod.splits)
qed

lemma binarySearch_turn:
  assumes "numbered chain" and "a < b"
  shows "snd (binarySearch_n (Suc n) E chain t a b x) \<noteq> Inl OutOfFuel
    \<or> (\<exists>a' y. binarySearch_n (Suc n) E chain t a b x = binarySearch_n n E chain t a' ((a + b) div 2) y \<and> a \<le> a')
    \<or> (\<exists>y. binarySearch_n (Suc n) E chain t a b x = binarySearch_n n E chain t ((a + b) div 2) b y \<and> (a + b) div 2 \<noteq> a)"
proof (cases "GetHeaderByNumber chain ((a + b) div 2)")
  case None
  moreover have "\<not> b \<le> a" using assms(2) by simp
  ultimately have "snd (binarySearch_n (Suc n) E chain t a b x) = Inl (Errorf ''header nil in binary search'')"
    by (simp add: binarySearch_n.simps [of "Suc n"] fail_def)
  then show ?thesis by simp
next
  case (Some h)
  obtain y r where i: "IsEpochSwitch E h x = (y, r)" by fastforce
  have e: "r \<noteq> Inl OutOfFuel" using fuelledD [OF IsEpochSwitch_fuelled, of E h x] i by simp
  have g: "getExtraFields cfg h \<noteq> Inl OutOfFuel" for cfg using getExtraFields_err by blast
  show ?thesis
    unfolding binarySearch_step [OF assms Some i]
    using e g by (auto simp: no_epoch_switch_def split: sum.splits prod.splits if_splits intro: less_imp_le)
qed

text \<open>The interval at least halves in every turn.\<close>

lemma binarySearch_fuelled:
  assumes "numbered chain" and "unat b < 2 ^ 63" and "unat b \<le> unat a + 2 ^ k"
  shows "snd (binarySearch_n (Suc k) E chain t a b x) \<noteq> Inl OutOfFuel"
  using assms(2,3)
proof (induction k arbitrary: a b x)
  case (0 a b x)
  have e: "snd (binarySearch_n n E chain t c d y) \<noteq> Inl OutOfFuel" if "d \<le> c" for n c d y
    using that by (simp add: binarySearch_end no_epoch_switch_def)
  show ?case
  proof (cases "a < b")
    case True
    then have "unat b = unat a + 1" using 0(2) by (simp add: word_less_nat_alt)
    then have "unat ((a + b) div 2) = unat a" using unat_middle [OF True 0(1)] by simp
    then have m: "(a + b) div 2 = a" by (rule unsigned_word_eqI)
    show ?thesis using binarySearch_turn [OF assms(1) True, of 0 E t x] e unfolding m by auto
  qed (use e in auto)
next
  case (Suc k)
  show ?case
  proof (cases "a < b")
    case True
    have m: "unat ((a + b) div 2) = (unat a + unat b) div 2" by (rule unat_middle [OF True Suc(2)])
    have lt: "unat a < unat b" using True by (simp add: word_less_nat_alt)
    have l: "snd (binarySearch_n (Suc k) E chain t a' ((a + b) div 2) y) \<noteq> Inl OutOfFuel" if "a \<le> a'" for a' y
      using that m lt Suc(2,3) by (intro Suc(1)) (auto simp: word_le_nat_alt)
    have r: "snd (binarySearch_n (Suc k) E chain t ((a + b) div 2) b y) \<noteq> Inl OutOfFuel" for y
      using m lt Suc(2,3) by (intro Suc(1)) auto
    show ?thesis using binarySearch_turn [OF assms(1) True, of "Suc k" E t x] l r by auto
  qed (simp add: binarySearch_end no_epoch_switch_def)
qed

text \<open>
  A stretch of the chain in which the target epoch starts at block \<open>s\<close>: epoch numbers do not
  decrease, and a block of the target epoch is at most as many blocks after \<open>s\<close> as its round is
  rounds after the first round of the epoch, and at most as many as its own number.
\<close>

definition epoch_range :: "BRDPoSConfig \<Rightarrow> ChainReader \<Rightarrow> u64 \<Rightarrow> nat \<Rightarrow> nat \<Rightarrow> nat \<Rightarrow> bool" where
  "epoch_range cfg chain t s lo hi \<longleftrightarrow>
    (\<forall>n. lo \<le> n \<and> n < hi \<longrightarrow>
      (\<exists>h sw ep q rd ms. GetHeaderByNumber chain (of_nat n) = Some h \<and> switch_result cfg h = Inr (sw, ep)
        \<and> getExtraFields cfg h = Inr (q, rd, ms) \<and> (ep < t \<longleftrightarrow> n < s) \<and> (n = s \<longrightarrow> sw \<and> ep = t)
        \<and> (ep = t \<longrightarrow> n \<le> s + unat (rd mod Epoch cfg) \<and> unat (rd mod Epoch cfg) \<le> n)))"

definition switch_found :: "env \<Rightarrow> BRDPoSConfig \<Rightarrow> ChainReader \<Rightarrow> u64 \<Rightarrow> BlockInfo \<Rightarrow> bool" where
  "switch_found E cfg chain t b \<longleftrightarrow>
    (\<exists>n h q rd ms. GetHeaderByNumber chain n = Some h \<and> switch_result cfg h = Inr (True, t)
      \<and> getExtraFields cfg h = Inr (q, rd, ms)
      \<and> b = \<lparr>bi_Hash = Header_Hash (keccak E) h, bi_Round = rd, bi_Number = Number h\<rparr>)"

lemma epoch_rangeE:
  assumes "epoch_range cfg chain t s lo hi" and "lo \<le> unat n" and "unat n < hi"
  obtains h sw ep q rd ms where "GetHeaderByNumber chain n = Some h" "switch_result cfg h = Inr (sw, ep)"
    "getExtraFields cfg h = Inr (q, rd, ms)" "ep < t \<longleftrightarrow> unat n < s" "unat n = s \<longrightarrow> sw \<and> ep = t"
    "ep = t \<longrightarrow> unat n \<le> s + unat (rd mod Epoch cfg) \<and> unat (rd mod Epoch cfg) \<le> unat n"
  using assms unfolding epoch_range_def by (elim allE [of _ "unat n"]) auto

lemma finds_turn:
  assumes "numbered chain" and "epoch_range cfg chain t s lo hi" and "hi < 2 ^ 63"
    and ab: "config x = cfg" "lo \<le> unat a" "unat a \<le> s" "s < unat b" "unat b \<le> hi"
    and rec: "\<And>a' b' y. config y = cfg \<Longrightarrow> unat a \<le> unat a' \<Longrightarrow> unat a' \<le> s \<Longrightarrow> s < unat b' \<Longrightarrow> unat b' \<le> unat b \<Longrightarrow>
      unat b' \<le> unat a' + (unat b - unat a + 1) div 2 \<Longrightarrow> unat a + 2 \<le> unat b \<Longrightarrow>
      \<exists>z i. binarySearch_n n E chain t a' b' y = (z, Inr i) \<and> switch_found E cfg chain t i"
  shows "\<exists>z i. binarySearch_n (Suc n) E chain t a b x = (z, Inr i) \<and> switch_found E cfg chain t i"
proof -
  let ?m = "(a + b) div 2"
  have lt: "a < b" using ab by (simp add: word_less_nat_alt)
  have m: "unat ?m = (unat a + unat b) div 2" using unat_middle [OF lt] ab assms(3) by simp
  obtain h sw ep q rd ms where h: "GetHeaderByNumber chain ?m = Some h" "switch_result cfg h = Inr (sw, ep)"
    "getExtraFields cfg h = Inr (q, rd, ms)" "ep < t \<longleftrightarrow> unat ?m < s" "unat ?m = s \<longrightarrow> sw \<and> ep = t"
    "ep = t \<longrightarrow> unat ?m \<le> s + unat (rd mod Epoch cfg) \<and> unat (rd mod Epoch cfg) \<le> unat ?m"
    by (rule epoch_rangeE [OF assms(2), of ?m]) (use m ab in auto)
  obtain y where i: "IsEpochSwitch E h x = (y, Inr (sw, ep))"
    using IsEpochSwitch_result [of E h x] h(2) ab(1) by (cases "IsEpochSwitch E h x") auto
  have c: "config y = cfg" using cache_only_fields(1) [OF keepsE [OF IsEpochSwitch_co i]] ab(1) by simp
  note step = binarySearch_step [OF assms(1) lt h(1) i, of n t]
  consider "ep = t" "sw" | "ep = t" "\<not> sw" | "t < ep" | "ep < t" by fastforce
  then show ?thesis
  proof cases
    case 1
    then show ?thesis using step h c unfolding switch_found_def by auto
  next
    case 2
    let ?e = "?m - rd mod Epoch cfg"
    let ?a' = "if a < ?e then ?e else a"
    have e: "unat ?e = unat ?m - unat (rd mod Epoch cfg)" using h(6) 2 by (simp add: unat_sub word_le_nat_alt)
    have s: "s < unat ?m" using h(4,5) 2 by (metis less_irrefl linorder_neqE_nat)
    have "unat a \<le> unat ?a' \<and> unat ?a' \<le> s" using e h(6) 2 ab by (auto simp: word_less_nat_alt)
    moreover have "binarySearch_n (Suc n) E chain t a b x = binarySearch_n n E chain t ?a' ?m y" using step 2 h c by simp
    ultimately obtain a' where "unat a \<le> unat a'" "unat a' \<le> s"
      "binarySearch_n (Suc n) E chain t a b x = binarySearch_n n E chain t a' ?m y" by blast
    then show ?thesis using rec [OF c, of a' ?m] s m ab by simp
  next
    case 3
    have "s < unat ?m" using h(4,5) 3 by (metis less_asym less_irrefl linorder_neqE_nat)
    moreover have "binarySearch_n (Suc n) E chain t a b x = binarySearch_n n E chain t a ?m y" using step 3 by auto
    ultimately show ?thesis using rec [OF c, of a ?m] m ab by simp
  next
    case 4
    have s: "unat ?m < s" using h(4) 4 by simp
    then have ne: "unat a < unat ?m" using m ab by linarith
    then have "?m \<noteq> a" by auto
    then have "binarySearch_n (Suc n) E chain t a b x = binarySearch_n n E chain t ?m b y" using step 4 by auto
    then show ?thesis using rec [OF c, of ?m b] s ne m ab by simp
  qed
qed

lemma binarySearch_finds:
  assumes "numbered chain" and "epoch_range cfg chain t s lo hi" and "hi < 2 ^ 63"
  shows "config x = cfg \<Longrightarrow> lo \<le> unat a \<Longrightarrow> unat a \<le> s \<Longrightarrow> s < unat b \<Longrightarrow> unat b \<le> hi \<Longrightarrow> unat b \<le> unat a + 2 ^ k \<Longrightarrow>
    \<exists>y i. binarySearch_n (Suc k) E chain t a b x = (y, Inr i) \<and> switch_found E cfg chain t i"
proof (induction k arbitrary: a b x)
  case (0 a b x)
  show ?case by (rule finds_turn [OF assms 0(1-5)]) (use 0 in auto)
next
  case (Suc k)
  show ?case by (rule finds_turn [OF assms Suc.prems(1-5)], rule Suc.IH) (use Suc.prems in auto)
qed

text \<open>
  C29: the binary search for the first block of an epoch ends: on a chain whose headers carry their
  numbers its 65 turns are never used up, for block numbers below 2^63.
\<close>

theorem binary_search_terminates:
  assumes "numbered chain" and "unat stop < 2 ^ 63"
  shows "snd (binarySearchBlockByEpochNumber E chain t start stop x) \<noteq> Inl OutOfFuel"
  using binarySearch_fuelled [OF assms, of start 64] assms(2) by (simp add: binarySearchBlockByEpochNumber_def)

theorem binary_search_terminates_witness:
  "snd (binarySearchBlockByEpochNumber sample_env
     (sample_chain\<lparr>GetHeaderByNumber := (\<lambda>n. if n = 900 then Some sample_switch_block else None)\<rparr>)
     1 900 902 sample_engine) \<noteq> Inl OutOfFuel"
  by (rule binary_search_terminates) (auto simp: numbered_def)


definition two_blocks :: ChainReader where
  "two_blocks = sample_chain\<lparr>GetHeaderByNumber :=
     (\<lambda>n. if n = 900 then Some sample_switch_block else if n = 901 then Some next_block else None)\<rparr>"

lemma two_blocks_range: "epoch_range sample_config two_blocks 1 900 900 902"
proof -
  have e: "Epoch sample_config = 900" by (simp add: sample_config_def)
  have s: "switch_result sample_config sample_switch_block = Inr (True, 1)"
    by (simp add: switch_result_def sample_switch big_Uint64_def) (simp add: sample_config_def)
  have "bi_Number (qc_ProposedBlockInfo (sample_qc 100 0 900)) = 900" by (simp add: sample_qc_def)
  then have n: "switch_result sample_config next_block = Inr (True, 1)"
    by (simp add: switch_result_def sample_switch next_masternodes) (simp add: sample_config_def)
  show ?thesis
    unfolding epoch_range_def
  proof (intro allI impI)
    fix k :: nat assume "900 \<le> k \<and> k < 902"
    then consider "k = 900" | "k = 901" by linarith
    then show "\<exists>h sw ep q rd ms. GetHeaderByNumber two_blocks (of_nat k) = Some h \<and> switch_result sample_config h = Inr (sw, ep)
        \<and> getExtraFields sample_config h = Inr (q, rd, ms) \<and> (ep < 1 \<longleftrightarrow> k < 900) \<and> (k = 900 \<longrightarrow> sw \<and> ep = 1)
        \<and> (ep = 1 \<longrightarrow> k \<le> 900 + unat (rd mod Epoch sample_config) \<and> unat (rd mod Epoch sample_config) \<le> k)"
    proof cases
      case 1
      then show ?thesis
        by (intro exI [of _ sample_switch_block] exI [of _ True] exI [of _ 1] exI [of _ None] exI [of _ 0] exI [of _ "[5]"])
          (simp add: two_blocks_def s switch_masternodes)
    next
      case 2
      then show ?thesis
        by (intro exI [of _ next_block] exI [of _ True] exI [of _ 1] exI [of _ "Some (sample_qc 100 0 900)"] exI [of _ 1] exI [of _ "[5]"])
          (simp add: two_blocks_def n next_masternodes e)
    qed
  qed
qed


text \<open>
  C31: the shortcut of the binary search subtracts the round within the epoch from the block number
  without a check. A block of the target epoch whose number is smaller, on a chain that switched to
  version 2 at its beginning, makes the subtraction wrap and the search fail, whatever lies before.
\<close>

theorem binary_search_underflow:
  assumes "numbered chain" and "start < stop" and "unat stop < 2 ^ 63"
    and "GetHeaderByNumber chain ((start + stop) div 2) = Some h"
    and "switch_result (config x) h = Inr (False, t)" and "getExtraFields (config x) h = Inr (q, rnd, ms)"
    and "Number h < int (unat (rnd mod Epoch (config x)))"
  shows "snd (binarySearchBlockByEpochNumber E chain t start stop x) = Inl no_epoch_switch"
proof -
  let ?m = "(start + stop) div 2" and ?d = "rnd mod Epoch (config x)"
  have m: "unat ?m = (unat start + unat stop) div 2" by (rule unat_middle [OF assms(2,3)])
  have d: "?m < ?d" using assms(1,4,7) by (simp add: numbered_def word_less_def)
  have "unat (?m - ?d) = unat ?m + 2 ^ 64 - unat ?d"
    using d by (simp add: unat_sub_if_size word_size word_less_nat_alt)
  moreover have "unat ?d \<le> 2 ^ 64" by (rule less_imp_le) simp
  ultimately have "?m \<le> ?m - ?d" unfolding word_le_nat_alt by linarith
  obtain y where i: "IsEpochSwitch E h x = (y, Inr (False, t))"
    using IsEpochSwitch_result [of E h x] assms(5) by (cases "IsEpochSwitch E h x") auto
  have c: "config y = config x" using cache_only_fields(1) [OF keepsE [OF IsEpochSwitch_co i]] .
  have "binarySearch_n (Suc 64) E chain t start stop x =
      binarySearch_n 64 E chain t (if start < ?m - ?d then ?m - ?d else start) ?m y"
    using binarySearch_step [OF assms(1,2,4) i, of 64 t] c assms(6) by simp
  moreover have "?m \<le> (if start < ?m - ?d then ?m - ?d else start)" using \<open>?m \<le> ?m - ?d\<close> by auto
  ultimately show ?thesis by (simp add: binarySearchBlockByEpochNumber_def binarySearch_end)
qed

definition early_config :: BRDPoSConfig where
  "early_config = sample_config\<lparr>cfg_V2 := (cfg_V2 sample_config)\<lparr>SwitchEpoch := 0, SwitchBlock := 0\<rparr>\<rparr>"

theorem binary_search_underflow_witness:
  "snd (binarySearchBlockByEpochNumber sample_env
     (sample_chain\<lparr>GetHeaderByNumber := (\<lambda>n. if n = 5 then Some (sample_block 5 4 800 (sample_qc 4 799 4)) else None)\<rparr>)
     0 3 8 (sample_engine\<lparr>config := early_config\<rparr>)) = Inl no_epoch_switch"
proof (rule binary_search_underflow)
  have x: "getExtraFields early_config (sample_block 5 4 800 (sample_qc 4 799 4)) = Inr (Some (sample_qc 4 799 4), 800, [])"
    by (simp add: getExtraFields_def early_config_def sample_extra_decodes GetMasternodesFromEpochSwitchHeader_def addresses_at_def)
  then show "getExtraFields (config (sample_engine\<lparr>config := early_config\<rparr>)) (sample_block 5 4 800 (sample_qc 4 799 4))
      = Inr (Some (sample_qc 4 799 4), 800, [])" by simp
  show "switch_result (config (sample_engine\<lparr>config := early_config\<rparr>)) (sample_block 5 4 800 (sample_qc 4 799 4)) = Inr (False, 0)"
    by (simp add: switch_result_def x) (simp add: early_config_def sample_config_def sample_qc_def)
qed (auto simp: numbered_def early_config_def sample_config_def)

section \<open>Missed rounds\<close>

lemma rounds_from_set: "r \<in> set (rounds_from a b) \<longleftrightarrow> a \<le> r \<and> r < b"
proof
  assume "r \<in> set (rounds_from a b)"
  then obtain n where n: "r = of_nat n" "unat a \<le> n" "n < unat b" by (auto simp: rounds_from_def)
  then have "n < 18446744073709551616" using u64_bound [of b] by linarith
  then have "unat r = n" using n(1) by (simp add: unat_of_nat)
  then show "a \<le> r \<and> r < b" using n by (simp add: word_le_nat_alt word_less_nat_alt)
next
  assume "a \<le> r \<and> r < b"
  then have "unat r \<in> set [unat a ..< unat b]" by (simp add: word_le_nat_alt word_less_nat_alt)
  moreover have "r = of_nat (unat r)" by simp
  ultimately show "r \<in> set (rounds_from a b)" unfolding rounds_from_def set_map by blast
qed

text \<open>The blocks \<open>bs\<close> lead from \<open>h\<close> to its ancestor \<open>z\<close> along the parent hashes.\<close>

inductive descends :: "ChainReader \<Rightarrow> Header \<Rightarrow> Header list \<Rightarrow> Header \<Rightarrow> bool" for chain where
  here: "descends chain h [] h"
| up: "GetHeaderByHash chain (ParentHash h) = Some p \<Longrightarrow> descends chain p bs z \<Longrightarrow> descends chain h (h # bs) z"

definition missed_exactly :: "BRDPoSConfig \<Rightarrow> u64 \<Rightarrow> u64 \<Rightarrow> Header list \<Rightarrow> MissedRoundInfo list \<Rightarrow> bool" where
  "missed_exactly cfg lo hi bs ms \<longleftrightarrow>
    (\<forall>i. i \<in> mr_Round ` set ms \<longleftrightarrow> lo < i \<and> i < hi \<and> (\<forall>b\<in>set bs. GetRoundNumber cfg b \<noteq> Inr i))"

lemma descends_first: "descends chain h bs z \<Longrightarrow> bs = [] \<and> z = h \<or> h \<in> set bs"
  by (cases rule: descends.cases) auto

lemma unat_add_1: "unat (q :: u64) < 18446744073709551615 \<Longrightarrow> unat (q + 1) = unat q + 1"
  by (simp add: unat_word_ariths(1))

lemma missed_step:
  assumes "missed_exactly cfg lo q bs ms" and "descends chain p bs z" and "GetRoundNumber cfg p = Inr q"
    and "GetRoundNumber cfg z = Inr lo" and "q < r" and "lo \<le> q" and "GetRoundNumber cfg h = Inr r"
    and le: "\<forall>b\<in>set bs. \<forall>i. GetRoundNumber cfg b = Inr i \<longrightarrow> i \<le> q"
    and rs: "\<forall>i. i \<in> mr_Round ` set new \<longleftrightarrow> q < i \<and> i < r"
  shows "missed_exactly cfg lo r (h # bs) (new @ ms)"
  unfolding missed_exactly_def
proof
  fix i
  have m: "i \<in> mr_Round ` set ms \<longleftrightarrow> lo < i \<and> i < q \<and> (\<forall>b\<in>set bs. GetRoundNumber cfg b \<noteq> Inr i)"
    using assms(1) by (simp add: missed_exactly_def)
  have p: "i = q \<Longrightarrow> lo < i \<Longrightarrow> \<exists>b\<in>set bs. GetRoundNumber cfg b = Inr i"
    using descends_first [OF assms(2)] assms(3,4) by auto
  have "q < i \<Longrightarrow> \<forall>b\<in>set bs. GetRoundNumber cfg b \<noteq> Inr i" using le by (metis linorder_not_le)
  then show "i \<in> mr_Round ` set (new @ ms) \<longleftrightarrow> lo < i \<and> i < r \<and> (\<forall>b\<in>set (h # bs). GetRoundNumber cfg b \<noteq> Inr i)"
    using m p rs assms(5-7) by (auto simp: image_Un)
qed

lemma missed_between_rounds: "mr_Round ` set (missed_between E cfg ms h p rs) = set rs"
  by (simp add: missed_between_def image_image)

text \<open>The round of a header is larger than its parent's.\<close>

definition rounds_grow :: "BRDPoSConfig \<Rightarrow> ChainReader \<Rightarrow> Header \<Rightarrow> bool" where
  "rounds_grow cfg chain h \<longleftrightarrow>
    (\<forall>p r q. GetHeaderByHash chain (ParentHash h) = Some p \<and> GetRoundNumber cfg h = Inr r
       \<and> GetRoundNumber cfg p = Inr q \<longrightarrow> q < r)"

lemma missed_loop_exact:
  assumes inc: "\<And>k h. GetHeaderByHash chain k = Some h \<Longrightarrow> rounds_grow cfg chain h"
    and "missed_loop fuel E chain cfg info h = Inr ms" and "GetRoundNumber cfg h = Inr r" and "rounds_grow cfg chain h"
  shows "\<exists>bs z q. descends chain h bs z \<and> Number z \<le> bi_Number (es_EpochSwitchBlockInfo info) \<and> GetRoundNumber cfg z = Inr q
    \<and> (\<forall>b\<in>set bs. bi_Number (es_EpochSwitchBlockInfo info) < Number b) \<and> missed_exactly cfg q r bs ms \<and> q \<le> r
    \<and> (\<forall>b\<in>set bs. \<forall>i. GetRoundNumber cfg b = Inr i \<longrightarrow> i \<le> r)"
  using assms(2-4)
proof (induction fuel arbitrary: h ms r)
  case (0 h ms r)
  then have "Number h \<le> bi_Number (es_EpochSwitchBlockInfo info)" "ms = []"
    by (simp_all add: missed_loop.simps [of 0] split: if_splits)
  then show ?case using 0(2) by (intro exI [of _ "[]"] exI [of _ h] exI [of _ r]) (auto simp: here missed_exactly_def)
next
  case (Suc n h ms r)
  show ?case
  proof (cases "Number h \<le> bi_Number (es_EpochSwitchBlockInfo info)")
    case True
    then have "ms = []" using Suc(2) by (simp add: missed_loop.simps [of "Suc n"])
    then show ?thesis using Suc(3) True
      by (intro exI [of _ "[]"] exI [of _ h] exI [of _ r]) (auto simp: here missed_exactly_def)
  next
    case False
    then obtain p q ms' where p: "GetHeaderByHash chain (ParentHash h) = Some p" "GetRoundNumber cfg p = Inr q"
        "missed_loop n E chain cfg info p = Inr ms'"
        "ms = missed_between E cfg (es_Masternodes info) h p (if q + 1 \<noteq> r then rounds_from (q + 1) r else []) @ ms'"
      using Suc(2,3) by (auto simp: missed_loop.simps [of "Suc n"] Let_def split: option.splits sum.splits if_splits)
    have lt: "q < r" using Suc(4) p(1,2) Suc(3) unfolding rounds_grow_def by blast
    then have "unat (q + 1) = unat q + 1" using u64_bound [of r] unfolding word_less_nat_alt by (intro unat_add_1) linarith
    then have iff: "q + 1 \<le> i \<longleftrightarrow> q < i" for i by (simp add: word_le_nat_alt word_less_nat_alt Suc_le_eq)
    have rs: "\<forall>i. i \<in> mr_Round ` set (missed_between E cfg (es_Masternodes info) h p
        (if q + 1 \<noteq> r then rounds_from (q + 1) r else [])) \<longleftrightarrow> q < i \<and> i < r"
    proof (cases "q + 1 = r")
      case True
      have "\<not> (q < i \<and> i < r)" for i using iff [of i] unfolding True by (metis leD)
      then show ?thesis using True by (simp add: missed_between_rounds)
    next
      case False
      then show ?thesis by (simp add: missed_between_rounds rounds_from_set iff)
    qed
    from Suc(1) [OF p(3,2) inc [OF p(1)]] obtain bs z lo where b: "descends chain p bs z" "Number z \<le> bi_Number (es_EpochSwitchBlockInfo info)"
        "GetRoundNumber cfg z = Inr lo" "\<forall>b\<in>set bs. bi_Number (es_EpochSwitchBlockInfo info) < Number b"
        "missed_exactly cfg lo q bs ms'" "lo \<le> q" "\<forall>b\<in>set bs. \<forall>i. GetRoundNumber cfg b = Inr i \<longrightarrow> i \<le> q" by blast
    from missed_step [OF b(5,1) p(2) b(3) lt b(6) Suc(3) b(7) rs] p(4)
    have "missed_exactly cfg lo r (h # bs) ms" by simp
    then show ?thesis
      using b False lt Suc(3) up [OF p(1) b(1)]
      by (intro exI [of _ "h # bs"] exI [of _ z] exI [of _ lo]) (auto intro: less_imp_le order_trans)
  qed
qed

lemma missed_loop_fuelled:
  assumes "chain_ok E chain" and "nat (Number h - bi_Number (es_EpochSwitchBlockInfo info)) \<le> fuel"
    and "\<forall>p. GetHeaderByHash chain (ParentHash h) = Some p \<longrightarrow> Number h = Number p + 1"
  shows "missed_loop fuel E chain cfg info h \<noteq> Inl OutOfFuel"
  using assms(2,3)
proof (induction fuel arbitrary: h)
  case 0
  then show ?case by (simp add: missed_loop.simps [of 0])
next
  case (Suc n)
  have r: "GetRoundNumber cfg k \<noteq> Inl OutOfFuel" for k
    by (auto simp: GetRoundNumber_def DecodeBytesExtraFields_def split: sum.splits list.splits option.splits if_splits)
  have "missed_loop n E chain cfg info p \<noteq> Inl OutOfFuel" if "GetHeaderByHash chain (ParentHash h) = Some p" for p
    using that Suc(2,3) chain_okD(3) [OF assms(1) that] by (intro Suc(1)) auto
  then show ?case
    using r by (auto simp: missed_loop.simps [of "Suc n"] Let_def split: option.splits sum.splits)
qed

text \<open>
  C32: the report of the missed rounds of an epoch ends, and on a chain whose rounds grow from parent to
  child it lists exactly the rounds between the epoch's first block and the given block in which
  no block of the path between them was produced.
\<close>

theorem missing_rounds_exact:
  assumes "chain_ok E chain" and "0 \<le> Number header"
    and "\<And>p. GetHeaderByHash chain (ParentHash header) = Some p \<Longrightarrow> Number header = Number p + 1"
    and "CalculateMissingRounds E chain header x = (y, result)"
  shows "result \<noteq> Inl OutOfFuel \<and>
    (\<forall>epochRound epochNumber ms r. result = Inr (epochRound, epochNumber, ms) \<and> GetRoundNumber (config x) header = Inr r
      \<and> rounds_grow (config x) chain header
      \<and> (\<forall>k h. GetHeaderByHash chain k = Some h \<longrightarrow> rounds_grow (config x) chain h) \<longrightarrow>
      (\<exists>bs z q. descends chain header bs z \<and> Number z \<le> epochNumber \<and> GetRoundNumber (config x) z = Inr q
        \<and> (\<forall>b\<in>set bs. epochNumber < Number b) \<and> missed_exactly (config x) q r bs ms))"
proof -
  obtain ri x1 where i: "getEpochSwitchInfo E chain (Some header) (Header_Hash (keccak E) header) x = (x1, ri)" by fastforce
  have c: "config x1 = config x" using cache_only_fields(1) [OF getEpochSwitchInfo_fields [OF i]] .
  have "fuelled (getEpochSwitchInfo E chain (Some header) (Header_Hash (keccak E) header))"
    using getEpochSwitchInfo_fuelled [OF assms(1)] assms(2,3) by blast
  then have "ri \<noteq> Inl OutOfFuel" using i by (metis fuelledD snd_conv)
  moreover have "missed_loop (nat (Number header - bi_Number (es_EpochSwitchBlockInfo info))) E chain (config x) info header \<noteq> Inl OutOfFuel"
    for info using missed_loop_fuelled [OF assms(1) order_refl] assms(3) by blast
  moreover have "result = Inl e \<Longrightarrow> ri = Inl e \<or> (\<exists>info. missed_loop (nat (Number header - bi_Number (es_EpochSwitchBlockInfo info)))
      E chain (config x) info header = Inl e)" for e
    using assms(4) i c by (auto simp: CalculateMissingRounds_def comp_simps split: prod.splits sum.splits)
  ultimately have "result \<noteq> Inl OutOfFuel" by blast
  moreover have "\<exists>info. missed_loop (nat (Number header - bi_Number (es_EpochSwitchBlockInfo info))) E chain (config x) info header = Inr ms
      \<and> n = bi_Number (es_EpochSwitchBlockInfo info)" if "result = Inr (e, n, ms)" for e n ms
    using assms(4) i c that by (auto simp: CalculateMissingRounds_def comp_simps split: prod.splits sum.splits)
  ultimately show ?thesis using missed_loop_exact [of chain "config x" _ E _ header] by (metis (no_types, lifting))
qed

definition late_block :: Header where
  "late_block = sample_block 902 5 4 (sample_qc 5 1 901)"

lemma late_block_fields: "Number late_block = 902" "ParentHash late_block = 5"
    "getExtraFields sample_config late_block = Inr (Some (sample_qc 5 1 901), 4, [])"
    "GetRoundNumber sample_config late_block = Inr 4" "GetRoundNumber sample_config next_block = Inr 1"
  by (simp_all add: late_block_def sample_block_extra GetRoundNumber_def sample_switch sample_extra_decodes)
    (simp add: next_block_def sample_extra_decodes)

lemma late_block_missed:
  "\<exists>y ms. CalculateMissingRounds sample_env next_chain late_block sample_engine = (y, Inr (1, 901, ms))"
proof -
  have g: "epochSwitches_Get 5 sample_engine = (sample_engine, Inr None)"
    by (simp add: epochSwitches_Get_def lru_Get_def sample_engine_def NewBasicLRU_def)
  have q: "qc_ProposedBlockInfo (sample_qc 5 1 901) = \<lparr>bi_Hash = 5, bi_Round = 1, bi_Number = 901\<rparr>" by (simp add: sample_qc_def)
  have e: "Epoch sample_config = 900" "SwitchEpoch (cfg_V2 sample_config) = 1" by (simp_all add: sample_config_def)
  have i: "IsEpochSwitch sample_env late_block sample_engine = (sample_engine, Inr (False, 1))"
    by (simp add: IsEpochSwitch_def comp_simps sample_switch late_block_fields q e Let_def)
  have f: "epoch_fuel next_chain (Some late_block) 5 = Suc 903" "epoch_fuel next_chain None 5 = 903"
    by (simp_all add: epoch_fuel_def late_block_fields)
  obtain y where y: "getEpochSwitchInfo_n 903 sample_env next_chain None 5 sample_engine = (y, Inr next_block_info)"
    using next_epoch_info [OF fresh_engine, of None] f(2) by (auto simp: getEpochSwitchInfo_def)
  have c: "config y = sample_config" using cache_only_fields(1) [OF keepsE [OF getEpochSwitchInfo_n_co y]] by (simp add: sample_switch)
  have "\<exists>z. getEpochSwitchInfo sample_env next_chain (Some late_block) 5 sample_engine = (z, Inr next_block_info) \<and> config z = sample_config"
    using g i y c by (simp only: getEpochSwitchInfo_def f getEpochSwitchInfo_n.simps)
      (simp add: comp_simps late_block_fields epochSwitches_Add_def)
  then obtain z where z: "getEpochSwitchInfo sample_env next_chain (Some late_block) 5 sample_engine = (z, Inr next_block_info)"
    "config z = sample_config" by blast
  show ?thesis
    using z by (simp add: CalculateMissingRounds_def comp_simps next_block_info_def late_block_fields
        missed_loop.simps [of "Suc 0"] missed_loop.simps [of 0] Let_def)
qed

theorem missing_rounds_exact_witness:
  "\<exists>y ms bs z q. CalculateMissingRounds sample_env next_chain late_block sample_engine = (y, Inr (1, 901, ms))
    \<and> descends next_chain late_block bs z \<and> Number z \<le> 901 \<and> missed_exactly sample_config q 4 bs ms"
proof -
  obtain y ms where r: "CalculateMissingRounds sample_env next_chain late_block sample_engine = (y, Inr (1, 901, ms))"
    using late_block_missed by blast
  have "rounds_grow sample_config next_chain late_block"
    "\<forall>k h. GetHeaderByHash next_chain k = Some h \<longrightarrow> rounds_grow sample_config next_chain h"
    by (auto simp: rounds_grow_def late_block_fields split: if_splits)
  with missing_rounds_exact [OF next_chain_ok _ _ r] late_block_fields
  have "\<exists>bs z q. descends next_chain late_block bs z \<and> Number z \<le> 901 \<and> missed_exactly sample_config q 4 bs ms"
    by (fastforce simp: sample_switch split: if_splits)
  then show ?thesis using r by blast
qed

end
