(* ===== verification/Engine_Vote.thy ===== *)
theory Engine_Vote
  imports Engine_QC
begin

text \<open>
  Votes (\<^verbatim>\<open>vote.go\<close>): the voting rule, sending a vote, and collecting votes until they make a
  quorum certificate. The goroutines \<^verbatim>\<open>DetectEquivocationInVotePool\<close> and
  \<^verbatim>\<open>ProcessVoteEquivocation\<close> that \<^verbatim>\<open>voteHandler\<close> starts return at once.
\<close>

section \<open>Collecting votes\<close>

definition votePool_Add :: "env \<Rightarrow> Vote \<Rightarrow> (nat \<times> (hash \<times> Vote) list) eng" where
  "votePool_Add E voteMsg =
    (\<lambda>x. case pool_Add Vote_PoolKey (Vote_Hash (keccak E)) voteMsg (votePool x) of
       (p, n, pooledVotes) \<Rightarrow> (x\<lparr>votePool := p\<rparr>, Inr (n, pooledVotes)))"

text \<open>
  What the goroutine of one vote in \<^verbatim>\<open>verifyVotes\<close> does to the vote: a signer found earlier is kept
  only if it is one of the masternodes, otherwise the signature is verified.
\<close>

definition checked_vote :: "env \<Rightarrow> address list \<Rightarrow> Vote \<Rightarrow> error + Vote" where
  "checked_vote E masternodes v =
    (if vote_signer v \<noteq> 0
     then Inr (if vote_signer v \<in> set masternodes then v else v\<lparr>vote_signer := 0\<rparr>)
     else (case verifyMsgSignature E
                  (VoteSigHash (keccak E) \<lparr>vs_ProposedBlockInfo = vote_ProposedBlockInfo v,
                                           vs_GapNumber = vote_GapNumber v\<rparr>)
                  (vote_Signature v) masternodes of
             Inl err \<Rightarrow> if err = Panic then Inl Panic else Inr v
           | Inr (verified, masterNode) \<Rightarrow> Inr (if verified then v\<lparr>vote_signer := masterNode\<rparr> else v)))"

text \<open>
  The votes are pointers that the pool's group \<open>poolKey\<close> holds as well: \<^verbatim>\<open>SetSigner\<close> changes
  them there.
\<close>

definition verifyVotes :: "env \<Rightarrow> ChainReader \<Rightarrow> string \<Rightarrow> (hash \<times> Vote) list \<Rightarrow> Header \<Rightarrow> (hash \<times> Vote) list eng" where
  "verifyVotes E chain poolKey votes h =
    bindE (GetMasternodes E chain h) (\<lambda>masternodes.
      if Inl Panic \<in> set (map (\<lambda>(_, v). checked_vote E masternodes v) votes) then fail Panic
      else let votes' = map (\<lambda>(k, v). (k, projr (checked_vote E masternodes v))) votes
           in thenE (modify (\<lambda>x. x\<lparr>votePool := AList.update poolKey votes' (votePool x)\<rparr>)) (ok votes'))"

definition onVotePoolThresholdReached ::
  "env \<Rightarrow> ChainReader \<Rightarrow> (hash \<times> Vote) list \<Rightarrow> Vote \<Rightarrow> unit eng" where
  "onVotePoolThresholdReached E chain pooledVotes currentVoteMsg =
    (let validSignatures = map (\<lambda>(_, v). vote_Signature v) (filter (\<lambda>(_, v). vote_signer v \<noteq> 0) pooledVotes)
     in handleE (getEpochSwitchInfo E chain None (bi_Hash (vote_ProposedBlockInfo currentVoteMsg))) (\<lambda>r. case r of
          Inl _ \<Rightarrow> fail (Errorf ''fail on voteHandler due to failure in getting epoch switch info'')
        | Inr epochInfo \<Rightarrow>
            reads config (\<lambda>cfg.
              case V2_Config (cfg_V2 cfg) (bi_Round (vote_ProposedBlockInfo currentVoteMsg)) of
                None \<Rightarrow> fail Panic
              | Some c \<Rightarrow>
                  if below_threshold (length validSignatures) (es_MasternodesLen epochInfo) (CertThreshold c) then ok ()
                  else processQC E chain
                    \<lparr>qc_ProposedBlockInfo = vote_ProposedBlockInfo currentVoteMsg,
                     qc_Signatures = validSignatures, qc_GapNumber = vote_GapNumber currentVoteMsg\<rparr>)))"

definition voteHandler :: "env \<Rightarrow> ChainReader \<Rightarrow> Vote \<Rightarrow> unit eng" where
  "voteHandler E chain voteMsg =
    (let b = vote_ProposedBlockInfo voteMsg
     in reads currentRound (\<lambda>rnd.
       if bi_Round b \<noteq> rnd \<and> bi_Round b \<noteq> rnd + 1
       then fail (ErrIncomingMessageRoundTooFarFromCurrentRound ''vote'' (bi_Round b) rnd)
       else thenE (modify (\<lambda>x. if votePoolCollectionTime x = None then x\<lparr>votePoolCollectionTime := Some (now E)\<rparr> else x))
        (bindE (votePool_Add E voteMsg) (\<lambda>(numberOfVotesInPool, pooledVotes).
          handleE (getEpochSwitchInfo E chain None (bi_Hash b)) (\<lambda>r. case r of
            Inl err \<Rightarrow> fail (ErrIncomingMessageBlockNotFound ''vote'' (bi_Hash b) (bi_Number b) err)
          | Inr epochInfo \<Rightarrow>
              reads config (\<lambda>cfg. case V2_Config (cfg_V2 cfg) (bi_Round b) of
                None \<Rightarrow> fail Panic
              | Some c \<Rightarrow>
                  if below_threshold numberOfVotesInPool (es_MasternodesLen epochInfo) (CertThreshold c) then ok ()
                  else (case GetHeaderByHash chain (bi_Hash b) of
                    None \<Rightarrow> ok ()
                  | Some proposedBlockHeader \<Rightarrow>
                      thenE (liftE (VerifyBlockInfo E cfg chain b None))
                      (bindE (verifyVotes E chain (Vote_PoolKey voteMsg) pooledVotes proposedBlockHeader) (\<lambda>votes.
                        thenE (onVotePoolThresholdReached E chain votes voteMsg)
                        (modify (\<lambda>x. x\<lparr>votePoolCollectionTime := None\<rparr>))))))))))) "

definition hygieneVotePool :: "unit eng" where
  "hygieneVotePool = modify (\<lambda>x. x\<lparr>votePool := hygienePool (currentRound x) (votePool x)\<rparr>)"

section \<open>Voting\<close>

text \<open>The hash \<open>n\<close> parents up, when all the headers on the way are in the chain.\<close>

fun ancestor_hash :: "nat \<Rightarrow> ChainReader \<Rightarrow> hash \<Rightarrow> hash option" where
  "ancestor_hash 0 chain nextBlockHash = Some nextBlockHash"
| "ancestor_hash (Suc n) chain nextBlockHash =
    (case GetHeaderByHash chain nextBlockHash of
       None \<Rightarrow> None
     | Some parentBlock \<Rightarrow> ancestor_hash n chain (ParentHash parentBlock))"

definition isExtendingFromAncestor :: "ChainReader \<Rightarrow> BlockInfo \<Rightarrow> BlockInfo \<Rightarrow> error + bool" where
  "isExtendingFromAncestor chain currentBlock ancestorBlock =
    (let blockNumDiff = big_Int64 (bi_Number currentBlock - bi_Number ancestorBlock)
     in case ancestor_hash (nat blockNumDiff) chain (bi_Hash currentBlock) of
          None \<Rightarrow> Inl (Errorf ''could not find its parent block when checking whether currentBlock is extending from the ancestorBlock'')
        | Some h \<Rightarrow> Inr (h = bi_Hash ancestorBlock))"

definition verifyVotingRule :: "ChainReader \<Rightarrow> BlockInfo \<Rightarrow> QuorumCert option \<Rightarrow> bool eng" where
  "verifyVotingRule chain blockInfo quorumCert =
    (\<lambda>x. (x,
      if currentRound x \<le> highestVotedRound x then Inr False
      else if bi_Round blockInfo \<noteq> currentRound x then Inr False
      else (case lockQuorumCert x of
        None \<Rightarrow> Inr True
      | Some l \<Rightarrow>
          (case quorumCert of
             None \<Rightarrow> Inl Panic
           | Some qc \<Rightarrow>
               if bi_Round (qc_ProposedBlockInfo l) < bi_Round (qc_ProposedBlockInfo qc) then Inr True
               else isExtendingFromAncestor chain blockInfo (qc_ProposedBlockInfo l)))))"

definition sendVote :: "env \<Rightarrow> ChainReader \<Rightarrow> BlockInfo \<Rightarrow> unit eng" where
  "sendVote E chain blockInfo =
    bindE (getEpochSwitchInfo E chain None (bi_Hash blockInfo)) (\<lambda>epochSwitchInfo.
      reads config (\<lambda>cfg.
        let gapNumber = gap_number cfg (big_Uint64 (bi_Number (es_EpochSwitchBlockInfo epochSwitchInfo)))
        in bindE (signSignature (VoteSigHash (keccak E) \<lparr>vs_ProposedBlockInfo = blockInfo, vs_GapNumber = gapNumber\<rparr>))
          (\<lambda>signedHash.
            let voteMsg = \<lparr>vote_signer = 0, vote_ProposedBlockInfo = blockInfo,
                           vote_Signature = signedHash, vote_GapNumber = gapNumber\<rparr>
            in thenE (modify (\<lambda>x. x\<lparr>highestVotedRound := currentRound x\<rparr>))
                (thenE (voteHandler E chain voteMsg)
                  (broadcastToBftChannel (MVote voteMsg))))))"

section \<open>What the handlers keep\<close>

definition vote_frame :: "BRDPoS_v2 \<Rightarrow> BRDPoS_v2 \<Rightarrow> bool" where
  "vote_frame x y \<longleftrightarrow> config y = config x \<and> db y = db x \<and> signer y = signer x \<and> signFn y = signFn x
     \<and> broadcasts y = broadcasts x \<and> highestVotedRound y = highestVotedRound x
     \<and> highestSelfMinedRound y = highestSelfMinedRound x \<and> highestTimeoutCert y = highestTimeoutCert x
     \<and> isInitilised y = isInitilised x"

interpretation vof: step_rel vote_frame
  by unfold_locales (auto simp: vote_frame_def)

lemma co_vote_frame: "keeps cache_only m \<Longrightarrow> keeps vote_frame m"
  by (auto simp: keeps_def vote_frame_def cache_only_fields)

lemma processQC_vote_frame: "keeps vote_frame (processQC E chain qc)"
proof -
  have c: "keeps vote_frame (commitBlocks E chain h r q)" for h r q
    unfolding commitBlocks_def by (intro vof.keeps_rules) (simp add: vote_frame_def)
  have l: "keeps vote_frame (update_lockQC q)" for q
    unfolding update_lockQC_def by (intro vof.keeps_rules) (simp_all add: vote_frame_def)
  show ?thesis
    unfolding processQC_def
    by (intro vof.keeps_rules c l) (simp_all add: vote_frame_def update_highestQC_def setNewRound_def)
qed

lemma votePool_Add_frame: "keeps vote_frame (votePool_Add E v)"
  by (rule keepsI) (simp add: votePool_Add_def vote_frame_def split: prod.splits)

lemma votePool_Add_cert: "keeps cert_order (votePool_Add E v)"
  by (rule keepsI) (simp add: votePool_Add_def cert_order_def split: prod.splits)

lemma voteHandler_frame: "keeps vote_frame (voteHandler E chain v)"
  unfolding voteHandler_def verifyVotes_def onVotePoolThresholdReached_def
  by (intro vof.keeps_rules votePool_Add_frame processQC_vote_frame
      getEpochSwitchInfo_co [THEN co_vote_frame] GetMasternodes_co [THEN co_vote_frame])
    (simp_all add: vote_frame_def)

lemma voteHandler_cert: "keeps cert_order (voteHandler E chain v)"
  unfolding voteHandler_def verifyVotes_def onVotePoolThresholdReached_def
  by (intro cert.keeps_rules votePool_Add_cert processQC_cert
      getEpochSwitchInfo_co [THEN co_cert] GetMasternodes_co [THEN co_cert])
    (simp_all add: cert_order_def)

lemma sendVote_cert: "keeps cert_order (sendVote E chain b)"
  unfolding sendVote_def broadcastToBftChannel_def
  by (intro cert.keeps_rules voteHandler_cert getEpochSwitchInfo_co [THEN co_cert] signSignature_co [THEN co_cert])
    (simp_all add: cert_order_def)

section \<open>The certificate made of the votes\<close>

abbreviation vote_payload :: "env \<Rightarrow> Vote \<Rightarrow> hash" where
  "vote_payload E v \<equiv> VoteSigHash (keccak E)
    \<lparr>vs_ProposedBlockInfo = vote_ProposedBlockInfo v, vs_GapNumber = vote_GapNumber v\<rparr>"

text \<open>A signer is only ever recorded in a vote when it is the one its signature recovers to.\<close>

definition vote_ok :: "env \<Rightarrow> Vote \<Rightarrow> bool" where
  "vote_ok E v \<longleftrightarrow> (vote_signer v \<noteq> 0 \<longrightarrow> signed_by E (vote_payload E v) (vote_Signature v) (vote_signer v))"

definition votePool_ok :: "env \<Rightarrow> Vote pool \<Rightarrow> bool" where
  "votePool_ok E p \<longleftrightarrow> pool_inv Vote_PoolKey (Vote_Hash (keccak E)) p
     \<and> (\<forall>(k, m)\<in>set p. \<forall>(h, v)\<in>set m. vote_ok E v)"

definition group_ok :: "env \<Rightarrow> Vote \<Rightarrow> (hash \<times> Vote) list \<Rightarrow> bool" where
  "group_ok E v votes \<longleftrightarrow> distinct (map fst votes)
     \<and> (\<forall>(h, w)\<in>set votes. Vote_Hash (keccak E) w = h \<and> Vote_PoolKey w = Vote_PoolKey v \<and> vote_ok E w)"

lemma Vote_Hash_signer [simp]: "Vote_Hash K (v\<lparr>vote_signer := a\<rparr>) = Vote_Hash K v"
  by (simp add: Vote_Hash_def val_Vote_def)

lemma Vote_PoolKey_signer [simp]: "Vote_PoolKey (v\<lparr>vote_signer := a\<rparr>) = Vote_PoolKey v"
  by (simp add: Vote_PoolKey_def)

lemma checked_vote_Inr:
  assumes "vote_ok E v" and "checked_vote E ms v = Inr w"
  shows "\<exists>a. w = v\<lparr>vote_signer := a\<rparr> \<and> (a \<noteq> 0 \<longrightarrow> a \<in> set ms \<and> signed_by E (vote_payload E v) (vote_Signature v) a)"
proof (cases "vote_signer v = 0")
  case True
  show ?thesis
  proof (cases "verifyMsgSignature E (vote_payload E v) (vote_Signature v) ms")
    case (Inl e)
    then have "w = v\<lparr>vote_signer := 0\<rparr>" using assms(2) True by (auto simp: checked_vote_def split: if_splits)
    then show ?thesis by blast
  next
    case (Inr r)
    obtain b a where r: "r = (b, a)" by (cases r)
    show ?thesis
    proof (cases b)
      case True
      then have "w = v\<lparr>vote_signer := a\<rparr>" using assms(2) \<open>vote_signer v = 0\<close> Inr r by (auto simp: checked_vote_def)
      then show ?thesis using verifyMsgSignature_Inr [OF Inr [unfolded r]] True by blast
    next
      case False
      then have "w = v\<lparr>vote_signer := 0\<rparr>" using assms(2) \<open>vote_signer v = 0\<close> Inr r by (auto simp: checked_vote_def)
      then show ?thesis by blast
    qed
  qed
next
  case False
  then have w: "w = v\<lparr>vote_signer := (if vote_signer v \<in> set ms then vote_signer v else 0)\<rparr>"
    using assms(2) by (auto simp: checked_vote_def)
  show ?thesis unfolding w using assms(1) False by (intro exI [of _ "if vote_signer v \<in> set ms then vote_signer v else 0"])
      (simp add: vote_ok_def)
qed

lemma checked_vote_cases: "checked_vote E ms v = Inl e \<Longrightarrow> e = Panic"
  by (auto simp: checked_vote_def split: if_splits sum.splits prod.splits)

lemma checked_group:
  assumes "group_ok E v votes" and "Inl Panic \<notin> set (map (\<lambda>(_, v). checked_vote E ms v) votes)"
  shows "group_ok E v (map (\<lambda>(k, v). (k, projr (checked_vote E ms v))) votes)"
    and "(h, w) \<in> set (map (\<lambda>(k, v). (k, projr (checked_vote E ms v))) votes) \<Longrightarrow> vote_signer w \<noteq> 0 \<Longrightarrow>
      vote_signer w \<in> set ms"
proof -
  have *: "\<exists>a. projr (checked_vote E ms u) = u\<lparr>vote_signer := a\<rparr> \<and> (a \<noteq> 0 \<longrightarrow> a \<in> set ms \<and> signed_by E (vote_payload E u) (vote_Signature u) a)"
    if "(k, u) \<in> set votes" for k u
  proof (cases "checked_vote E ms u")
    case (Inl e)
    then have "Inl Panic \<in> set (map (\<lambda>(_, v). checked_vote E ms v) votes)"
      using checked_vote_cases [OF Inl] that by (force simp: image_iff)
    then show ?thesis using assms(2) by blast
  next
    case (Inr u')
    moreover have "vote_ok E u" using assms(1) that by (auto simp: group_ok_def)
    ultimately show ?thesis using checked_vote_Inr by fastforce
  qed
  show "group_ok E v (map (\<lambda>(k, v). (k, projr (checked_vote E ms v))) votes)"
    unfolding group_ok_def
  proof (intro conjI ballI)
    show "distinct (map fst (map (\<lambda>(k, v). (k, projr (checked_vote E ms v))) votes))"
      using assms(1) by (simp add: group_ok_def o_def case_prod_beta)
    fix y assume "y \<in> set (map (\<lambda>(k, v). (k, projr (checked_vote E ms v))) votes)"
    then obtain k u where "(k, u) \<in> set votes" "y = (k, projr (checked_vote E ms u))" by auto
    with * [of k u] assms(1) show "case y of (h, w) \<Rightarrow> Vote_Hash (keccak E) w = h \<and> Vote_PoolKey w = Vote_PoolKey v \<and> vote_ok E w"
      by (auto simp: group_ok_def vote_ok_def)
  qed
  show "vote_signer w \<in> set ms"
    if "(h, w) \<in> set (map (\<lambda>(k, v). (k, projr (checked_vote E ms v))) votes)" and "vote_signer w \<noteq> 0"
  proof -
    from that obtain k u where "(k, u) \<in> set votes" "w = projr (checked_vote E ms u)" by auto
    with * [of k u] that(2) show ?thesis by auto
  qed
qed

text \<open>The votes of a group differ in their signatures, for everything else is in the key.\<close>

lemma group_signatures_distinct:
  assumes "group_ok E v votes"
  shows "distinct (map (\<lambda>(_, w). vote_Signature w) votes)"
proof -
  have "a = b" if "a \<in> set votes" "b \<in> set votes" "vote_Signature (snd a) = vote_Signature (snd b)" for a b
  proof -
    have k: "Vote_PoolKey (snd a) = Vote_PoolKey (snd b)" and h: "fst a = Vote_Hash (keccak E) (snd a)" "fst b = Vote_Hash (keccak E) (snd b)"
      using assms that by (auto simp: group_ok_def split_beta)
    have "Vote_Hash (keccak E) (snd a) = Vote_Hash (keccak E) (snd b)"
      using Vote_PoolKey_inj [OF k] that(3) by (simp add: Vote_Hash_def val_Vote_def)
    then have "fst a = fst b" using h by simp
    moreover have "inj_on fst (set votes)" using assms by (simp add: group_ok_def distinct_map)
    ultimately show ?thesis using that by (blast dest: inj_onD)
  qed
  moreover have "distinct votes" using assms by (simp add: group_ok_def distinct_map)
  ultimately show ?thesis by (auto simp: distinct_map inj_on_def split_beta)
qed

lemma getEpochSwitchInfo_hit:
  assumes "lru_Peek (epochSwitches x) hsh = Some info"
  shows "\<exists>y. getEpochSwitchInfo E chain header hsh x = (y, Inr info) \<and> cache_only x y
    \<and> lru_Peek (epochSwitches y) hsh = Some info"
proof -
  have "epoch_fuel chain header hsh \<noteq> 0" by (auto simp: epoch_fuel_def split: option.splits)
  then obtain m where m: "epoch_fuel chain header hsh = Suc m" by (cases "epoch_fuel chain header hsh") auto
  let ?y = "x\<lparr>epochSwitches := fst (lru_Get hsh (epochSwitches x))\<rparr>"
  have "epochSwitches_Get hsh x = (?y, Inr (Some info))"
    using assms lruc.get_value [of hsh "epochSwitches x"] by (simp add: epochSwitches_Get_def case_prod_beta)
  then have "getEpochSwitchInfo E chain header hsh x = (?y, Inr info)"
    unfolding getEpochSwitchInfo_def m getEpochSwitchInfo_n.simps bindE_def by (simp add: ok_def)
  then show ?thesis
    using assms lruc.get_content [of hsh "epochSwitches x"]
    by (intro exI [of _ ?y]) (simp add: cache_only_def strip_caches_def)
qed

lemma getEpochSwitchInfo_peek:
  assumes "getEpochSwitchInfo E chain header hsh x = (y, Inr info)"
  shows "lru_Peek (epochSwitches y) hsh = Some info"
proof (cases "lru_Peek (epochSwitches x) hsh")
  case None
  then show ?thesis using assms epoch_info_stored unfolding getEpochSwitchInfo_def by blast
next
  case (Some i)
  then show ?thesis using assms getEpochSwitchInfo_hit [OF Some, of E chain header] by auto
qed

text \<open>The votes from which the handler would make a certificate for the vote \<open>v\<close>.\<close>

definition quorum_votes :: "env \<Rightarrow> Vote \<Rightarrow> EpochSwitchInfo \<Rightarrow> (hash \<times> Vote) list \<Rightarrow> bool" where
  "quorum_votes E v info votes \<longleftrightarrow> group_ok E v votes
     \<and> (\<forall>(h, w)\<in>set votes. vote_signer w \<noteq> 0 \<longrightarrow> vote_signer w \<in> set (es_Masternodes info))"

definition cert_of :: "Vote \<Rightarrow> (hash \<times> Vote) list \<Rightarrow> QuorumCert" where
  "cert_of v votes = \<lparr>qc_ProposedBlockInfo = vote_ProposedBlockInfo v,
     qc_Signatures = map (\<lambda>(_, w). vote_Signature w) (filter (\<lambda>(_, w). vote_signer w \<noteq> 0) votes),
     qc_GapNumber = vote_GapNumber v\<rparr>"

lemma cert_of_simps [simp]:
  "qc_ProposedBlockInfo (cert_of v votes) = vote_ProposedBlockInfo v"
  "qc_GapNumber (cert_of v votes) = vote_GapNumber v"
  by (simp_all add: cert_of_def)

lemma quorum_cert:
  assumes "quorum_votes E v info votes"
  shows "distinct (qc_Signatures (cert_of v votes))"
    and "\<forall>sig\<in>set (qc_Signatures (cert_of v votes)). qc_sig_check E (cert_of v votes) (es_Masternodes info) sig = None"
proof -
  have g: "group_ok E v votes" using assms by (simp add: quorum_votes_def)
  show "distinct (qc_Signatures (cert_of v votes))"
    using distinct_map_filter [OF group_signatures_distinct [OF g]] by (simp add: cert_of_def)
  show "\<forall>sig\<in>set (qc_Signatures (cert_of v votes)). qc_sig_check E (cert_of v votes) (es_Masternodes info) sig = None"
  proof
    fix sig assume "sig \<in> set (qc_Signatures (cert_of v votes))"
    then obtain h w where w: "(h, w) \<in> set votes" "vote_signer w \<noteq> 0" "sig = vote_Signature w" by (auto simp: cert_of_def)
    have "Vote_PoolKey w = Vote_PoolKey v" "vote_ok E w" "vote_signer w \<in> set (es_Masternodes info)"
      using assms w by (auto simp: quorum_votes_def group_ok_def)
    moreover from Vote_PoolKey_inj [OF this(1)] have "vote_payload E w = qc_payload E (cert_of v votes)" by simp
    ultimately have "signed_by E (qc_payload E (cert_of v votes)) sig (vote_signer w)"
      using w by (simp add: vote_ok_def)
    then obtain pk where "Ecrecover E (qc_payload E (cert_of v votes)) sig = Some pk" "pk \<noteq> []" "pubkey_address E pk = vote_signer w"
      by (auto simp: signed_by_def)
    then have "verifyMsgSignature E (qc_payload E (cert_of v votes)) sig (es_Masternodes info) = Inr (True, vote_signer w)"
      using \<open>vote_signer w \<in> _\<close> by (auto simp: verifyMsgSignature_def)
    then show "qc_sig_check E (cert_of v votes) (es_Masternodes info) sig = None" by (simp add: qc_sig_check_def)
  qed
qed

lemma same_hqc: "step_rel (\<lambda>x y. highestQuorumCert y = highestQuorumCert x)"
  by unfold_locales simp_all

lemma processQC_highest:
  assumes "processQC E chain qc x = (y, r)"
  shows "highestQuorumCert y = highestQuorumCert (update_highestQC qc x)"
proof -
  let ?R = "\<lambda>x y. highestQuorumCert y = highestQuorumCert x"
  have c: "keeps ?R (commitBlocks E chain h r q)" for h r q
    unfolding commitBlocks_def by (intro step_rel.keeps_rules [OF same_hqc]) simp
  have l: "keeps ?R (update_lockQC q)" for q
    unfolding update_lockQC_def by (intro step_rel.keeps_rules [OF same_hqc]) simp_all
  have "keeps ?R (case GetHeaderByHash chain (bi_Hash (qc_ProposedBlockInfo qc)) of
       None \<Rightarrow> fail (Errorf ''block not found'')
     | Some proposedBlockHeader \<Rightarrow>
         thenE
          (reads config (\<lambda>cfg.
            if SwitchBlock (cfg_V2 cfg) < Number proposedBlockHeader
            then bindE (liftE (getExtraFields cfg proposedBlockHeader)) (\<lambda>(proposedBlockQuorumCert, rnd, _).
                   thenE (update_lockQC proposedBlockQuorumCert)
                   (bindE (commitBlocks E chain proposedBlockHeader rnd qc) (\<lambda>_. ok ())))
            else ok ()))
          (modify (\<lambda>x. if currentRound x \<le> bi_Round (qc_ProposedBlockInfo qc)
                       then setNewRound (bi_Round (qc_ProposedBlockInfo qc) + 1) x else x)))"
    by (intro step_rel.keeps_rules [OF same_hqc] c l) (simp add: setNewRound_def)
  from keepsD [OF this, of "update_highestQC qc x"] assms show ?thesis by (simp add: processQC_def comp_simps)
qed

lemma pool_Add_group:
  assumes "votePool_ok E p" and "vote_ok E v" and "pool_Add Vote_PoolKey (Vote_Hash (keccak E)) v p = (p', n, votes)"
  shows "votePool_ok E p'" and "group_ok E v votes" and "map_of p' (Vote_PoolKey v) = Some votes" and "n = length votes"
proof -
  let ?old = "case map_of p (Vote_PoolKey v) of None \<Rightarrow> [] | Some m \<Rightarrow> m"
  have inv: "pool_inv Vote_PoolKey (Vote_Hash (keccak E)) p" using assms(1) by (simp add: votePool_ok_def)
  have i: "pool_inv Vote_PoolKey (Vote_Hash (keccak E)) p'" using pool_inv_Add [OF inv, of v] assms(3) by simp
  have e: "p' = AList.update (Vote_PoolKey v) votes p" "votes = AList.update (Vote_Hash (keccak E) v) v ?old" "n = length votes"
    using assms(3) by (auto simp: pool_Add_def Let_def)
  show m: "map_of p' (Vote_PoolKey v) = Some votes" using e(1) by (simp add: map_of_update_eq)
  have old: "distinct (map fst ?old)" "\<forall>(h, w)\<in>set ?old. vote_ok E w"
    using pool_inv_group(1) [OF inv, of "Vote_PoolKey v"] assms(1) map_of_SomeD [of p "Vote_PoolKey v"]
    by (cases "map_of p (Vote_PoolKey v)"; fastforce simp: votePool_ok_def)+
  have new: "\<forall>(h, w)\<in>set votes. vote_ok E w"
    using old(2) assms(2) unfolding e(2) set_AList_update [OF old(1)] by auto
  show "group_ok E v votes" using pool_inv_group [OF i m] new by (auto simp: group_ok_def)
  have d: "distinct (map fst p)" using inv by (simp add: pool_inv_def)
  show "votePool_ok E p'" using i new assms(1) unfolding votePool_ok_def e(1) set_AList_update [OF d] by auto
  show "n = length votes" by (rule e(3))
qed

lemma onVotePool_run:
  assumes "lru_Peek (epochSwitches x) (bi_Hash (vote_ProposedBlockInfo v)) = Some info"
    and "V2_Config (cfg_V2 (config x)) (bi_Round (vote_ProposedBlockInfo v)) = Some c"
  shows "\<exists>x'. cache_only x x' \<and> lru_Peek (epochSwitches x') (bi_Hash (vote_ProposedBlockInfo v)) = Some info
    \<and> onVotePoolThresholdReached E chain votes v x =
        (if below_threshold (length (qc_Signatures (cert_of v votes))) (es_MasternodesLen info) (CertThreshold c)
         then (x', Inr ()) else processQC E chain (cert_of v votes) x')"
proof -
  from getEpochSwitchInfo_hit [OF assms(1)] obtain x' where
    g: "getEpochSwitchInfo E chain None (bi_Hash (vote_ProposedBlockInfo v)) x = (x', Inr info)" "cache_only x x'"
      "lru_Peek (epochSwitches x') (bi_Hash (vote_ProposedBlockInfo v)) = Some info" by blast
  then show ?thesis using assms(2) cache_only_fields(1) [OF g(2)]
    by (intro exI [of _ x']) (simp add: onVotePoolThresholdReached_def Let_def comp_simps cert_of_def)
qed

lemma voteHandler_certifies:
  assumes pool: "votePool_ok E (votePool x)" and v: "vote_ok E v"
    and hash: "\<And>h. GetHeaderByHash chain (bi_Hash (vote_ProposedBlockInfo v)) = Some h \<Longrightarrow>
      Header_Hash (keccak E) h = bi_Hash (vote_ProposedBlockInfo v)"
    and run: "voteHandler E chain v x = (y, r)" and new: "highestQuorumCert y \<noteq> highestQuorumCert x"
  shows "\<exists>info votes c. highestQuorumCert y = cert_of v votes \<and> quorum_votes E v info votes
    \<and> lru_Peek (epochSwitches y) (bi_Hash (vote_ProposedBlockInfo v)) = Some info
    \<and> (\<exists>s t. getEpochSwitchInfo E chain None (bi_Hash (vote_ProposedBlockInfo v)) s = (t, Inr info)
        \<and> vote_frame x s \<and> epochSwitches s = epochSwitches x \<and> snapshots s = snapshots x)
    \<and> V2_Config (cfg_V2 (config x)) (bi_Round (vote_ProposedBlockInfo v)) = Some c
    \<and> \<not> below_threshold (length (qc_Signatures (cert_of v votes))) (es_MasternodesLen info) (CertThreshold c)
    \<and> VerifyBlockInfo E (config x) chain (vote_ProposedBlockInfo v) None = Inr ()"
proof -
  let ?b = "vote_ProposedBlockInfo v"
  obtain p n votes where a: "pool_Add Vote_PoolKey (Vote_Hash (keccak E)) v (votePool x) = (p, n, votes)" by (rule prod_cases3)
  define x1 where "x1 = (if votePoolCollectionTime x = None then x\<lparr>votePoolCollectionTime := Some (now E)\<rparr> else x)\<lparr>votePool := p\<rparr>"
  have x1: "highestQuorumCert x1 = highestQuorumCert x" "config x1 = config x" "votePool x1 = p" "vote_frame x x1"
    "epochSwitches x1 = epochSwitches x" "snapshots x1 = snapshots x"
    by (simp_all add: x1_def vote_frame_def)
  have add: "votePool_Add E v (if votePoolCollectionTime x = None then x\<lparr>votePoolCollectionTime := Some (now E)\<rparr> else x)
      = (x1, Inr (n, votes))"
    using a by (simp add: votePool_Add_def x1_def)
  obtain x2 ri where g1: "getEpochSwitchInfo E chain None (bi_Hash ?b) x1 = (x2, ri)" by fastforce
  have c2: "cache_only x1 x2" by (rule getEpochSwitchInfo_fields [OF g1])
  define k where "k = (\<lambda>votes. thenE (onVotePoolThresholdReached E chain votes v)
      (modify (\<lambda>x. x\<lparr>votePoolCollectionTime := None\<rparr>)))"
  obtain info c h where i: "ri = Inr info" "V2_Config (cfg_V2 (config x)) (bi_Round ?b) = Some c"
      "GetHeaderByHash chain (bi_Hash ?b) = Some h" "VerifyBlockInfo E (config x) chain ?b None = Inr ()"
      and rest: "bindE (verifyVotes E chain (Vote_PoolKey v) votes h) k x2 = (y, r)"
    using run new g1 add cache_only_fields(1,17) [OF c2] x1(1,2) unfolding voteHandler_def Let_def k_def [symmetric]
    by (simp add: comp_simps split: if_splits sum.splits option.splits)
  note p2 = getEpochSwitchInfo_peek [OF g1 [unfolded i(1)]]
  from getEpochSwitchInfo_hit [OF p2, of E chain "Some h"] obtain x3 where
    g2: "getEpochSwitchInfo E chain (Some h) (bi_Hash ?b) x2 = (x3, Inr info)" "cache_only x2 x3"
      "lru_Peek (epochSwitches x3) (bi_Hash ?b) = Some info" by blast
  have m: "GetMasternodes E chain h x2 = (x3, Inr (es_Masternodes info))"
    using g2(1) hash [OF i(3)] by (simp add: GetMasternodes_def epoch_list_def comp_simps)
  have np: "Inl Panic \<notin> set (map (\<lambda>(_, v). checked_vote E (es_Masternodes info) v) votes)"
  proof
    assume "Inl Panic \<in> set (map (\<lambda>(_, v). checked_vote E (es_Masternodes info) v) votes)"
    then have "y = x3" using rest m by (simp add: verifyVotes_def comp_simps)
    then show False using new x1(1) cache_only_fields(17) [OF c2] cache_only_fields(17) [OF g2(2)] by simp
  qed
  define vs where "vs = map (\<lambda>(k, v). (k, projr (checked_vote E (es_Masternodes info) v))) votes"
  let ?x4 = "x3\<lparr>votePool := AList.update (Vote_PoolKey v) vs (votePool x3)\<rparr>"
  have k: "k vs ?x4 = (y, r)" using rest m np by (simp add: verifyVotes_def vs_def comp_simps Let_def)
  have c3: "config x3 = config x" "highestQuorumCert x3 = highestQuorumCert x"
    using cache_only_fields(1,17) [OF c2] cache_only_fields(1,17) [OF g2(2)] x1 by simp_all
  from onVotePool_run [of ?x4 v info c E chain vs] g2(3) i(2) c3 obtain x5 where
    g3: "cache_only ?x4 x5" "lru_Peek (epochSwitches x5) (bi_Hash ?b) = Some info"
      "onVotePoolThresholdReached E chain vs v ?x4 =
        (if below_threshold (length (qc_Signatures (cert_of v vs))) (es_MasternodesLen info) (CertThreshold c)
         then (x5, Inr ()) else processQC E chain (cert_of v vs) x5)" by auto
  have h5: "highestQuorumCert x5 = highestQuorumCert x" using cache_only_fields(17) [OF g3(1)] c3 by simp
  obtain z q where pq: "processQC E chain (cert_of v vs) x5 = (z, q)" by fastforce
  have t: "\<not> below_threshold (length (qc_Signatures (cert_of v vs))) (es_MasternodesLen info) (CertThreshold c)"
      and y: "highestQuorumCert y = highestQuorumCert z" "epochSwitches y = epochSwitches z"
    using k g3(3) pq new h5 unfolding k_def by (auto simp: comp_simps split: if_splits sum.splits)
  have "highestQuorumCert y = cert_of v vs"
    using processQC_highest [OF pq] y(1) h5 new by (auto simp: update_highestQC_def split: if_splits)
  moreover have "epochSwitches z = epochSwitches x5" using keepsE [OF processQC_frame pq] by (simp add: qc_frame_def)
  moreover have "group_ok E v votes" using pool_Add_group(2) [OF pool v a] .
  from checked_group [OF this np] have "quorum_votes E v info vs" unfolding quorum_votes_def vs_def [symmetric] by auto
  ultimately show ?thesis using t y(2) g3(2) i g1 x1 by (intro exI [of _ info] exI [of _ vs] exI [of _ c]) auto
qed

lemma verifyQC_own:
  assumes "quorum_votes E v info votes" and "lru_Peek (epochSwitches y) (bi_Hash (vote_ProposedBlockInfo v)) = Some info"
    and "V2_Config (cfg_V2 (config y)) (bi_Round (vote_ProposedBlockInfo v)) = Some c"
    and "\<not> below_threshold (length (qc_Signatures (cert_of v votes))) (es_MasternodesLen info) (CertThreshold c)"
    and "VerifyBlockInfo E (config y) chain (vote_ProposedBlockInfo v) None = Inr ()"
    and "vote_GapNumber v = gap_number (config y) (big_Uint64 (bi_Number (es_EpochSwitchBlockInfo info)))"
  shows "snd (verifyQC E chain (Some (cert_of v votes)) None y) = Inr ()"
proof -
  from getEpochSwitchInfo_hit [OF assms(2)] obtain z where
    g: "getEpochSwitchInfo E chain None (bi_Hash (vote_ProposedBlockInfo v)) y = (z, Inr info)" "cache_only y z" by blast
  let ?sigs = "fst (UniqueSignatures (qc_Signatures (cert_of v votes)))"
  have l: "length ?sigs = length (qc_Signatures (cert_of v votes))"
    using quorum_cert(1) [OF assms(1)] UniqueSignatures_correct(1,2) by (metis distinct_card)
  have "sigs_error (qc_sig_check E (cert_of v votes) (es_Masternodes info)) ?sigs = None"
    using quorum_cert(2) [OF assms(1)] UniqueSignatures_correct(2) by (simp add: sigs_error_None)
  then show ?thesis
    using g assms(3-6) l cache_only_fields(1) [OF g(2)] by (simp add: verifyQC_def comp_simps Let_def)
qed


definition sample_vote :: Vote where
  "sample_vote = \<lparr>vote_signer = 0, vote_ProposedBlockInfo = \<lparr>bi_Hash = 5, bi_Round = 1, bi_Number = 901\<rparr>,
     vote_Signature = [1], vote_GapNumber = 450\<rparr>"

lemma sample_vote_fields: "vote_ProposedBlockInfo sample_vote = \<lparr>bi_Hash = 5, bi_Round = 1, bi_Number = 901\<rparr>"
    "vote_Signature sample_vote = [1]" "vote_signer sample_vote = 0"
  by (simp_all add: sample_vote_def)

lemma sample_checked_vote: "checked_vote sample_env [5] sample_vote = Inr (sample_vote\<lparr>vote_signer := 5\<rparr>)"
proof -
  have "Ecrecover sample_env 5 [1] = Some [4, 1]" by (simp add: sample_env_def)
  then show ?thesis
    by (simp add: checked_vote_def sample_vote_fields verifyMsgSignature_def pubkey_address_def Let_def)
qed

lemma sample_quorum:
  assumes "onVotePoolThresholdReached sample_env next_chain [(k, sample_vote\<lparr>vote_signer := 5\<rparr>)] sample_vote x = (y, r)"
    and "lru_Peek (epochSwitches x) 5 = Some next_block_info" and "config x = sample_config"
    and "highestQuorumCert x = highestQuorumCert sample_engine"
  shows "highestQuorumCert y \<noteq> highestQuorumCert sample_engine"
proof -
  let ?vs = "[(k, sample_vote\<lparr>vote_signer := 5\<rparr>)]"
  have s: "length (qc_Signatures (cert_of sample_vote ?vs)) = 1" by (simp add: cert_of_def)
  have t: "\<not> below_threshold (Suc 0) (es_MasternodesLen next_block_info) (CertThreshold sample_V2Config)"
    using one_of_one by (simp add: next_block_info_def)
  have p: "lru_Peek (epochSwitches x) (bi_Hash (vote_ProposedBlockInfo sample_vote)) = Some next_block_info"
      "V2_Config (cfg_V2 (config x)) (bi_Round (vote_ProposedBlockInfo sample_vote)) = Some sample_V2Config"
    using assms(2,3) by (simp_all add: sample_vote_fields sample_V2_Config)
  from onVotePool_run [OF p, of sample_env next_chain ?vs] assms(1) t s obtain x' where
    x': "cache_only x x'" "processQC sample_env next_chain (cert_of sample_vote ?vs) x' = (y, r)" by auto
  from processQC_highest [OF x'(2)] cache_only_fields(17) [OF x'(1)] assms(4) show ?thesis
    by (simp add: update_highestQC_def sample_vote_fields sample_engine_def sample_qc_def cert_of_def)
qed

lemma sample_voteHandler:
  "\<exists>y r. voteHandler sample_env next_chain sample_vote sample_engine = (y, r)
    \<and> highestQuorumCert y \<noteq> highestQuorumCert sample_engine"
proof -
  let ?k = "Vote_Hash (keccak sample_env) sample_vote" and ?pk = "Vote_PoolKey sample_vote"
  let ?x0 = "sample_engine\<lparr>votePoolCollectionTime := Some (now sample_env)\<rparr>"
  let ?x1 = "?x0\<lparr>votePool := [(?pk, [(?k, sample_vote)])]\<rparr>"
  have e: "votePool sample_engine = []" "votePoolCollectionTime sample_engine = None" "currentRound sample_engine = 1"
    by (simp_all add: sample_engine_def NewPool_def)
  have a: "votePool_Add sample_env sample_vote ?x0 = (?x1, Inr (1, [(?k, sample_vote)]))"
    by (simp add: votePool_Add_def e pool_Add_def Let_def)
  have "fresh ?x1" using fresh_engine by (simp add: fresh_def)
  from next_epoch_info [OF this, of None] obtain x2 where
    g1: "getEpochSwitchInfo sample_env next_chain None 5 ?x1 = (x2, Inr next_block_info)" by blast
  have c2: "config x2 = sample_config" "highestQuorumCert x2 = highestQuorumCert sample_engine"
    using cache_only_fields(1,17) [OF getEpochSwitchInfo_fields [OF g1]] by (simp_all add: sample_switch)
  from getEpochSwitchInfo_hit [OF getEpochSwitchInfo_peek [OF g1], of sample_env next_chain "Some next_block"] obtain x3 where
    g2: "getEpochSwitchInfo sample_env next_chain (Some next_block) 5 x2 = (x3, Inr next_block_info)" "cache_only x2 x3"
      "lru_Peek (epochSwitches x3) 5 = Some next_block_info" by blast
  have m: "GetMasternodes sample_env next_chain next_block x2 = (x3, Inr [5])"
    using g2(1) by (simp add: GetMasternodes_def epoch_list_def comp_simps next_block_info_def)
  let ?x4 = "x3\<lparr>votePool := AList.update ?pk [(?k, sample_vote\<lparr>vote_signer := 5\<rparr>)] (votePool x3)\<rparr>"
  have v: "verifyVotes sample_env next_chain ?pk [(?k, sample_vote)] next_block x2
      = (?x4, Inr [(?k, sample_vote\<lparr>vote_signer := 5\<rparr>)])"
    by (simp add: verifyVotes_def comp_simps m sample_checked_vote Let_def)
  obtain z q where o: "onVotePoolThresholdReached sample_env next_chain [(?k, sample_vote\<lparr>vote_signer := 5\<rparr>)] sample_vote ?x4 = (z, q)"
    by fastforce
  have "highestQuorumCert z \<noteq> highestQuorumCert sample_engine"
    by (rule sample_quorum [OF o]) (use g2 c2 cache_only_fields(1,17) [OF g2(2)] in simp_all)
  moreover have b: "VerifyBlockInfo sample_env sample_config next_chain \<lparr>bi_Hash = 5, bi_Round = 1, bi_Number = 901\<rparr> None = Inr ()"
    by (simp add: VerifyBlockInfo_def next_masternodes sample_switch)
  have t: "\<not> below_threshold (Suc 0) (es_MasternodesLen next_block_info) (CertThreshold sample_V2Config)"
    using one_of_one by (simp add: next_block_info_def)
  have "highestQuorumCert (fst (voteHandler sample_env next_chain sample_vote sample_engine)) = highestQuorumCert z"
    using a g1 v o b t
    by (simp add: voteHandler_def comp_simps Let_def sample_vote_fields e c2 sample_V2_Config split: sum.splits)
  ultimately show ?thesis by (cases "voteHandler sample_env next_chain sample_vote sample_engine") auto
qed


end
