(* ===== verification/Engine_Timeout.thy ===== *)
theory Engine_Timeout
  imports Engine_Vote Engine_Search
begin

text \<open>
  Timeouts (\<^verbatim>\<open>timeout.go\<close>): sending a timeout when the countdown ends, collecting timeouts until they
  make a timeout certificate, and verifying and processing such certificates.
\<close>

section \<open>Operations\<close>

definition processTC :: "TimeoutCert \<Rightarrow> unit eng" where
  "processTC timeoutCert =
    modify (\<lambda>x.
      let x1 = (if tc_Round (highestTimeoutCert x) < tc_Round timeoutCert
                then x\<lparr>highestTimeoutCert := timeoutCert\<rparr> else x)
      in if currentRound x1 \<le> tc_Round timeoutCert then setNewRound (tc_Round timeoutCert + 1) x1 else x1)"

definition timeoutPool_Add :: "env \<Rightarrow> Timeout \<Rightarrow> (nat \<times> (hash \<times> Timeout) list) eng" where
  "timeoutPool_Add E timeout =
    (\<lambda>x. case pool_Add Timeout_PoolKey (Timeout_Hash (keccak E)) timeout (timeoutPool x) of
       (p, n, pooledTimeouts) \<Rightarrow> (x\<lparr>timeoutPool := p\<rparr>, Inr (n, pooledTimeouts)))"

definition onTimeoutPoolThresholdReached :: "(hash \<times> Timeout) list \<Rightarrow> Timeout \<Rightarrow> u64 \<Rightarrow> unit eng" where
  "onTimeoutPoolThresholdReached pooledTimeouts currentTimeoutMsg gapNumber =
    thenE (processTC \<lparr>tc_Round = to_Round currentTimeoutMsg,
                      tc_Signatures = Some (map (\<lambda>(_, v). to_Signature v) pooledTimeouts),
                      tc_GapNumber = gapNumber\<rparr>)
      (reads getSyncInfo (\<lambda>syncInfo. broadcastToBftChannel (MSyncInfo syncInfo)))"

definition current_epoch_info :: "env \<Rightarrow> ChainReader \<Rightarrow> EpochSwitchInfo eng" where
  "current_epoch_info E chain =
    getEpochSwitchInfo E chain (Some (CurrentHeader chain)) (Header_Hash (keccak E) (CurrentHeader chain))"

definition timeoutHandler :: "env \<Rightarrow> ChainReader \<Rightarrow> Timeout \<Rightarrow> unit eng" where
  "timeoutHandler E chain timeout =
    reads currentRound (\<lambda>rnd.
      if to_Round timeout \<noteq> rnd
      then fail (ErrIncomingMessageRoundNotEqualCurrentRound ''timeout'' (to_Round timeout) rnd)
      else bindE (timeoutPool_Add E timeout) (\<lambda>(numberOfTimeoutsInPool, pooledTimeouts).
        handleE (current_epoch_info E chain) (\<lambda>r. case r of
          Inl _ \<Rightarrow> fail (Errorf ''fail on timeoutHandler due to failure in getting epoch switch info'')
        | Inr epochInfo \<Rightarrow>
            reads config (\<lambda>cfg. case V2_Config (cfg_V2 cfg) (to_Round timeout) of
              None \<Rightarrow> fail Panic
            | Some c \<Rightarrow>
                if below_threshold numberOfTimeoutsInPool (es_MasternodesLen epochInfo) (CertThreshold c) then ok ()
                else onTimeoutPoolThresholdReached pooledTimeouts timeout (to_GapNumber timeout)))))"

text \<open>
  The search for the epoch of a timeout certificate goes back epoch by epoch; an epoch number
  before the switch ends it with an error, so it takes at most as many turns as the number of the
  current epoch, and one more when the number wraps below 0.
\<close>

fun tc_epoch_loop :: "nat \<Rightarrow> env \<Rightarrow> ChainReader \<Rightarrow> u64 \<Rightarrow> u64 \<Rightarrow> BlockInfo \<Rightarrow> BlockInfo eng" where
  "tc_epoch_loop fuel E chain tcRound tempTCEpoch epochBlockInfo =
    (if bi_Round epochBlockInfo \<le> tcRound then ok epochBlockInfo
     else case fuel of
       0 \<Rightarrow> fail OutOfFuel
     | Suc n \<Rightarrow>
         handleE (GetBlockByEpochNumber E chain (tempTCEpoch - 1)) (\<lambda>r. case r of
           Inl _ \<Rightarrow> fail (Errorf ''fail on getTCEpochInfo due to failure in getting epoch block info tc round'')
         | Inr b \<Rightarrow> tc_epoch_loop n E chain tcRound (tempTCEpoch - 1) b))"

declare tc_epoch_loop.simps [simp del]

definition tc_epoch_error :: error where
  "tc_epoch_error = Errorf ''fail on getTCEpochInfo due to failure in getting epoch switch info''"

definition getTCEpochInfo :: "env \<Rightarrow> ChainReader \<Rightarrow> TimeoutCert \<Rightarrow> EpochSwitchInfo eng" where
  "getTCEpochInfo E chain timeoutCert =
    handleE (current_epoch_info E chain) (\<lambda>r. case r of
      Inl _ \<Rightarrow> fail tc_epoch_error
    | Inr epochSwitchInfo \<Rightarrow>
        reads config (\<lambda>cfg.
          let epochBlockInfo = es_EpochSwitchBlockInfo epochSwitchInfo;
              tempTCEpoch = SwitchEpoch (cfg_V2 cfg) + bi_Round epochBlockInfo div Epoch cfg
          in bindE (tc_epoch_loop (unat tempTCEpoch + 2) E chain (tc_Round timeoutCert) tempTCEpoch epochBlockInfo) (\<lambda>b.
               handleE (getEpochSwitchInfo E chain None (bi_Hash b)) (\<lambda>r. case r of
                 Inl _ \<Rightarrow> fail tc_epoch_error
               | Inr epochInfo \<Rightarrow> ok epochInfo))))"

definition tc_sig_check :: "env \<Rightarrow> TimeoutCert \<Rightarrow> address list \<Rightarrow> signature \<Rightarrow> error option" where
  "tc_sig_check E timeoutCert candidates sig =
    (case verifyMsgSignature E
            (TimeoutSigHash (keccak E) \<lparr>ts_Round = tc_Round timeoutCert, ts_GapNumber = tc_GapNumber timeoutCert\<rparr>)
            sig candidates of
       Inl err \<Rightarrow> if err = Panic then Some Panic else Some (Errorf ''error while verifying TC message signatures'')
     | Inr (verified, _) \<Rightarrow>
         if verified then None else Some (Errorf ''fail to verify TC due to signature mis-match''))"

definition verifyTC :: "env \<Rightarrow> ChainReader \<Rightarrow> TimeoutCert option \<Rightarrow> unit eng" where
  "verifyTC E chain timeoutCert =
    (case timeoutCert of
       None \<Rightarrow> fail ErrInvalidTC
     | Some tc \<Rightarrow>
         (case tc_Signatures tc of
            None \<Rightarrow> fail ErrInvalidTC
          | Some tcSignatures \<Rightarrow>
              handleE (getSnapshot E chain (tc_GapNumber tc) True) (\<lambda>r. case r of
                Inl _ \<Rightarrow> fail (Errorf ''[verifyTC] Unable to get snapshot'')
              | Inr snap \<Rightarrow>
                  if NextEpochCandidates snap = [] then fail (Errorf ''empty master node lists from snapshot'')
                  else let sigs = fst (UniqueSignatures tcSignatures)
                       in bindE (getTCEpochInfo E chain tc) (\<lambda>epochInfo.
                         reads config (\<lambda>cfg. case V2_Config (cfg_V2 cfg) (tc_Round tc) of
                           None \<Rightarrow> fail Panic
                         | Some c \<Rightarrow>
                             if below_threshold (length sigs) (es_MasternodesLen epochInfo) (CertThreshold c)
                             then fail ErrInvalidTCSignatures
                             else (case sigs_error (tc_sig_check E tc (NextEpochCandidates snap)) sigs of
                               Some err \<Rightarrow> fail err
                             | None \<Rightarrow> ok ()))))))"

definition sendTimeout :: "env \<Rightarrow> ChainReader \<Rightarrow> unit eng" where
  "sendTimeout E chain =
    reads config (\<lambda>cfg. reads currentRound (\<lambda>rnd.
      let currentBlockHeader = CurrentHeader chain
      in bindE (liftE (isEpochSwitchAtRound cfg rnd currentBlockHeader)) (\<lambda>(isEpochSwitch, _).
        bindE (if isEpochSwitch
               then ok (gap_number cfg (big_Uint64 (Number currentBlockHeader) + 1))
               else bindE (current_epoch_info E chain) (\<lambda>epochSwitchInfo.
                      ok (gap_number cfg (big_Uint64 (bi_Number (es_EpochSwitchBlockInfo epochSwitchInfo))))))
          (\<lambda>gapNumber.
            bindE (signSignature (TimeoutSigHash (keccak E) \<lparr>ts_Round = rnd, ts_GapNumber = gapNumber\<rparr>)) (\<lambda>signedHash.
              reads signer (\<lambda>me.
                let timeoutMsg = \<lparr>to_signer = me, to_Round = rnd, to_Signature = signedHash, to_GapNumber = gapNumber\<rparr>
                in thenE (timeoutHandler E chain timeoutMsg) (broadcastToBftChannel (MTimeout timeoutMsg))))))))"

definition OnCountdownTimeout :: "env \<Rightarrow> ChainReader \<Rightarrow> unit eng" where
  "OnCountdownTimeout E chain =
    bindE (allowedToSend E chain (CurrentHeader chain)) (\<lambda>allow.
      if \<not> allow then ok ()
      else thenE (sendTimeout E chain)
        (thenE (modify (\<lambda>x. x\<lparr>timeoutCount := timeoutCount x + 1\<rparr>))
          (reads timeoutCount (\<lambda>count. reads config (\<lambda>cfg.
            let threshold = TimeoutSyncThreshold (CurrentConfig (cfg_V2 cfg))
            in if threshold = 0 then fail Panic
               else if count mod threshold = 0
               then reads getSyncInfo (\<lambda>syncInfo. broadcastToBftChannel (MSyncInfo syncInfo))
               else ok ())))))"

definition hygieneTimeoutPool :: "unit eng" where
  "hygieneTimeoutPool = modify (\<lambda>x. x\<lparr>timeoutPool := hygienePool (currentRound x) (timeoutPool x)\<rparr>)"

section \<open>What the handlers keep\<close>

lemma tc_epoch_loop_co: "keeps cache_only (tc_epoch_loop fuel E chain r t b)"
proof (induction fuel arbitrary: t b)
  case 0
  show ?case by (subst tc_epoch_loop.simps) (simp add: co.keeps_ok co.keeps_fail)
next
  case (Suc fuel)
  show ?case
    by (subst tc_epoch_loop.simps, simp only: nat.case) (intro co_rules GetBlockByEpochNumber_co Suc)
qed

lemma current_epoch_info_co: "keeps cache_only (current_epoch_info E chain)"
  unfolding current_epoch_info_def by (rule getEpochSwitchInfo_co)

lemma getTCEpochInfo_co: "keeps cache_only (getTCEpochInfo E chain tc)"
  unfolding getTCEpochInfo_def Let_def
  by (intro co_rules tc_epoch_loop_co current_epoch_info_co getEpochSwitchInfo_co)

lemma verifyTC_co: "keeps cache_only (verifyTC E chain tc)"
  unfolding verifyTC_def Let_def by (intro co_rules getTCEpochInfo_co getSnapshot_co)

lemma verifyQC_co: "keeps cache_only (verifyQC E chain q h)"
  unfolding verifyQC_def Let_def by (intro co_rules getEpochSwitchInfo_co)

text \<open>A timeout never touches the certificates of blocks, the lock, the commit or the vote round.\<close>

definition timeout_frame :: "BRDPoS_v2 \<Rightarrow> BRDPoS_v2 \<Rightarrow> bool" where
  "timeout_frame x y \<longleftrightarrow> config y = config x \<and> db y = db x \<and> signer y = signer x \<and> signFn y = signFn x
     \<and> highestVotedRound y = highestVotedRound x \<and> highestSelfMinedRound y = highestSelfMinedRound x
     \<and> highestQuorumCert y = highestQuorumCert x \<and> lockQuorumCert y = lockQuorumCert x
     \<and> highestCommitBlock y = highestCommitBlock x \<and> votePool y = votePool x
     \<and> forensicsJobs y = forensicsJobs x \<and> isInitilised y = isInitilised x
     \<and> tc_Round (highestTimeoutCert x) \<le> tc_Round (highestTimeoutCert y)"

interpretation tof: step_rel timeout_frame
  by unfold_locales (auto simp: timeout_frame_def)

lemma co_timeout_frame: "keeps cache_only m \<Longrightarrow> keeps timeout_frame m"
proof (rule keepsI)
  fix x assume "keeps cache_only m"
  then have "cache_only x (fst (m x))" by (rule keepsD)
  then show "timeout_frame x (fst (m x))" by (simp add: timeout_frame_def cache_only_fields)
qed

lemma timeout_frame_cert: "timeout_frame x y \<Longrightarrow> cert_order x y"
  by (simp add: timeout_frame_def cert_order_def)

lemma processTC_frame: "keeps timeout_frame (processTC tc)"
  by (rule keepsI) (auto simp: processTC_def comp_simps timeout_frame_def setNewRound_def Let_def)

lemma timeoutPool_Add_frame: "keeps timeout_frame (timeoutPool_Add E t)"
  by (rule keepsI) (simp add: timeoutPool_Add_def timeout_frame_def split: prod.splits)

lemma timeoutHandler_frame: "keeps timeout_frame (timeoutHandler E chain t)"
  unfolding timeoutHandler_def onTimeoutPoolThresholdReached_def broadcastToBftChannel_def
  by (intro tof.keeps_rules processTC_frame timeoutPool_Add_frame current_epoch_info_co [THEN co_timeout_frame])
    (simp add: timeout_frame_def)

lemma OnCountdownTimeout_frame: "keeps timeout_frame (OnCountdownTimeout E chain)"
  unfolding OnCountdownTimeout_def sendTimeout_def broadcastToBftChannel_def Let_def
  by (intro tof.keeps_rules timeoutHandler_frame current_epoch_info_co [THEN co_timeout_frame]
      signSignature_co [THEN co_timeout_frame] allowedToSend_co [THEN co_timeout_frame])
    (simp_all add: timeout_frame_def)

section \<open>Certificates of timeouts\<close>

abbreviation tc_payload :: "env \<Rightarrow> TimeoutCert \<Rightarrow> hash" where
  "tc_payload E tc \<equiv> TimeoutSigHash (keccak E) \<lparr>ts_Round = tc_Round tc, ts_GapNumber = tc_GapNumber tc\<rparr>"

lemma tc_sig_check_None:
  "tc_sig_check E tc cs sig = None \<Longrightarrow> \<exists>a\<in>set cs. signed_by E (tc_payload E tc) sig a"
  by (auto simp: tc_sig_check_def split: sum.splits if_splits prod.splits dest: verifyMsgSignature_Inr)

lemma verifyTC_Inr:
  assumes "verifyTC E chain t x = (y, Inr ())"
  shows "\<exists>tc sigs snap x1 info c. t = Some tc \<and> tc_Signatures tc = Some sigs
    \<and> getSnapshot E chain (tc_GapNumber tc) True x = (x1, Inr snap) \<and> NextEpochCandidates snap \<noteq> []
    \<and> getTCEpochInfo E chain tc x1 = (y, Inr info)
    \<and> V2_Config (cfg_V2 (config x)) (tc_Round tc) = Some c
    \<and> \<not> below_threshold (card (set sigs)) (es_MasternodesLen info) (CertThreshold c)
    \<and> (\<forall>sig\<in>set sigs. tc_sig_check E tc (NextEpochCandidates snap) sig = None)"
proof -
  obtain tc sigs where t: "t = Some tc" "tc_Signatures tc = Some sigs"
    using assms by (auto simp: verifyTC_def comp_simps split: option.splits)
  obtain x1 rs where g: "getSnapshot E chain (tc_GapNumber tc) True x = (x1, rs)" by fastforce
  obtain snap where rs: "rs = Inr snap" "NextEpochCandidates snap \<noteq> []"
    using assms t g by (auto simp: verifyTC_def comp_simps split: sum.splits if_splits)
  obtain x2 ri where i: "getTCEpochInfo E chain tc x1 = (x2, ri)" by fastforce
  have c: "config x2 = config x"
    using cache_only_fields(1) [OF keepsE [OF getTCEpochInfo_co i]] cache_only_fields(1) [OF keepsE [OF getSnapshot_co g]] by simp
  have u: "length (fst (UniqueSignatures sigs)) = card (set sigs)"
    using UniqueSignatures_correct(1,2) [of sigs] by (metis distinct_card)
  show ?thesis
    using assms t g rs i c u UniqueSignatures_correct(2) [of sigs]
    by (auto simp: verifyTC_def comp_simps Let_def sigs_error_None split: sum.splits option.splits if_splits)
qed


definition sample_tc :: TimeoutCert where
  "sample_tc = \<lparr>tc_Round = 1, tc_Signatures = Some [[1]], tc_GapNumber = 450\<rparr>"

lemma next_current: "CurrentHeader next_chain = next_block"
  by (simp add: next_chain_def)

lemma sample_verifyTC: "\<exists>y. verifyTC sample_env next_chain (Some sample_tc) sample_engine = (y, Inr ())"
proof -
  obtain x1 where s: "getSnapshot sample_env next_chain 450 True sample_engine = (x1, Inr (newSnapshot 450 5 [5]))" "fresh x1"
    using fresh_snapshot [OF fresh_engine, of True 450] by auto
  obtain x2 where i: "getEpochSwitchInfo sample_env next_chain (Some next_block) 5 x1 = (x2, Inr next_block_info)"
    using next_epoch_info [OF s(2)] by blast
  obtain x3 where j: "getEpochSwitchInfo sample_env next_chain None 5 x2 = (x3, Inr next_block_info)"
    using getEpochSwitchInfo_hit [OF getEpochSwitchInfo_peek [OF i]] by blast
  have c: "config x3 = sample_config" "config x2 = sample_config"
    using cache_only_fields(1) [OF getEpochSwitchInfo_fields [OF i]] cache_only_fields(1) [OF getEpochSwitchInfo_fields [OF j]] s(2)
    by (simp_all add: fresh_def)
  have "getTCEpochInfo sample_env next_chain sample_tc x1 = (x3, Inr next_block_info)"
    using i j by (simp add: getTCEpochInfo_def current_epoch_info_def next_current comp_simps c Let_def
        next_block_info_def sample_tc_def tc_epoch_loop.simps)
  moreover have "Ecrecover sample_env 5 [1] = Some [4, 1]" by (simp add: sample_env_def)
  then have "sigs_error (tc_sig_check sample_env sample_tc [5]) (fst (UniqueSignatures [[1]])) = None"
    by (simp add: sigs_error_None UniqueSignatures_correct tc_sig_check_def sample_tc_def verifyMsgSignature_def pubkey_address_def Let_def)
  moreover have "\<not> below_threshold (length (fst (UniqueSignatures [[1]]))) (es_MasternodesLen next_block_info) (CertThreshold sample_V2Config)"
    using one_of_one by (simp add: next_block_info_def UniqueSignatures_def)
  ultimately show ?thesis
    using s(1) c by (simp add: verifyTC_def sample_tc_def comp_simps Let_def newSnapshot_def sample_V2_Config)
qed


text \<open>
  C34: once the timeouts of the current round reach the threshold of the current epoch, the node moves
  to the next round, drops the collected timeouts, keeps a timeout certificate at least as high as
  the round, and announces its certificates to the network.
\<close>

theorem timeout_quorum_advances:
  assumes "to_Round t = currentRound x"
    and "pool_Add Timeout_PoolKey (Timeout_Hash (keccak E)) t (timeoutPool x) = (p, n, ts)"
    and "current_epoch_info E chain (x\<lparr>timeoutPool := p\<rparr>) = (x1, Inr info)"
    and "V2_Config (cfg_V2 (config x)) (to_Round t) = Some c"
    and "\<not> below_threshold n (es_MasternodesLen info) (CertThreshold c)"
  shows "\<exists>y. timeoutHandler E chain t x = (y, Inr ()) \<and> currentRound y = currentRound x + 1 \<and> timeoutPool y = []
    \<and> to_Round t \<le> tc_Round (highestTimeoutCert y) \<and> broadcasts y = broadcasts x @ [MSyncInfo (getSyncInfo y)]"
proof -
  note f = cache_only_fields [OF keepsE [OF current_epoch_info_co assms(3)]]
  have "timeoutPool_Add E t x = (x\<lparr>timeoutPool := p\<rparr>, Inr (n, ts))" using assms(2) by (simp add: timeoutPool_Add_def)
  then have "timeoutHandler E chain t x = onTimeoutPoolThresholdReached ts t (to_GapNumber t) x1"
    using assms f(1) by (simp add: timeoutHandler_def comp_simps)
  moreover have "currentRound x1 = to_Round t" "broadcasts x1 = broadcasts x" using f assms(1) by simp_all
  ultimately show ?thesis
    using assms(1) by (auto simp: onTimeoutPoolThresholdReached_def processTC_def comp_simps setNewRound_def Let_def
        pool_Clear_def getSyncInfo_def broadcastToBftChannel_def not_less)
qed

definition sample_timeout :: Timeout where
  "sample_timeout = \<lparr>to_signer = 5, to_Round = 1, to_Signature = [1], to_GapNumber = 450\<rparr>"

theorem timeout_quorum_advances_witness:
  "\<exists>y. timeoutHandler sample_env next_chain sample_timeout sample_engine = (y, Inr ()) \<and> currentRound y = 2"
proof -
  let ?p = "[(Timeout_PoolKey sample_timeout, [(Timeout_Hash (keccak sample_env) sample_timeout, sample_timeout)])]"
  have e: "timeoutPool sample_engine = []" "currentRound sample_engine = 1" "to_Round sample_timeout = 1"
    by (simp_all add: sample_engine_def NewPool_def sample_timeout_def)
  have p: "pool_Add Timeout_PoolKey (Timeout_Hash (keccak sample_env)) sample_timeout (timeoutPool sample_engine)
      = (?p, 1, [(Timeout_Hash (keccak sample_env) sample_timeout, sample_timeout)])"
    by (simp add: e pool_Add_def Let_def)
  have "fresh (sample_engine\<lparr>timeoutPool := ?p\<rparr>)" using fresh_engine by (simp add: fresh_def)
  from next_epoch_info [OF this, of "Some next_block"] obtain x1 where
    i: "current_epoch_info sample_env next_chain (sample_engine\<lparr>timeoutPool := ?p\<rparr>) = (x1, Inr next_block_info)"
    by (auto simp: current_epoch_info_def next_current)
  have "\<not> below_threshold 1 (es_MasternodesLen next_block_info) (CertThreshold sample_V2Config)"
    using one_of_one by (simp add: next_block_info_def)
  from timeout_quorum_advances [OF _ p i _ this] show ?thesis by (auto simp: e sample_switch sample_V2_Config)
qed

text \<open>
  C35: a timeout, received or sent, never changes the vote round, the highest certificate of a block,
  the lock, the committed block or the votes, and never lowers the highest timeout certificate.
\<close>

theorem timeouts_keep_votes:
  "timeout_frame x (fst (timeoutHandler E chain t x)) \<and> timeout_frame x (fst (OnCountdownTimeout E chain x))"
  using keepsD [OF timeoutHandler_frame] keepsD [OF OnCountdownTimeout_frame] by blast

end
