(* ===== verification/Engine_Handlers.thy ===== *)
theory Engine_Handlers
  imports Engine_Timeout
begin

text \<open>
  The entry points of the engine for messages and proposed blocks (\<^verbatim>\<open>engine.go\<close>). A message is first
  verified and then handled; verification records the recovered signer in the message, so it
  returns the message as well.
\<close>

section \<open>Operations\<close>

definition VerifySyncInfoMessage :: "env \<Rightarrow> ChainReader \<Rightarrow> SyncInfo \<Rightarrow> bool eng" where
  "VerifySyncInfoMessage E chain syncInfo =
    reads highestQuorumCert (\<lambda>hqc. reads highestTimeoutCert (\<lambda>htc.
      if bi_Round (qc_ProposedBlockInfo (si_HighestQuorumCert syncInfo)) \<le> bi_Round (qc_ProposedBlockInfo hqc)
         \<and> tc_Round (si_HighestTimeoutCert syncInfo) \<le> tc_Round htc
      then ok False
      else thenE (verifyQC E chain (Some (si_HighestQuorumCert syncInfo)) None)
        (thenE (verifyTC E chain (Some (si_HighestTimeoutCert syncInfo))) (ok True))))"

definition SyncInfoHandler :: "env \<Rightarrow> ChainReader \<Rightarrow> SyncInfo \<Rightarrow> unit eng" where
  "SyncInfoHandler E chain syncInfo =
    thenE (processQC E chain (si_HighestQuorumCert syncInfo)) (processTC (si_HighestTimeoutCert syncInfo))"

definition VerifyVoteMessage :: "env \<Rightarrow> ChainReader \<Rightarrow> Vote \<Rightarrow> (bool \<times> Vote) eng" where
  "VerifyVoteMessage E chain vote =
    reads currentRound (\<lambda>rnd.
      if bi_Round (vote_ProposedBlockInfo vote) < rnd then ok (False, vote)
      else bindE (getSnapshot E chain (vote_GapNumber vote) True) (\<lambda>snapshot.
        bindE (liftE (verifyMsgSignature E
                 (VoteSigHash (keccak E) \<lparr>vs_ProposedBlockInfo = vote_ProposedBlockInfo vote,
                                          vs_GapNumber = vote_GapNumber vote\<rparr>)
                 (vote_Signature vote) (NextEpochCandidates snapshot))) (\<lambda>(verified, signerAddress).
          ok (verified, vote\<lparr>vote_signer := signerAddress\<rparr>))))"

definition VoteHandler :: "env \<Rightarrow> ChainReader \<Rightarrow> Vote \<Rightarrow> unit eng" where
  "VoteHandler E chain voteMsg = voteHandler E chain voteMsg"

definition VerifyTimeoutMessage :: "env \<Rightarrow> ChainReader \<Rightarrow> Timeout \<Rightarrow> (bool \<times> Timeout) eng" where
  "VerifyTimeoutMessage E chain timeoutMsg =
    reads currentRound (\<lambda>rnd.
      if to_Round timeoutMsg < rnd then ok (False, timeoutMsg)
      else bindE (getSnapshot E chain (to_GapNumber timeoutMsg) True) (\<lambda>snap.
        if NextEpochCandidates snap = [] then fail (Errorf ''empty master node lists from snapshot'')
        else bindE (liftE (verifyMsgSignature E
                 (TimeoutSigHash (keccak E) \<lparr>ts_Round = to_Round timeoutMsg, ts_GapNumber = to_GapNumber timeoutMsg\<rparr>)
                 (to_Signature timeoutMsg) (NextEpochCandidates snap))) (\<lambda>(verified, signerAddress).
          ok (verified, timeoutMsg\<lparr>to_signer := signerAddress\<rparr>))))"

definition TimeoutHandler :: "env \<Rightarrow> ChainReader \<Rightarrow> Timeout \<Rightarrow> unit eng" where
  "TimeoutHandler E chain timeout = timeoutHandler E chain timeout"

definition ProposedBlockHandler :: "env \<Rightarrow> ChainReader \<Rightarrow> Header \<Rightarrow> unit eng" where
  "ProposedBlockHandler E chain blockHeader =
    reads config (\<lambda>cfg.
      bindE (liftE (getExtraFields cfg blockHeader)) (\<lambda>(quorumCert, rnd, _).
        let blockInfo = \<lparr>bi_Hash = Header_Hash (keccak E) blockHeader, bi_Round = rnd, bi_Number = Number blockHeader\<rparr>
        in (case quorumCert of
              None \<Rightarrow> fail Panic
            | Some qc \<Rightarrow>
                thenE (processQC E chain qc)
                (bindE (allowedToSend E chain blockHeader) (\<lambda>allow.
                  if \<not> allow then ok ()
                  else bindE (verifyVotingRule chain blockInfo quorumCert) (\<lambda>verified.
                         if verified then sendVote E chain blockInfo else ok ()))))))"

section \<open>What the handlers keep\<close>

lemma VerifySyncInfoMessage_co: "keeps cache_only (VerifySyncInfoMessage E chain s)"
  unfolding VerifySyncInfoMessage_def by (intro co_rules verifyQC_co verifyTC_co)

lemma VerifyVoteMessage_co: "keeps cache_only (VerifyVoteMessage E chain v)"
  unfolding VerifyVoteMessage_def by (intro co_rules getSnapshot_co)

lemma VerifyTimeoutMessage_co: "keeps cache_only (VerifyTimeoutMessage E chain t)"
  unfolding VerifyTimeoutMessage_def by (intro co_rules getSnapshot_co)

lemma verifyVotingRule_co: "keeps cache_only (verifyVotingRule chain b q)"
  by (rule keepsI) (simp add: verifyVotingRule_def co.R_refl)

lemma processTC_cert: "keeps cert_order (processTC tc)"
  using processTC_frame by (auto simp: keeps_def intro: timeout_frame_cert)

lemma SyncInfoHandler_cert: "keeps cert_order (SyncInfoHandler E chain s)"
  unfolding SyncInfoHandler_def by (intro cert.keeps_rules processQC_cert processTC_cert)

lemma ProposedBlockHandler_cert: "keeps cert_order (ProposedBlockHandler E chain h)"
  unfolding ProposedBlockHandler_def
  by (intro cert.keeps_rules processQC_cert sendVote_cert allowedToSend_co [THEN co_cert] verifyVotingRule_co [THEN co_cert])

section \<open>One vote per round\<close>

text \<open>The voting rule, in terms of the chain.\<close>

definition extends :: "ChainReader \<Rightarrow> BlockInfo \<Rightarrow> BlockInfo \<Rightarrow> bool" where
  "extends chain b a \<longleftrightarrow> ancestor_hash (nat (big_Int64 (bi_Number b - bi_Number a))) chain (bi_Hash b) = Some (bi_Hash a)"

definition may_vote :: "ChainReader \<Rightarrow> BRDPoS_v2 \<Rightarrow> BlockInfo \<Rightarrow> QuorumCert \<Rightarrow> bool" where
  "may_vote chain x b qc \<longleftrightarrow> highestVotedRound x < currentRound x \<and> bi_Round b = currentRound x
     \<and> (\<forall>l. lockQuorumCert x = Some l \<longrightarrow>
          bi_Round (qc_ProposedBlockInfo l) < bi_Round (qc_ProposedBlockInfo qc) \<or> extends chain b (qc_ProposedBlockInfo l))"

lemma verifyVotingRule_iff:
  "snd (verifyVotingRule chain b (Some qc) x) = Inr True \<longleftrightarrow> may_vote chain x b qc"
  by (auto simp: verifyVotingRule_def may_vote_def isExtendingFromAncestor_def extends_def Let_def
      split: option.splits)

text \<open>The votes in a list of messages.\<close>

fun votes_of :: "message list \<Rightarrow> BlockInfo list" where
  "votes_of [] = []"
| "votes_of (MVote v # ms) = vote_ProposedBlockInfo v # votes_of ms"
| "votes_of (_ # ms) = votes_of ms"

lemma votes_of_append [simp]: "votes_of (ms @ ns) = votes_of ms @ votes_of ns"
  by (induction ms rule: votes_of.induct) simp_all

end
