(* ===== verification/Engine_Mining.thy ===== *)
theory Engine_Mining
  imports Engine_Handlers
begin

text \<open>
  Starting the engine, producing blocks and verifying headers (\<^verbatim>\<open>engine.go\<close>, \<^verbatim>\<open>mining.go\<close>,
  \<^verbatim>\<open>difficulty.go\<close>, \<^verbatim>\<open>verifyHeader.go\<close>, \<^verbatim>\<open>consensus/misc/eip1559\<close>). The penalty hook the node
  installs is an argument: \<open>None\<close> while no hook is set.
\<close>

section \<open>Start\<close>

type_synonym penalty_hook = "(int \<Rightarrow> hash \<Rightarrow> address list \<Rightarrow> address list eng) option"

text \<open>
  \<^verbatim>\<open>log.Crit\<close> ends the process: the constructor then has no engine. Calling the nil signing
  function panics.
\<close>

definition New :: "BRDPoSConfig \<Rightarrow> (hash \<Rightarrow> SnapshotV2 option) \<Rightarrow> error + BRDPoS_v2" where
  "New cfg d =
    (let c = CurrentConfig (cfg_V2 cfg)
     in case NewExpCountDown (int64_wrap (TimeoutPeriod c * 1000000000)) (ExpBase c) (ExpMaxExponent c) of
          Inl err \<Rightarrow> Inl err
        | Inr timeoutTimer \<Rightarrow>
            Inr \<lparr>config = cfg\<lparr>cfg_V2 := BuildConfigIndex (cfg_V2 cfg)\<rparr>, db = d, isInitilised = False, whosTurn = 0,
              snapshots = NewBasicLRU 128, signatures = NewBasicLRU 128, epochSwitches = NewBasicLRU 4500,
              verifiedHeaders = NewBasicLRU 128, round2epochBlockInfo = NewBasicLRU 65536,
              signer = 0, signFn = (\<lambda>a h. Inl Panic), broadcasts = [], minePeriods = [], newRoundCh = None,
              timeoutWorker = timeoutTimer, timeoutCount = 0, timeoutPool = NewPool, votePool = NewPool,
              currentRound = 0, highestSelfMinedRound = 0, highestVotedRound = 0,
              highestQuorumCert = \<lparr>qc_ProposedBlockInfo = \<lparr>bi_Hash = 0, bi_Round = 0, bi_Number = 0\<rparr>,
                                   qc_Signatures = [], qc_GapNumber = 0\<rparr>,
              lockQuorumCert = None,
              highestTimeoutCert = \<lparr>tc_Round = 0, tc_Signatures = Some [], tc_GapNumber = 0\<rparr>,
              highestCommitBlock = None, forensicsJobs = [], votePoolCollectionTime = None\<rparr>)"

definition UpdateParams :: "Header \<Rightarrow> unit eng" where
  "UpdateParams header =
    reads config (\<lambda>cfg.
      bindE (case getExtraFields cfg header of
               Inl err \<Rightarrow> if err = Panic then fail Panic else ok 0
             | Inr (_, rnd, _) \<Rightarrow> ok rnd) (\<lambda>rnd.
        bindE (liftE (UpdateConfig rnd (cfg_V2 cfg))) (\<lambda>v2.
          let c = CurrentConfig v2
          in modify (\<lambda>x. x\<lparr>config := cfg\<lparr>cfg_V2 := v2\<rparr>,
                           timeoutWorker := fst (timer_SetParams (int64_wrap (TimeoutPeriod c * 1000000000))
                             (ExpBase c) (ExpMaxExponent c) (timeoutWorker x)),
                           minePeriods := minePeriods x @ [MinePeriod c]\<rparr>))))"

definition SignHash :: "env \<Rightarrow> Header \<Rightarrow> hash" where
  "SignHash E header = sigHash (keccak E) header"

definition first_cert :: "env \<Rightarrow> BRDPoSConfig \<Rightarrow> Header \<Rightarrow> QuorumCert" where
  "first_cert E cfg header =
    \<lparr>qc_ProposedBlockInfo = \<lparr>bi_Hash = Header_Hash (keccak E) header, bi_Round = 0, bi_Number = Number header\<rparr>,
     qc_Signatures = [],
     qc_GapNumber = (if big_Uint64 (Number header) < Gap cfg then 0 else big_Uint64 (Number header) - Gap cfg)\<rparr>"

definition first_snapshot :: "env \<Rightarrow> ChainReader \<Rightarrow> unit eng" where
  "first_snapshot E chain =
    reads config (\<lambda>cfg.
      let switch = big_Uint64 (SwitchBlock (cfg_V2 cfg));
          lastGapNum = (if switch < Gap cfg then 0 else switch - Gap cfg);
          lastGapHash = Header_ptr_Hash E (GetHeaderByNumber chain lastGapNum)
      in reads db (\<lambda>d. case loadSnapshot d lastGapHash of
           Inr _ \<Rightarrow> ok ()
         | Inl _ \<Rightarrow>
             (case GetHeaderByNumber chain switch of
                None \<Rightarrow> fail Panic
              | Some checkpointHeader \<Rightarrow>
                  bindE (liftE (getExtraFields cfg checkpointHeader)) (\<lambda>(_, _, masternodes).
                    if masternodes = [] then fail (Errorf ''masternodes are empty v2 switch number'')
                    else let snap = newSnapshot lastGapNum lastGapHash masternodes
                         in thenE (snapshots_Add (snap_Hash snap) snap) (storeSnapshot E snap)))))"

definition initial :: "env \<Rightarrow> ChainReader \<Rightarrow> Header \<Rightarrow> unit eng" where
  "initial E chain header =
    reads highestQuorumCert (\<lambda>hqc.
      if bi_Hash (qc_ProposedBlockInfo hqc) \<noteq> 0 then modify (\<lambda>x. x\<lparr>isInitilised := True\<rparr>)
      else reads config (\<lambda>cfg.
        thenE
         (if big_Int64 (Number header) = big_Int64 (SwitchBlock (cfg_V2 cfg))
          then modify (\<lambda>x. x\<lparr>currentRound := 1, highestQuorumCert := first_cert E cfg header\<rparr>)
          else bindE (liftE (getExtraFields cfg header)) (\<lambda>(quorumCert, _, _).
                 case quorumCert of None \<Rightarrow> fail Panic | Some qc \<Rightarrow> processQC E chain qc))
        (thenE (first_snapshot E chain)
         (modify (\<lambda>x. x\<lparr>minePeriods := minePeriods x @ [MinePeriod (CurrentConfig (cfg_V2 (config x)))],
                        timeoutWorker := timer_Reset 0 0 (timeoutWorker x), isInitilised := True\<rparr>)))))"

section \<open>Masternodes of the next epoch and the leader\<close>

definition truncate_nodes :: "address list \<Rightarrow> int \<Rightarrow> error + address list" where
  "truncate_nodes nodes m =
    (if m < int (length nodes) then if m < 0 then Inl Panic else Inr (take (nat m) nodes) else Inr nodes)"

definition calcMasternodes ::
  "env \<Rightarrow> penalty_hook \<Rightarrow> ChainReader \<Rightarrow> int \<Rightarrow> hash \<Rightarrow> u64 \<Rightarrow> (address list \<times> address list) eng" where
  "calcMasternodes E hook chain blockNum parentHash rnd =
    reads config (\<lambda>cfg. case V2_Config (cfg_V2 cfg) rnd of
      None \<Rightarrow> fail Panic
    | Some c \<Rightarrow>
        bindE (getSnapshot E chain (big_Uint64 blockNum) False) (\<lambda>snap.
          let candidates = NextEpochCandidates snap
          in if big_Uint64 blockNum = big_Uint64 (SwitchBlock (cfg_V2 cfg)) + 1
             then bindE (liftE (truncate_nodes candidates (MaxMasternodes c))) (\<lambda>nodes. ok (nodes, []))
             else (case hook of
                None \<Rightarrow> bindE (liftE (truncate_nodes candidates (MaxMasternodes c))) (\<lambda>nodes. ok (nodes, []))
              | Some HookPenalty \<Rightarrow>
                  bindE (HookPenalty blockNum parentHash candidates) (\<lambda>penalties.
                    bindE (liftE (truncate_nodes (RemoveItemFromArray candidates penalties) (MaxMasternodes c))) (\<lambda>masternodes.
                      ok (masternodes, penalties))))))"

definition leader :: "BRDPoSConfig \<Rightarrow> address list \<Rightarrow> u64 \<Rightarrow> address" where
  "leader cfg masterNodes rnd = masterNodes ! unat (rnd mod Epoch cfg mod of_nat (length masterNodes))"

definition yourturn :: "env \<Rightarrow> penalty_hook \<Rightarrow> ChainReader \<Rightarrow> u64 \<Rightarrow> Header \<Rightarrow> address \<Rightarrow> bool eng" where
  "yourturn E hook chain rnd parent signerAddress =
    reads highestSelfMinedRound (\<lambda>mined. reads config (\<lambda>cfg.
      if rnd \<le> mined then fail ErrAlreadyMined
      else bindE (liftE (isEpochSwitchAtRound cfg rnd parent)) (\<lambda>(isEpochSwitch, _).
        bindE (if isEpochSwitch
               then bindE (calcMasternodes E hook chain (Number parent + 1) (Header_Hash (keccak E) parent) rnd) (\<lambda>(ms, _). ok ms)
               else GetMasternodes E chain parent) (\<lambda>masterNodes.
          if masterNodes = [] then fail (Errorf ''masternodes not found'')
          else if Position masterNodes signerAddress = - 1 then ok False
          else thenE (modify (\<lambda>x. x\<lparr>whosTurn := leader cfg masterNodes rnd\<rparr>))
                 (ok (leader cfg masterNodes rnd = signerAddress))))))"

definition YourTurn :: "env \<Rightarrow> penalty_hook \<Rightarrow> ChainReader \<Rightarrow> Header \<Rightarrow> address \<Rightarrow> bool eng" where
  "YourTurn E hook chain parent signerAddress =
    thenE (reads isInitilised (\<lambda>i. if i then ok () else initial E chain parent))
    (reads config (\<lambda>cfg. reads currentRound (\<lambda>rnd.
      let waitedTime = int64_wrap (now E - big_Int64 (Time parent))
      in (case V2_Config (cfg_V2 cfg) rnd of
            None \<Rightarrow> fail Panic
          | Some c \<Rightarrow> if waitedTime < MinePeriod c then ok False
                      else yourturn E hook chain rnd parent signerAddress))))"

section \<open>Producing a block\<close>

definition calcDifficulty :: int where
  "calcDifficulty = 1"

definition Prepare :: "env \<Rightarrow> penalty_hook \<Rightarrow> ChainReader \<Rightarrow> Header \<Rightarrow> Header eng" where
  "Prepare E hook chain header =
    reads currentRound (\<lambda>rnd. reads highestQuorumCert (\<lambda>highestQC. reads config (\<lambda>cfg. reads signer (\<lambda>me.
      if ParentHash header \<noteq> bi_Hash (qc_ProposedBlockInfo highestQC) then fail ErrNotReadyToPropose
      else (case ExtraFields_EncodeToBytes \<lparr>ex_Round = rnd, ex_QuorumCert = Some highestQC\<rparr> of
        Inl _ \<Rightarrow> fail (Errorf ''rlp'')
      | Inr extraBytes \<Rightarrow>
          let header1 = header\<lparr>Extra := extraBytes, Nonce := 0\<rparr>;
              number = big_Uint64 (Number header)
          in (case GetHeader chain (ParentHash header) (number - 1) of
                None \<Rightarrow> fail ErrUnknownAncestor
              | Some parent \<Rightarrow>
                  bindE (yourturn E hook chain rnd parent me) (\<lambda>isMyTurn.
                    if \<not> isMyTurn then fail ErrNotReadyToMine
                    else let header2 = header1\<lparr>Difficulty := calcDifficulty\<rparr>
                    in bindE (IsEpochSwitch E header2) (\<lambda>(isEpochSwitchBlock, _).
                      bindE (if isEpochSwitchBlock
                             then bindE (calcMasternodes E hook chain (Number header) (ParentHash header) rnd) (\<lambda>(masterNodes, penalties).
                                    ok (header2\<lparr>Validators := Validators header2 @ ExtractAddressToBytes masterNodes,
                                                 Penalties := Penalties header2 @ ExtractAddressToBytes penalties\<rparr>))
                             else ok header2) (\<lambda>header3.
                        let t = Time parent + int (unat (Period cfg));
                            header4 = header3\<lparr>MixDigest := 0, Time := (if big_Int64 t < now E then now E else t)\<rparr>
                        in if Coinbase header4 \<noteq> me then fail ErrCoinbaseMismatch else ok header4)))))))))"

definition Authorize :: "address \<Rightarrow> (address \<Rightarrow> hash \<Rightarrow> error + signature) \<Rightarrow> unit eng" where
  "Authorize signerAddress fn = modify (\<lambda>x. x\<lparr>signer := signerAddress, signFn := fn\<rparr>)"

definition Author :: "env \<Rightarrow> Header \<Rightarrow> address eng" where
  "Author E header = ecrecover E header"

text \<open>\<open>stopped\<close>: the stop channel is readable; the sealed header, or none when stopped.\<close>

definition Seal :: "env \<Rightarrow> Header \<Rightarrow> bool \<Rightarrow> Header option eng" where
  "Seal E header stopped =
    (if big_Uint64 (Number header) = 0 then fail ErrUnknownBlock
     else if stopped then ok None
     else reads signFn (\<lambda>fn. reads signer (\<lambda>me.
       bindE (liftE (fn me (sigHash (keccak E) header))) (\<lambda>sig.
         bindE (liftE (DecodeBytesExtraFields (Extra header))) (\<lambda>decodedExtraField.
           thenE (modify (\<lambda>x. x\<lparr>highestSelfMinedRound := ex_Round decodedExtraField\<rparr>))
             (ok (Some (header\<lparr>Validator := sig\<rparr>))))))))"

definition CalcDifficulty :: int where
  "CalcDifficulty = calcDifficulty"

definition UpdateMasternodes :: "env \<Rightarrow> Header \<Rightarrow> address list \<Rightarrow> unit eng" where
  "UpdateMasternodes E header ms =
    (let snap = newSnapshot (big_Uint64 (Number header)) (Header_Hash (keccak E) header) ms
     in thenE (storeSnapshot E snap) (snapshots_Add (snap_Hash snap) snap))"

definition VerifyUncles :: "Block \<Rightarrow> error + unit" where
  "VerifyUncles block =
    (if block_uncles block \<noteq> [] then Inl (Errorf ''uncles not allowed in BRDPoS_v2'') else Inr ())"

definition FindParentBlockToAssign :: "ChainReader \<Rightarrow> Block option eng" where
  "FindParentBlockToAssign chain =
    reads highestQuorumCert (\<lambda>qc.
      ok (GetBlock chain (bi_Hash (qc_ProposedBlockInfo qc)) (big_Uint64 (bi_Number (qc_ProposedBlockInfo qc)))))"

definition periodicJob :: "unit eng" where
  "periodicJob = thenE hygieneVotePool hygieneTimeoutPool"

section \<open>Verifying a header\<close>

definition IsEIP1559 :: "ChainReader \<Rightarrow> int \<Rightarrow> bool" where
  "IsEIP1559 chain num \<longleftrightarrow>
    (case common_Eip1559Block chain of None \<Rightarrow> False | Some s \<Rightarrow> s \<le> num)
    \<or> (case cc_Eip1559Block chain of None \<Rightarrow> False | Some s \<Rightarrow> s \<le> num)"

definition CalcBaseFee :: "ChainReader \<Rightarrow> Header \<Rightarrow> int option" where
  "CalcBaseFee chain header = (if IsEIP1559 chain (Number header) then Some 12500000000 else None)"

definition VerifyEip1559Header :: "ChainReader \<Rightarrow> Header \<Rightarrow> error + unit" where
  "VerifyEip1559Header chain header =
    (if \<not> IsEIP1559 chain (Number header)
     then if BaseFee header \<noteq> None then Inl (Errorf ''invalid baseFee: want <nil>'') else Inr ()
     else if BaseFee header = None then Inl (Errorf ''header is missing baseFee'')
     else if BaseFee header \<noteq> CalcBaseFee chain header then Inl (Errorf ''invalid baseFee'')
     else Inr ())"

text \<open>\<^verbatim>\<open>if b { return err }\<close>\<close>

definition guardE :: "bool \<Rightarrow> error \<Rightarrow> unit eng" where
  "guardE b err = (if b then fail err else ok ())"

text \<open>The masternodes of the header: checked against the header for an epoch switch block.\<close>

definition verify_epoch_fields ::
  "env \<Rightarrow> penalty_hook \<Rightarrow> ChainReader \<Rightarrow> Header \<Rightarrow> u64 \<Rightarrow> address list eng" where
  "verify_epoch_fields E hook chain header rnd =
    bindE (IsEpochSwitch E header) (\<lambda>(isEpochSwitch, _).
      if isEpochSwitch
      then thenE (guardE (Nonce header \<noteq> 0) ErrInvalidCheckpointVote)
        (thenE (guardE (Validators header = []) ErrEmptyEpochSwitchValidators)
        (thenE (guardE (length (Validators header) mod 20 \<noteq> 0) ErrInvalidCheckpointSigners)
        (bindE (calcMasternodes E hook chain (Number header) (ParentHash header) rnd) (\<lambda>(localMasterNodes, localPenalties).
          thenE (guardE (\<not> CompareSignersLists localMasterNodes (ExtractAddressFromBytes (Validators header))) ErrValidatorsNotLegit)
          (thenE (guardE (\<not> CompareSignersLists localPenalties (ExtractAddressFromBytes (Penalties header))) ErrPenaltiesNotLegit)
          (ok localMasterNodes))))))
      else thenE (guardE (Validators header \<noteq> []) ErrInvalidFieldInNonEpochSwitch)
        (thenE (guardE (Penalties header \<noteq> []) ErrInvalidFieldInNonEpochSwitch)
        (GetMasternodes E chain header)))"

definition verify_proposer :: "env \<Rightarrow> BRDPoSConfig \<Rightarrow> Header \<Rightarrow> u64 \<Rightarrow> address list \<Rightarrow> error + unit" where
  "verify_proposer E cfg header rnd masterNodes =
    (case verifyMsgSignature E (sigHash (keccak E) header) (Validator header) masterNodes of
       Inl err \<Rightarrow> Inl err
     | Inr (verified, validatorAddress) \<Rightarrow>
         if \<not> verified then Inl ErrValidatorNotWithinMasternodes
         else if validatorAddress \<noteq> Coinbase header then Inl ErrCoinbaseAndValidatorMismatch
         else if leader cfg masterNodes rnd \<noteq> validatorAddress then Inl ErrNotItsTurn
         else Inr ())"

text \<open>
  The checks from the certificate on. The magic nonces are all zeroes and all ones; the hash of no
  uncles is that of the empty list.
\<close>

definition verify_certified ::
  "env \<Rightarrow> penalty_hook \<Rightarrow> ChainReader \<Rightarrow> Header \<Rightarrow> BRDPoSConfig \<Rightarrow> Header \<Rightarrow> QuorumCert \<Rightarrow> u64 \<Rightarrow> unit eng" where
  "verify_certified E hook chain header cfg parent qc rnd =
    thenE (guardE (rnd \<le> bi_Round (qc_ProposedBlockInfo qc)) ErrRoundInvalid)
    (thenE (verifyQC E chain (Some qc) (Some parent))
    (thenE (guardE (Nonce header \<noteq> - 1 \<and> Nonce header \<noteq> 0) ErrInvalidVote)
    (thenE (guardE (MixDigest header \<noteq> 0) ErrInvalidMixDigest)
    (thenE (guardE (UncleHash header \<noteq> keccak E [0xC0]) ErrInvalidUncleHash)
    (thenE (liftE (VerifyEip1559Header chain header))
    (thenE (guardE (Difficulty header \<noteq> 1) ErrInvalidDifficulty)
    (bindE (verify_epoch_fields E hook chain header rnd) (\<lambda>masterNodes.
      thenE (liftE (verify_proposer E cfg header rnd masterNodes))
      (verifiedHeaders_Add (Header_Hash (keccak E) header)))))))))) "

text \<open>The checks from the parent on.\<close>

definition verify_with_parent ::
  "env \<Rightarrow> penalty_hook \<Rightarrow> ChainReader \<Rightarrow> Header \<Rightarrow> BRDPoSConfig \<Rightarrow> Header \<Rightarrow> unit eng" where
  "verify_with_parent E hook chain header cfg parent =
    thenE (guardE (big_Uint64 (Number parent) \<noteq> big_Uint64 (Number header) - 1
                   \<or> Header_Hash (keccak E) parent \<noteq> ParentHash header) ErrUnknownAncestor)
    (case getExtraFields cfg header of
       Inl err \<Rightarrow> fail (if err = Panic then Panic else ErrInvalidV2Extra)
     | Inr (quorumCert, rnd, _) \<Rightarrow>
         (case V2_Config (cfg_V2 cfg) rnd of
            None \<Rightarrow> fail Panic
          | Some c \<Rightarrow>
              thenE (guardE (big_Uint64 (SwitchBlock (cfg_V2 cfg)) < big_Uint64 (Number parent)
                       \<and> big_Uint64 (Time header) < big_Uint64 (Time parent) + big_Uint64 (MinePeriod c)) ErrInvalidTimestamp)
              (case quorumCert of
                 None \<Rightarrow> fail Panic
               | Some qc \<Rightarrow> verify_certified E hook chain header cfg parent qc rnd)))"

definition verifyHeader :: "env \<Rightarrow> penalty_hook \<Rightarrow> ChainReader \<Rightarrow> Header \<Rightarrow> Header list \<Rightarrow> bool \<Rightarrow> unit eng" where
  "verifyHeader E hook chain header parents fullVerify =
    reads config (\<lambda>cfg.
      if SkipV2Validation (cfg_V2 cfg) then ok ()
      else thenE (reads isInitilised (\<lambda>i. if i then ok () else initial E chain header))
      (bindE (verifiedHeaders_Get (Header_Hash (keccak E) header)) (\<lambda>check.
        if check \<noteq> None then ok ()
        else thenE (guardE (Validator header = []) ErrNoValidatorSignatureV2)
        (thenE (guardE (fullVerify \<and> now E < big_Int64 (Time header)) ErrFutureBlock)
        (case (if parents \<noteq> [] then Some (last parents)
               else GetHeader chain (ParentHash header) (big_Uint64 (Number header) - 1)) of
           None \<Rightarrow> fail ErrUnknownAncestor
         | Some parent \<Rightarrow> verify_with_parent E hook chain header cfg parent)))))"

definition VerifyHeader :: "env \<Rightarrow> penalty_hook \<Rightarrow> ChainReader \<Rightarrow> Header \<Rightarrow> bool \<Rightarrow> unit eng" where
  "VerifyHeader E hook chain header fullVerify = verifyHeader E hook chain header [] fullVerify"

text \<open>
  The goroutine of \<^verbatim>\<open>VerifyHeaders\<close>: the results are sent in the order of the headers, and a failing
  header does not stop the next ones. A too short list of flags is an index out of range.
\<close>

fun verifyHeaders_loop ::
  "env \<Rightarrow> penalty_hook \<Rightarrow> ChainReader \<Rightarrow> Header list \<Rightarrow> Header list \<Rightarrow> bool list \<Rightarrow> (error + unit) list eng" where
  "verifyHeaders_loop E hook chain seen [] fullVerifies = ok []"
| "verifyHeaders_loop E hook chain seen (header # headers) [] = fail Panic"
| "verifyHeaders_loop E hook chain seen (header # headers) (full # fullVerifies) =
    handleE (verifyHeader E hook chain header seen full) (\<lambda>r.
      bindE (verifyHeaders_loop E hook chain (seen @ [header]) headers fullVerifies) (\<lambda>results.
        ok (r # results)))"

definition VerifyHeaders :: "env \<Rightarrow> penalty_hook \<Rightarrow> ChainReader \<Rightarrow> Header list \<Rightarrow> bool list \<Rightarrow> (error + unit) list eng" where
  "VerifyHeaders E hook chain headers fullVerifies = verifyHeaders_loop E hook chain [] headers fullVerifies"

section \<open>What an accepted header shows\<close>

lemma guardE_eval [comp_simps]: "guardE b e x = (x, if b then Inl e else Inr ())"
  by (simp add: guardE_def comp_simps)

lemma guard_thenE: "thenE (guardE b e) k x = (if b then (x, Inl e) else k x)"
  by (simp add: comp_simps)

lemma verify_proposer_Inr:
  "verify_proposer E cfg h rnd nodes = Inr () \<Longrightarrow>
    signed_by E (sigHash (keccak E) h) (Validator h) (Coinbase h) \<and> Coinbase h \<in> set nodes \<and> Coinbase h = leader cfg nodes rnd"
  by (auto simp: verify_proposer_def split: sum.splits if_splits prod.splits dest: verifyMsgSignature_Inr)

lemma verify_epoch_fields_Inr:
  assumes "verify_epoch_fields E hook chain h rnd x = (y, Inr nodes)"
  shows "(\<exists>n. switch_result (config x) h = Inr (True, n) \<and> mset nodes = mset (ExtractAddressFromBytes (Validators h)))
    \<or> (\<exists>n x1. switch_result (config x) h = Inr (False, n) \<and> Validators h = [] \<and> Penalties h = [] \<and> cache_only x x1
        \<and> GetMasternodes E chain h x1 = (y, Inr nodes))"
proof -
  obtain x1 r where i: "IsEpochSwitch E h x = (x1, r)" by fastforce
  have s: "r = switch_result (config x) h" using IsEpochSwitch_result [of E h x] i by simp
  have c: "cache_only x x1" using IsEpochSwitch_co i by (rule keepsE)
  show ?thesis
    using assms i s c unfolding verify_epoch_fields_def
    by (auto simp: comp_simps CompareSignersLists_mset split: sum.splits if_splits prod.splits)
qed

lemma verify_certified_Inr:
  assumes "verify_certified E hook chain h cfg parent qc rnd x = (y, Inr ())"
  shows "bi_Round (qc_ProposedBlockInfo qc) < rnd \<and> Difficulty h = 1 \<and> MixDigest h = 0
    \<and> (\<exists>x1 x2 nodes. verifyQC E chain (Some qc) (Some parent) x = (x1, Inr ())
        \<and> verify_epoch_fields E hook chain h rnd x1 = (x2, Inr nodes) \<and> verify_proposer E cfg h rnd nodes = Inr ())"
proof -
  obtain x1 rq where q: "verifyQC E chain (Some qc) (Some parent) x = (x1, rq)" by fastforce
  obtain x2 rn where n: "verify_epoch_fields E hook chain h rnd x1 = (x2, rn)" by fastforce
  show ?thesis
    using assms q n unfolding verify_certified_def
    by (auto simp: comp_simps split: if_splits sum.splits)
qed

lemma verify_with_parent_Inr:
  assumes "verify_with_parent E hook chain h cfg parent x = (y, Inr ())"
  shows "Header_Hash (keccak E) parent = ParentHash h \<and> big_Uint64 (Number parent) = big_Uint64 (Number h) - 1
    \<and> (\<exists>qc rnd ms. getExtraFields cfg h = Inr (Some qc, rnd, ms)
        \<and> verify_certified E hook chain h cfg parent qc rnd x = (y, Inr ()))"
  using assms unfolding verify_with_parent_def
  by (auto simp: comp_simps split: if_splits sum.splits option.splits prod.splits)

lemma verifyHeader_Inr:
  assumes "verifyHeader E hook chain h parents full x = (y, Inr ())"
    and "\<not> SkipV2Validation (cfg_V2 (config x))" and "isInitilised x"
    and "lru_Peek (verifiedHeaders x) (Header_Hash (keccak E) h) = None"
  shows "\<exists>parent x1. cache_only x x1 \<and> verify_with_parent E hook chain h (config x) parent x1 = (y, Inr ())
    \<and> (parents = [] \<longrightarrow> GetHeader chain (ParentHash h) (big_Uint64 (Number h) - 1) = Some parent)"
proof -
  let ?x1 = "x\<lparr>verifiedHeaders := fst (lru_Get (Header_Hash (keccak E) h) (verifiedHeaders x))\<rparr>"
  have g: "verifiedHeaders_Get (Header_Hash (keccak E) h) x = (?x1, Inr None)"
    using assms(4) lruc.get_value [of "Header_Hash (keccak E) h" "verifiedHeaders x"]
    by (simp add: verifiedHeaders_Get_def case_prod_beta)
  have c: "cache_only x ?x1" by (simp add: cache_only_def strip_caches_def)
  show ?thesis
    using assms(1-3) g c unfolding verifyHeader_def
    by (intro exI [of _ "case (if parents \<noteq> [] then Some (last parents)
               else GetHeader chain (ParentHash h) (big_Uint64 (Number h) - 1)) of Some p \<Rightarrow> p"] exI [of _ ?x1])
      (simp add: comp_simps split: option.splits if_splits)
qed

lemma VerifyBlockInfo_parent:
  assumes "VerifyBlockInfo E cfg chain b (Some p) = Inr ()"
  shows "bi_Hash b = Header_Hash (keccak E) p \<and> bi_Number b = Number p
    \<and> (Number p = SwitchBlock (cfg_V2 cfg) \<and> bi_Round b = 0 \<or> Number p \<noteq> SwitchBlock (cfg_V2 cfg) \<and> round_of cfg p (bi_Round b))"
  using assms by (auto simp: VerifyBlockInfo_def round_of_def split: if_splits sum.splits)


section \<open>Starting from an unverified header\<close>

lemma processQC_unknown:
  assumes "GetHeaderByHash chain (bi_Hash (qc_ProposedBlockInfo qc)) = None"
  shows "processQC E chain qc x = (update_highestQC qc x, Inl (Errorf ''block not found''))"
  using assms by (simp add: processQC_def comp_simps)

text \<open>
  C37: an engine that is not initialised yet takes the certificate of the first header it is asked to
  verify before verifying anything: when the certified block is unknown the header is rejected,
  but its certificate, whatever its signatures, stays the engine's highest certificate, and the
  next header finds the engine initialised by it.
\<close>

theorem unverified_header_leaves_certificate:
  assumes "\<not> SkipV2Validation (cfg_V2 (config x))" and "\<not> isInitilised x"
    and "bi_Hash (qc_ProposedBlockInfo (highestQuorumCert x)) = 0"
    and "big_Int64 (Number h) \<noteq> big_Int64 (SwitchBlock (cfg_V2 (config x)))"
    and "getExtraFields (config x) h = Inr (Some qc, rnd, ms)"
    and "hqc_round x < bi_Round (qc_ProposedBlockInfo qc)" and "bi_Hash (qc_ProposedBlockInfo qc) \<noteq> 0"
    and "GetHeaderByHash chain (bi_Hash (qc_ProposedBlockInfo qc)) = None"
  shows "\<exists>y e. verifyHeader E hook chain h parents full x = (y, Inl e) \<and> highestQuorumCert y = qc
    \<and> currentRound y = currentRound x \<and> (\<forall>h'. initial E chain h' y = (y\<lparr>isInitilised := True\<rparr>, Inr ()))"
  using assms processQC_unknown [OF assms(8)]
  by (auto simp: verifyHeader_def initial_def comp_simps update_highestQC_def)

theorem unverified_header_leaves_certificate_witness:
  "\<exists>x y e. verifyHeader sample_env None next_chain (sample_block 902 5 4 (sample_qc 77 3 901)) [] True x = (y, Inl e)
    \<and> highestQuorumCert y = sample_qc 77 3 901"
proof -
  let ?x = "sample_engine\<lparr>isInitilised := False, highestQuorumCert := sample_qc 0 0 0\<rparr>"
  have c: "config ?x = sample_config" by (simp add: sample_switch)
  have "\<not> SkipV2Validation (cfg_V2 sample_config)" "big_Int64 902 \<noteq> big_Int64 900"
    by (simp_all add: sample_config_def big_Int64_def)
  with unverified_header_leaves_certificate [of ?x "sample_block 902 5 4 (sample_qc 77 3 901)" "sample_qc 77 3 901" 4 "[]"
      next_chain sample_env None "[]" True]
  show ?thesis unfolding c by (auto simp: sample_block_extra sample_switch) (auto simp: sample_qc_def)
qed

section \<open>Producing blocks\<close>

lemma yourturn_True:
  assumes "yourturn E hook chain rnd parent a x = (y, Inr True)"
  shows "highestSelfMinedRound x < rnd \<and> (\<exists>nodes. a \<in> set nodes \<and> leader (config x) nodes rnd = a)"
  using assms
  by (auto simp: yourturn_def comp_simps Position_def Position_from_neg not_le split: if_splits sum.splits prod.splits)

lemma yourturn_mined: "rnd \<le> highestSelfMinedRound x \<Longrightarrow> yourturn E hook chain rnd p a x = (x, Inl ErrAlreadyMined)"
  by (simp add: yourturn_def comp_simps)

lemma Prepare_Inr:
  assumes "Prepare E hook chain h x = (y, Inr h')"
  shows "ParentHash h' = bi_Hash (qc_ProposedBlockInfo (highestQuorumCert x)) \<and> Coinbase h' = signer x \<and> Difficulty h' = 1
    \<and> MixDigest h' = 0 \<and> Nonce h' = 0 \<and> Number h' = Number h
    \<and> ExtraFields_EncodeToBytes \<lparr>ex_Round = currentRound x, ex_QuorumCert = Some (highestQuorumCert x)\<rparr> = Inr (Extra h')
    \<and> (\<exists>p x1. yourturn E hook chain (currentRound x) p (signer x) x = (x1, Inr True))"
proof -
  have p: "ParentHash h = bi_Hash (qc_ProposedBlockInfo (highestQuorumCert x))"
    using assms by (auto simp: Prepare_def comp_simps split: if_splits)
  obtain bs where e: "ExtraFields_EncodeToBytes \<lparr>ex_Round = currentRound x, ex_QuorumCert = Some (highestQuorumCert x)\<rparr> = Inr bs"
    using assms p by (auto simp: Prepare_def comp_simps split: sum.splits)
  obtain parent where g: "GetHeader chain (ParentHash h) (big_Uint64 (Number h) - 1) = Some parent"
    using assms p e by (auto simp: Prepare_def comp_simps split: option.splits)
  obtain x1 r where t: "yourturn E hook chain (currentRound x) parent (signer x) x = (x1, r)" by fastforce
  have r: "r = Inr True"
    using assms p e g t by (auto simp: Prepare_def comp_simps split: sum.splits if_splits)
  have "ParentHash h' = ParentHash h \<and> Coinbase h' = signer x \<and> Difficulty h' = 1 \<and> MixDigest h' = 0 \<and> Nonce h' = 0
      \<and> Number h' = Number h \<and> Extra h' = bs"
    using assms p e g t r
    by (auto simp: Prepare_def comp_simps Let_def calcDifficulty_def split: sum.splits if_splits prod.splits)
  then show ?thesis using p e t unfolding r by auto
qed

lemma Seal_Inr:
  assumes "Seal E h stopped x = (y, Inr (Some s))"
  shows "\<exists>ex sig. DecodeBytesExtraFields (Extra h) = Inr ex \<and> highestSelfMinedRound y = ex_Round ex \<and> s = h\<lparr>Validator := sig\<rparr>"
  using assms by (auto simp: Seal_def comp_simps split: if_splits sum.splits prod.splits)


subsection \<open>A block produced and accepted\<close>

text \<open>The node 5 leads round 2 on top of the block 901, whose certificate it has.\<close>

definition leader_engine :: BRDPoS_v2 where
  "leader_engine = sample_engine\<lparr>highestQuorumCert := sample_qc 5 1 901, currentRound := 2\<rparr>"

definition draft_header :: Header where
  "draft_header = sample_header\<lparr>ParentHash := 5, Number := 902, Coinbase := 5, UncleHash := 5\<rparr>"

definition prepared_header :: Header where
  "prepared_header = draft_header\<lparr>Extra := sample_extra 2 (sample_qc 5 1 901), Time := 1000\<rparr>"

definition sealed_header :: Header where
  "sealed_header = prepared_header\<lparr>Validator := [1]\<rparr>"

lemma leader_engine_fields: "config leader_engine = sample_config" "signer leader_engine = 5" "currentRound leader_engine = 2"
    "highestQuorumCert leader_engine = sample_qc 5 1 901" "highestSelfMinedRound leader_engine = 0"
    "signFn leader_engine = (\<lambda>a h. Inr [1])" "isInitilised leader_engine" "fresh leader_engine"
  using fresh_engine by (simp_all add: leader_engine_def fresh_def sample_engine_def)

lemma prepared_fields: "Number prepared_header = 902" "ParentHash prepared_header = 5" "Coinbase prepared_header = 5"
    "Extra prepared_header = sample_extra 2 (sample_qc 5 1 901)" "Validators prepared_header = []"
    "Penalties prepared_header = []" "Difficulty prepared_header = 1" "MixDigest prepared_header = 0" "Nonce prepared_header = 0"
    "UncleHash prepared_header = 5" "BaseFee prepared_header = None" "Time prepared_header = 1000"
  by (simp_all add: prepared_header_def draft_header_def sample_header_def)

lemma sample_info: "qc_ProposedBlockInfo (sample_qc k r n) = \<lparr>bi_Hash = k, bi_Round = r, bi_Number = n\<rparr>"
    "qc_Signatures (sample_qc k r n) = [[1]]" "qc_GapNumber (sample_qc k r n) = 450"
  by (simp_all add: sample_qc_def)

lemma sample_epoch: "Epoch sample_config = 900" "SwitchEpoch (cfg_V2 sample_config) = 1" "Period sample_config = 2"
    "\<not> SkipV2Validation (cfg_V2 sample_config)" "now sample_env = 1000"
  by (simp_all add: sample_config_def sample_env_def)

lemma extra_of_902:
  assumes "Number h = 902" and "Extra h = sample_extra 2 (sample_qc 5 1 901)" and "Validators h = []"
  shows "getExtraFields sample_config h = Inr (Some (sample_qc 5 1 901), 2, [])"
    and "config x = sample_config \<Longrightarrow> IsEpochSwitch sample_env h x = (x, Inr (False, 1))"
proof -
  show e: "getExtraFields sample_config h = Inr (Some (sample_qc 5 1 901), 2, [])"
    using assms by (simp add: getExtraFields_def sample_extra_decodes sample_switch GetMasternodesFromEpochSwitchHeader_def addresses_at_def)
  show "config x = sample_config \<Longrightarrow> IsEpochSwitch sample_env h x = (x, Inr (False, 1))"
    using assms(1) e by (simp add: IsEpochSwitch_def comp_simps sample_switch sample_info sample_epoch Let_def)
qed

lemma leader_turn: "\<exists>y. yourturn sample_env None next_chain 2 next_block 5 leader_engine = (y, Inr True) \<and> config y = sample_config"
proof -
  have i: "isEpochSwitchAtRound sample_config 2 next_block = Inr (False, 1)"
    by (simp add: isEpochSwitchAtRound_def sample_switch next_masternodes sample_epoch Let_def)
  obtain y where y: "getEpochSwitchInfo sample_env next_chain (Some next_block) 5 leader_engine = (y, Inr next_block_info)"
    using next_epoch_info [OF leader_engine_fields(8)] by blast
  have c: "config y = sample_config" using cache_only_fields(1) [OF getEpochSwitchInfo_fields [OF y]] by (simp add: leader_engine_fields)
  have "GetMasternodes sample_env next_chain next_block leader_engine = (y, Inr [5])"
    using y by (simp add: GetMasternodes_def epoch_list_def comp_simps next_block_info_def)
  then show ?thesis
    using i c by (simp add: yourturn_def comp_simps leader_engine_fields Position_def leader_def)
qed

lemma leader_prepares: "\<exists>y. Prepare sample_env None next_chain draft_header leader_engine = (y, Inr prepared_header)"
proof -
  obtain y where y: "yourturn sample_env None next_chain 2 next_block 5 leader_engine = (y, Inr True)" "config y = sample_config"
    using leader_turn by blast
  obtain bs where e: "ExtraFields_EncodeToBytes \<lparr>ex_Round = 2, ex_QuorumCert = Some (sample_qc 5 1 901)\<rparr> = Inr bs"
    using ExtraFields_roundtrip_aux [of "\<lparr>ex_Round = 2, ex_QuorumCert = Some (sample_qc 5 1 901)\<rparr>"] sample_qc_wf [of 901 5 1] by auto
  then have bs: "bs = sample_extra 2 (sample_qc 5 1 901)" by (simp add: sample_extra_def)
  have d: "ParentHash draft_header = 5" "Number draft_header = 902" "Coinbase draft_header = 5" "Validators draft_header = []"
    by (simp_all add: draft_header_def sample_header_def)
  have "Time next_block = 10" by (simp add: next_block_def sample_block_def sample_header_def)
  moreover have "draft_header\<lparr>Extra := bs, Nonce := 0, Difficulty := 1, MixDigest := 0, Time := 1000\<rparr> = prepared_header"
    by (simp add: bs prepared_header_def draft_header_def sample_header_def)
  ultimately show ?thesis
    using y e extra_of_902(2) [of "draft_header\<lparr>Extra := bs, Nonce := 0, Difficulty := 1\<rparr>" y]
    by (simp add: Prepare_def comp_simps leader_engine_fields sample_info d Let_def calcDifficulty_def sample_epoch bs big_Int64_def)
qed

lemma leader_seals: "\<exists>z. Seal sample_env prepared_header False leader_engine = (z, Inr (Some sealed_header))"
  by (simp add: Seal_def comp_simps prepared_fields leader_engine_fields sample_extra_decodes sealed_header_def big_Uint64_def)


lemma next_verifyQC:
  assumes "fresh x"
  shows "\<exists>y. verifyQC sample_env next_chain (Some (sample_qc 5 1 901)) (Some next_block) x = (y, Inr ())
    \<and> lru_Peek (epochSwitches y) 5 = Some next_block_info \<and> config y = sample_config"
proof -
  obtain y where y: "getEpochSwitchInfo sample_env next_chain (Some next_block) 5 x = (y, Inr next_block_info)"
    using next_epoch_info [OF assms] by blast
  have c: "config y = sample_config" using cache_only_fields(1) [OF getEpochSwitchInfo_fields [OF y]] assms by (simp add: fresh_def)
  have "Ecrecover sample_env 5 [1] = Some [4, 1]" by (simp add: sample_env_def)
  then have s: "sigs_error (qc_sig_check sample_env (sample_qc 5 1 901) [5]) (fst (UniqueSignatures [[1]])) = None"
    by (simp add: sigs_error_None UniqueSignatures_correct qc_sig_check_def verifyMsgSignature_def pubkey_address_def Let_def)
  have t: "\<not> below_threshold (length (fst (UniqueSignatures [[1]]))) 1 (CertThreshold sample_V2Config)"
    using one_of_one by (simp add: UniqueSignatures_def)
  have b: "VerifyBlockInfo sample_env sample_config next_chain \<lparr>bi_Hash = 5, bi_Round = 1, bi_Number = 901\<rparr> (Some next_block) = Inr ()"
    by (simp add: VerifyBlockInfo_def next_masternodes sample_switch)
  have g: "gap_number sample_config 901 = 450" by (simp add: gap_number_def sample_config_def)
  have "verifyQC sample_env next_chain (Some (sample_qc 5 1 901)) (Some next_block) x = (y, Inr ())"
    using y c s t b g by (simp add: verifyQC_def comp_simps sample_info next_block_info_def Let_def sample_V2_Config big_Uint64_def)
  then show ?thesis using c getEpochSwitchInfo_peek [OF y] by blast
qed

lemma sealed_accepted: "\<exists>y. verifyHeader sample_env None next_chain sealed_header [] True leader_engine = (y, Inr ())"
proof -
  let ?x = "leader_engine\<lparr>verifiedHeaders := fst (lru_Get 5 (verifiedHeaders leader_engine))\<rparr>"
  have g: "verifiedHeaders_Get 5 leader_engine = (?x, Inr None)"
    using lruc.get_value [of 5 "verifiedHeaders leader_engine"]
    by (simp add: verifiedHeaders_Get_def case_prod_beta) (simp add: leader_engine_def sample_engine_def)
  have "fresh ?x" using leader_engine_fields(8) by (simp add: fresh_def)
  from next_verifyQC [OF this] obtain y where
    q: "verifyQC sample_env next_chain (Some (sample_qc 5 1 901)) (Some next_block) ?x = (y, Inr ())"
      "lru_Peek (epochSwitches y) 5 = Some next_block_info" "config y = sample_config" by blast
  have f: "Number sealed_header = 902" "Extra sealed_header = sample_extra 2 (sample_qc 5 1 901)" "Validators sealed_header = []"
      "ParentHash sealed_header = 5" "Penalties sealed_header = []" "Coinbase sealed_header = 5" "Validator sealed_header = [1]"
      "Difficulty sealed_header = 1" "MixDigest sealed_header = 0" "Nonce sealed_header = 0" "UncleHash sealed_header = 5"
      "BaseFee sealed_header = None" "Time sealed_header = 1000" "Time next_block = 10"
    by (simp_all add: sealed_header_def prepared_fields next_block_def sample_block_def sample_header_def)
  note x = extra_of_902 [OF f(1-3)]
  from getEpochSwitchInfo_hit [OF q(2), of sample_env next_chain "Some sealed_header"] obtain z where
    z: "getEpochSwitchInfo sample_env next_chain (Some sealed_header) 5 y = (z, Inr next_block_info)" by blast
  have e: "verify_epoch_fields sample_env None next_chain sealed_header 2 y = (z, Inr [5])"
    using x(2) [OF q(3)] z by (simp add: verify_epoch_fields_def comp_simps f GetMasternodes_def epoch_list_def next_block_info_def)
  have "Ecrecover sample_env 5 [1] = Some [4, 1]" by (simp add: sample_env_def)
  then have p: "verify_proposer sample_env sample_config sealed_header 2 [5] = Inr ()"
    by (simp add: verify_proposer_def verifyMsgSignature_def pubkey_address_def Let_def f leader_def)
  have m: "MinePeriod sample_V2Config = 2" by (simp add: sample_V2Config_def v2config_def)
  have two: "\<not> (2 :: u64) \<le> 1" by code_simp
  have b: "VerifyEip1559Header next_chain sealed_header = Inr ()"
    by (simp add: VerifyEip1559Header_def IsEIP1559_def f next_chain_def switch_chain_def sample_chain_def)
  have "\<exists>w. verify_with_parent sample_env None next_chain sealed_header sample_config next_block ?x = (w, Inr ())"
    using q(1) e p x(1) b m two
    by (simp add: verify_with_parent_def verify_certified_def comp_simps f sample_info sample_V2_Config sample_switch big_Uint64_def
        verifiedHeaders_Add_def)
  then show ?thesis
    using g by (simp add: verifyHeader_def comp_simps leader_engine_fields sample_epoch f big_Uint64_def big_Int64_def)
qed


section \<open>The masternodes of the next epoch\<close>

lemma truncate_nodes_Inr: "truncate_nodes nodes m = Inr r \<Longrightarrow> r = take (nat m) nodes \<and> 0 \<le> m"
  by (auto simp: truncate_nodes_def split: if_splits)

text \<open>
  C39: the masternodes computed for an epoch are the first candidates of the snapshot at the gap
  block, in their order, with the penalised ones left out and cut to the configured maximum; only the
  installed hook penalises, and never for the first block of the engine.
\<close>

theorem calcMasternodes_selects:
  assumes "calcMasternodes E hook chain n parentHash rnd x = (y, Inr (nodes, penalties))"
    and "V2_Config (cfg_V2 (config x)) rnd = Some c"
  shows "\<exists>x1 snap. getSnapshot E chain (big_Uint64 n) False x = (x1, Inr snap) \<and> 0 \<le> MaxMasternodes c
    \<and> nodes = take (nat (MaxMasternodes c)) (filter (\<lambda>a. a \<notin> set penalties) (NextEpochCandidates snap))
    \<and> (if hook = None \<or> big_Uint64 n = big_Uint64 (SwitchBlock (cfg_V2 (config x))) + 1
       then penalties = [] else the hook n parentHash (NextEpochCandidates snap) x1 = (y, Inr penalties))"
proof -
  obtain x1 r where g: "getSnapshot E chain (big_Uint64 n) False x = (x1, r)" by fastforce
  show ?thesis
    using assms g unfolding calcMasternodes_def
    by (auto simp: comp_simps Let_def RemoveItemFromArray_filter split: sum.splits if_splits option.splits prod.splits
        dest!: truncate_nodes_Inr)
qed

theorem calcMasternodes_selects_witness:
  "\<exists>y nodes penalties. calcMasternodes sample_env (Some (\<lambda>n h cs. ok cs)) next_chain 1200 5 300 sample_engine = (y, Inr (nodes, penalties))
    \<and> nodes = [] \<and> penalties = [5]"
proof -
  have g: "gap_number sample_config 1200 = 450" by (simp add: gap_number_def sample_config_def)
  obtain y where y: "getSnapshot sample_env next_chain 1200 False sample_engine = (y, Inr (newSnapshot 450 5 [5]))"
    using fresh_snapshot [OF fresh_engine, of False 1200] g by auto
  have m: "MaxMasternodes sample_V2Config = 108" by (simp add: sample_V2Config_def v2config_def)
  have c: "config sample_engine = sample_config" using fresh_engine by (simp add: fresh_def)
  let ?k = "calcMasternodes sample_env (Some (\<lambda>n h cs. ok cs)) next_chain 1200 5 300 sample_engine"
  have "?k = (y, Inr ([], [5]))"
    using y m c by (simp add: calcMasternodes_def comp_simps Let_def sample_V2_Config sample_switch big_Uint64_def newSnapshot_def
        truncate_nodes_def RemoveItemFromArray_filter)
  moreover from calcMasternodes_selects [OF this, of sample_V2Config] y c
  have "[] = take (nat 108) (filter (\<lambda>a. a \<notin> set [5]) ([5] :: address list))"
    by (auto simp: sample_V2_Config m newSnapshot_def)
  ultimately show ?thesis by blast
qed

end
