(* ===== verification/Bft.thy ===== *)
theory Bft
  imports Engine_Mining
begin

text \<open>
  The receiver of consensus messages (\<^verbatim>\<open>eth/bft/bft_handler.go\<close>): a message from a peer that is close
  enough to the head of the chain is verified by the engine, passed on to the other peers and
  handled. The height of the chain, which the receiver asks for by a callback, is an argument, and
  passing on is a send to the engine's broadcast channel.
\<close>

section \<open>Operations\<close>

record Bfter =
  bft_epoch :: u64

definition Bft_New :: Bfter where
  "Bft_New = \<lparr>bft_epoch = 0\<rparr>"

definition InitEpochNumber :: "BRDPoSConfig \<Rightarrow> Bfter \<Rightarrow> Bfter" where
  "InitEpochNumber cfg b = b\<lparr>bft_epoch := Epoch cfg\<rparr>"

definition maxBlockDist :: int where
  "maxBlockDist = 7"

definition too_far :: "int \<Rightarrow> int \<Rightarrow> u64 \<Rightarrow> bool" where
  "too_far bound n chainHeight \<longleftrightarrow>
    (let dist = int64_wrap (n - sint chainHeight) in dist < int64_wrap (- bound) \<or> bound < dist)"

definition Bft_Vote :: "env \<Rightarrow> ChainReader \<Rightarrow> u64 \<Rightarrow> Vote \<Rightarrow> unit eng" where
  "Bft_Vote E chain chainHeight vote =
    (if too_far maxBlockDist (big_Int64 (bi_Number (vote_ProposedBlockInfo vote))) chainHeight then ok ()
     else bindE (VerifyVoteMessage E chain vote) (\<lambda>(verified, vote').
       if verified then thenE (broadcastToBftChannel (MVote vote')) (VoteHandler E chain vote') else ok ()))"

definition Bft_Timeout :: "env \<Rightarrow> Bfter \<Rightarrow> ChainReader \<Rightarrow> u64 \<Rightarrow> Timeout \<Rightarrow> unit eng" where
  "Bft_Timeout E b chain chainHeight timeout =
    (if too_far (int64_wrap (sint (bft_epoch b) * 3)) (sint (to_GapNumber timeout)) chainHeight then ok ()
     else bindE (VerifyTimeoutMessage E chain timeout) (\<lambda>(verified, timeout').
       if verified then thenE (broadcastToBftChannel (MTimeout timeout')) (TimeoutHandler E chain timeout') else ok ()))"

definition Bft_SyncInfo :: "env \<Rightarrow> ChainReader \<Rightarrow> u64 \<Rightarrow> SyncInfo \<Rightarrow> unit eng" where
  "Bft_SyncInfo E chain chainHeight syncInfo =
    (if too_far maxBlockDist (big_Int64 (bi_Number (qc_ProposedBlockInfo (si_HighestQuorumCert syncInfo)))) chainHeight
     then ok ()
     else bindE (VerifySyncInfoMessage E chain syncInfo) (\<lambda>verified.
       if verified then thenE (broadcastToBftChannel (MSyncInfo syncInfo)) (SyncInfoHandler E chain syncInfo) else ok ()))"

end
