(* ===== verification/Node.thy ===== *)
theory Node
  imports Bft "HOL-Library.Sublist"
begin

text \<open>
  A node: the engine with the sequence of calls it receives from the rest of the program. The network
  delivers messages through \<^verbatim>\<open>eth/bft\<close>, the fetcher, downloader and miner deliver proposed blocks
  (\<^verbatim>\<open>HandleProposedBlock\<close>) and headers to verify, the miner asks for blocks, the countdown timer and
  the periodic job fire, and the chain reports gap blocks and new epochs.
\<close>

section \<open>Events\<close>

datatype event =
    ProposedBlock Header
  | VoteMsg u64 Vote
  | TimeoutMsg u64 Timeout
  | SyncInfoMsg u64 SyncInfo
  | CountdownTimeout
  | HeaderToVerify Header "Header list" bool
  | MiningTurn Header address
  | PrepareBlock Header
  | SealBlock Header bool
  | GapBlock Header "address list"
  | EpochBlock Header
  | Periodic

definition dropE :: "'a eng \<Rightarrow> unit eng" where
  "dropE m = bindE m (\<lambda>_. ok ())"

fun handle :: "env \<Rightarrow> penalty_hook \<Rightarrow> Bfter \<Rightarrow> ChainReader \<Rightarrow> event \<Rightarrow> unit eng" where
  "handle E hook b chain (ProposedBlock h) = ProposedBlockHandler E chain h"
| "handle E hook b chain (VoteMsg height v) = Bft_Vote E chain height v"
| "handle E hook b chain (TimeoutMsg height t) = Bft_Timeout E b chain height t"
| "handle E hook b chain (SyncInfoMsg height s) = Bft_SyncInfo E chain height s"
| "handle E hook b chain CountdownTimeout = OnCountdownTimeout E chain"
| "handle E hook b chain (HeaderToVerify h parents full) = verifyHeader E hook chain h parents full"
| "handle E hook b chain (MiningTurn parent a) = dropE (YourTurn E hook chain parent a)"
| "handle E hook b chain (PrepareBlock h) = dropE (Prepare E hook chain h)"
| "handle E hook b chain (SealBlock h stopped) = dropE (Seal E h stopped)"
| "handle E hook b chain (GapBlock h ms) = UpdateMasternodes E h ms"
| "handle E hook b chain (EpochBlock h) = UpdateParams h"
| "handle E hook b chain Periodic = periodicJob"

text \<open>The time, the view of the chain and the event of one call.\<close>

type_synonym stimulus = "int \<times> ChainReader \<times> event"

definition step :: "env \<Rightarrow> penalty_hook \<Rightarrow> Bfter \<Rightarrow> BRDPoS_v2 \<Rightarrow> stimulus \<Rightarrow> BRDPoS_v2" where
  "step E hook b x s = (case s of (t, chain, ev) \<Rightarrow> fst (handle (E\<lparr>now := t\<rparr>) hook b chain ev x))"

definition run :: "env \<Rightarrow> penalty_hook \<Rightarrow> Bfter \<Rightarrow> BRDPoS_v2 \<Rightarrow> stimulus list \<Rightarrow> BRDPoS_v2" where
  "run E hook b x ss = foldl (step E hook b) x ss"

text \<open>
  A call casts a vote when it moves the round of the last vote; the vote is for the block that
  was proposed. \<open>casts\<close> lists the votes of a run.
\<close>

definition block_info :: "env \<Rightarrow> BRDPoSConfig \<Rightarrow> Header \<Rightarrow> BlockInfo" where
  "block_info E cfg h =
    \<lparr>bi_Hash = Header_Hash (keccak E) h,
     bi_Round = (case getExtraFields cfg h of Inl _ \<Rightarrow> 0 | Inr (_, r, _) \<Rightarrow> r), bi_Number = Number h\<rparr>"

definition cast :: "env \<Rightarrow> penalty_hook \<Rightarrow> Bfter \<Rightarrow> BRDPoS_v2 \<Rightarrow> stimulus \<Rightarrow> BlockInfo option" where
  "cast E hook b x s =
    (case s of (t, chain, ProposedBlock h) \<Rightarrow>
       if highestVotedRound (step E hook b x s) = highestVotedRound x then None else Some (block_info E (config x) h)
     | _ \<Rightarrow> None)"

fun casts :: "env \<Rightarrow> penalty_hook \<Rightarrow> Bfter \<Rightarrow> BRDPoS_v2 \<Rightarrow> stimulus list \<Rightarrow> BlockInfo list" where
  "casts E hook b x [] = []"
| "casts E hook b x (s # ss) =
    (case cast E hook b x s of None \<Rightarrow> [] | Some i \<Rightarrow> [i]) @ casts E hook b (step E hook b x s) ss"

section \<open>The calls that leave the consensus alone\<close>

definition quiet_hook :: "penalty_hook \<Rightarrow> bool" where
  "quiet_hook hook \<longleftrightarrow> (\<forall>H n p cs. hook = Some H \<longrightarrow> keeps cache_only (H n p cs))"

definition core_same :: "BRDPoS_v2 \<Rightarrow> BRDPoS_v2 \<Rightarrow> bool" where
  "core_same x y \<longleftrightarrow> SwitchBlock (cfg_V2 (config y)) = SwitchBlock (cfg_V2 (config x))
     \<and> isInitilised y = isInitilised x \<and> currentRound y = currentRound x \<and> highestVotedRound y = highestVotedRound x
     \<and> highestQuorumCert y = highestQuorumCert x \<and> lockQuorumCert y = lockQuorumCert x
     \<and> highestTimeoutCert y = highestTimeoutCert x \<and> highestCommitBlock y = highestCommitBlock x
     \<and> forensicsJobs y = forensicsJobs x"

definition quiet :: "BRDPoS_v2 \<Rightarrow> BRDPoS_v2 \<Rightarrow> bool" where
  "quiet x y \<longleftrightarrow> highestVotedRound y = highestVotedRound x \<and> (isInitilised x \<longrightarrow> core_same x y)"

interpretation qu: step_rel quiet
  by unfold_locales (auto simp: quiet_def core_same_def)

lemma cache_only_core: "cache_only x y \<Longrightarrow> core_same x y"
  by (simp add: core_same_def cache_only_fields)

lemma co_quiet: "keeps cache_only m \<Longrightarrow> keeps quiet m"
  by (auto simp: keeps_def quiet_def cache_only_core dest: cache_only_fields(16))

definition voted_same :: "BRDPoS_v2 \<Rightarrow> BRDPoS_v2 \<Rightarrow> bool" where
  "voted_same x y \<longleftrightarrow> highestVotedRound y = highestVotedRound x"

interpretation vs: step_rel voted_same
  by unfold_locales (simp_all add: voted_same_def)

lemma co_voted: "keeps cache_only m \<Longrightarrow> keeps voted_same m"
  by (auto simp: keeps_def voted_same_def dest: cache_only_fields(16))

lemma quiet_voted: "keeps quiet m \<Longrightarrow> keeps voted_same m"
  by (simp add: keeps_def quiet_def voted_same_def)

lemma vote_frame_voted: "keeps vote_frame m \<Longrightarrow> keeps voted_same m"
  by (simp add: keeps_def vote_frame_def voted_same_def)

lemma timeout_frame_voted: "keeps timeout_frame m \<Longrightarrow> keeps voted_same m"
  by (simp add: keeps_def timeout_frame_def voted_same_def)

lemma initial_voted: "keeps voted_same (initial E chain h)"
  unfolding initial_def first_snapshot_def storeSnapshot_def Let_def
  by (intro vs.keeps_rules processQC_vote_frame [THEN vote_frame_voted] cache_ops_co [THEN co_voted])
    (simp_all add: voted_same_def)

lemma initial_quiet: "keeps quiet (reads isInitilised (\<lambda>i. if i then ok () else initial E chain h))"
  using keepsD [OF initial_voted] by (intro keepsI) (auto simp: quiet_def comp_simps core_same_def voted_same_def)

lemma calcMasternodes_co:
  assumes "quiet_hook hook"
  shows "keeps cache_only (calcMasternodes E hook chain n p r)"
proof (cases hook)
  case None
  show ?thesis unfolding calcMasternodes_def Let_def None option.case by (intro co_rules getSnapshot_co)
next
  case (Some H)
  then have "keeps cache_only (H n p cs)" for cs using assms by (simp add: quiet_hook_def)
  then show ?thesis unfolding calcMasternodes_def Let_def Some option.case by (intro co_rules getSnapshot_co)
qed

lemma guardE_quiet: "keeps quiet (guardE b e)"
  by (simp add: guardE_def qu.keeps_ok qu.keeps_fail)

lemma verify_epoch_fields_co: "quiet_hook hook \<Longrightarrow> keeps quiet (verify_epoch_fields E hook chain h r)"
  unfolding verify_epoch_fields_def
  by (intro qu.keeps_rules guardE_quiet calcMasternodes_co [THEN co_quiet] IsEpochSwitch_co [THEN co_quiet]
      GetMasternodes_co [THEN co_quiet])

lemma verifyHeader_quiet: "quiet_hook hook \<Longrightarrow> keeps quiet (verifyHeader E hook chain h parents full)"
  unfolding verifyHeader_def verify_with_parent_def verify_certified_def
  by (intro qu.keeps_rules guardE_quiet initial_quiet verifyQC_co [THEN co_quiet] verify_epoch_fields_co
      cache_ops_co [THEN co_quiet])

lemma yourturn_quiet: "quiet_hook hook \<Longrightarrow> keeps quiet (yourturn E hook chain r p a)"
  unfolding yourturn_def
  by (intro qu.keeps_rules calcMasternodes_co [THEN co_quiet] GetMasternodes_co [THEN co_quiet])
    (simp_all add: quiet_def core_same_def)

lemma YourTurn_quiet: "quiet_hook hook \<Longrightarrow> keeps quiet (YourTurn E hook chain p a)"
  unfolding YourTurn_def Let_def by (intro qu.keeps_rules initial_quiet yourturn_quiet)

lemma Prepare_quiet: "quiet_hook hook \<Longrightarrow> keeps quiet (Prepare E hook chain h)"
  unfolding Prepare_def Let_def
  by (intro qu.keeps_rules yourturn_quiet calcMasternodes_co [THEN co_quiet] IsEpochSwitch_co [THEN co_quiet])

lemma Seal_quiet: "keeps quiet (Seal E h stopped)"
  unfolding Seal_def by (intro qu.keeps_rules) (simp_all add: quiet_def core_same_def)

lemma UpdateMasternodes_quiet: "keeps quiet (UpdateMasternodes E h ms)"
  unfolding UpdateMasternodes_def storeSnapshot_def Let_def
  by (intro qu.keeps_rules cache_ops_co [THEN co_quiet]) (simp_all add: quiet_def core_same_def)

lemma UpdateParams_quiet: "keeps quiet (UpdateParams h)"
proof (rule keepsI)
  fix x show "quiet x (fst (UpdateParams h x))"
    by (auto simp: UpdateParams_def comp_simps Let_def quiet_def core_same_def UpdateConfig_def
        split: sum.splits option.splits if_splits prod.splits)
qed

lemma periodicJob_quiet: "keeps quiet periodicJob"
  unfolding periodicJob_def hygieneVotePool_def hygieneTimeoutPool_def
  by (intro qu.keeps_rules) (simp_all add: quiet_def core_same_def)

lemma dropE_quiet: "keeps quiet m \<Longrightarrow> keeps quiet (dropE m)"
  unfolding dropE_def by (intro qu.keeps_rules)

section \<open>Casting a vote\<close>

lemma sendVote_voted:
  assumes "sendVote E chain b x = (y, r)"
  shows "highestVotedRound y = highestVotedRound x \<or> highestVotedRound y = currentRound x"
proof -
  obtain x1 r1 where g: "getEpochSwitchInfo E chain None (bi_Hash b) x = (x1, r1)" by fastforce
  note c = cache_only_fields [OF getEpochSwitchInfo_fields [OF g]]
  show ?thesis
  proof (cases r1)
    case (Inr info)
    let ?n = "gap_number (config x1) (big_Uint64 (bi_Number (es_EpochSwitchBlockInfo info)))"
    obtain x2 r2 where s: "signSignature (VoteSigHash (keccak E) \<lparr>vs_ProposedBlockInfo = b, vs_GapNumber = ?n\<rparr>) x1 = (x2, r2)"
      by fastforce
    note d = cache_only_fields [OF keepsE [OF signSignature_co s]]
    show ?thesis
    proof (cases r2)
      case (Inr sig)
      let ?v = "\<lparr>vote_signer = 0, vote_ProposedBlockInfo = b, vote_Signature = sig, vote_GapNumber = ?n\<rparr>"
      obtain x3 r3 where h: "voteHandler E chain ?v (x2\<lparr>highestVotedRound := currentRound x2\<rparr>) = (x3, r3)" by fastforce
      have "highestVotedRound x3 = currentRound x2" using keepsE [OF voteHandler_frame h] by (simp add: vote_frame_def)
      then show ?thesis
        using assms g s h \<open>r1 = Inr info\<close> Inr c d
        by (auto simp: sendVote_def comp_simps Let_def broadcastToBftChannel_def split: sum.splits)
    qed (use assms g s Inr c d in \<open>auto simp: sendVote_def comp_simps Let_def\<close>)
  qed (use assms g c in \<open>auto simp: sendVote_def comp_simps\<close>)
qed

text \<open>A call that casts a vote has processed the block's certificate and then passed the voting rule.\<close>

lemma ProposedBlock_casts:
  assumes "ProposedBlockHandler E chain h x = (y, res)" and "highestVotedRound y \<noteq> highestVotedRound x"
  shows "\<exists>qc r ms m0 m. getExtraFields (config x) h = Inr (Some qc, r, ms) \<and> processQC E chain qc x = (m0, Inr ())
    \<and> cache_only m0 m \<and> may_vote chain m (block_info E (config x) h) qc \<and> highestVotedRound y = currentRound m
    \<and> cert_order m y"
proof -
  obtain qc r ms where e: "getExtraFields (config x) h = Inr (Some qc, r, ms)"
    using assms by (auto simp: ProposedBlockHandler_def comp_simps Let_def split: sum.splits option.splits prod.splits)
  let ?i = "block_info E (config x) h"
  have i: "?i = \<lparr>bi_Hash = Header_Hash (keccak E) h, bi_Round = r, bi_Number = Number h\<rparr>" using e by (simp add: block_info_def)
  obtain m0 r0 where q: "processQC E chain qc x = (m0, r0)" by fastforce
  have v0: "highestVotedRound m0 = highestVotedRound x" using keepsE [OF processQC_frame q] by (simp add: qc_frame_def)
  obtain m r1 where a: "allowedToSend E chain h m0 = (m, r1)" by fastforce
  have c: "cache_only m0 m" using allowedToSend_co a by (rule keepsE)
  obtain z w where v: "verifyVotingRule chain ?i (Some qc) m = (m, w)" by (simp add: verifyVotingRule_def)
  have r: "r0 = Inr ()" "w = Inr True" "sendVote E chain ?i m = (y, res)"
    using assms e q a v v0 cache_only_fields(16) [OF c]
    by (auto simp: ProposedBlockHandler_def comp_simps Let_def i split: sum.splits if_splits)
  have "may_vote chain m ?i qc" using verifyVotingRule_iff [of chain ?i qc m] v r by simp
  moreover have "highestVotedRound y = currentRound m"
    using sendVote_voted [OF r(3)] assms(2) v0 cache_only_fields(16) [OF c] by auto
  moreover have "cert_order m y" using sendVote_cert r(3) by (rule keepsE)
  ultimately show ?thesis using e q r(1) c by blast
qed

lemma Bft_voted:
  "keeps voted_same (Bft_Vote E chain n v)" "keeps voted_same (Bft_Timeout E b chain n t)"
  "keeps voted_same (Bft_SyncInfo E chain n s)"
  unfolding Bft_Vote_def Bft_Timeout_def Bft_SyncInfo_def broadcastToBftChannel_def VoteHandler_def TimeoutHandler_def
    SyncInfoHandler_def
  by (intro vs.keeps_rules voteHandler_frame [THEN vote_frame_voted] timeoutHandler_frame [THEN timeout_frame_voted]
      processQC_vote_frame [THEN vote_frame_voted] processTC_frame [THEN timeout_frame_voted]
      VerifyVoteMessage_co [THEN co_voted] VerifyTimeoutMessage_co [THEN co_voted] VerifySyncInfoMessage_co [THEN co_voted];
      simp add: voted_same_def)+

lemma handle_quiet:
  assumes "quiet_hook hook"
  shows "keeps quiet (handle E hook b chain (HeaderToVerify h parents full))" "keeps quiet (handle E hook b chain (MiningTurn h a))"
    "keeps quiet (handle E hook b chain (PrepareBlock h))" "keeps quiet (handle E hook b chain (SealBlock h stopped))"
    "keeps quiet (handle E hook b chain (GapBlock h ms))" "keeps quiet (handle E hook b chain (EpochBlock h))"
    "keeps quiet (handle E hook b chain Periodic)"
  unfolding handle.simps
  by (intro dropE_quiet verifyHeader_quiet YourTurn_quiet Prepare_quiet Seal_quiet UpdateMasternodes_quiet UpdateParams_quiet
      periodicJob_quiet assms)+

lemma handle_voted:
  assumes "quiet_hook hook" and "\<And>h. ev \<noteq> ProposedBlock h"
  shows "keeps voted_same (handle E hook b chain ev)"
  using assms(2) OnCountdownTimeout_frame [THEN timeout_frame_voted] Bft_voted
    handle_quiet [OF assms(1), THEN quiet_voted]
  by (cases ev) auto

lemma step_casts:
  assumes "quiet_hook hook"
  shows "case cast E hook b x s of
      None \<Rightarrow> highestVotedRound (step E hook b x s) = highestVotedRound x
    | Some i \<Rightarrow> highestVotedRound x < bi_Round i \<and> highestVotedRound (step E hook b x s) = bi_Round i"
proof (cases s)
  case (fields t chain ev)
  show ?thesis
  proof (cases "\<exists>h. ev = ProposedBlock h")
    case True
    then obtain h where ev: "ev = ProposedBlock h" by blast
    obtain y r where y: "ProposedBlockHandler (E\<lparr>now := t\<rparr>) chain h x = (y, r)" by fastforce
    have "highestVotedRound y \<noteq> highestVotedRound x \<longrightarrow> highestVotedRound x < bi_Round (block_info E (config x) h)
        \<and> highestVotedRound y = bi_Round (block_info E (config x) h)"
      using ProposedBlock_casts [OF y] keepsE [OF processQC_frame, of "E\<lparr>now := t\<rparr>" chain _ x]
      by (auto simp: may_vote_def block_info_def qc_frame_def cache_only_fields)
    then show ?thesis using y fields ev by (auto simp: cast_def step_def)
  next
    case False
    then have "cast E hook b x s = None" using fields by (simp add: cast_def split: event.split)
    moreover have "voted_same x (step E hook b x s)"
      using keepsD [OF handle_voted [OF assms]] False fields by (simp add: step_def)
    ultimately show ?thesis by (simp add: voted_same_def)
  qed
qed

lemma casts_increase:
  assumes "quiet_hook hook"
  shows "sorted_wrt (\<lambda>i j. bi_Round i < bi_Round j) (casts E hook b x ss)
    \<and> (\<forall>i\<in>set (casts E hook b x ss). highestVotedRound x < bi_Round i \<and> bi_Round i \<le> highestVotedRound (run E hook b x ss))
    \<and> highestVotedRound x \<le> highestVotedRound (run E hook b x ss)"
proof (induction ss arbitrary: x)
  case Nil
  show ?case by (simp add: run_def)
next
  case (Cons s ss)
  have r: "run E hook b x (s # ss) = run E hook b (step E hook b x s) ss" by (simp add: run_def)
  show ?case
    using Cons.IH [of "step E hook b x s"] step_casts [OF assms, of E b x s] unfolding r
    by (auto split: option.splits)
qed

section \<open>Votes on the wire\<close>

text \<open>
  The votes that a run sends for the blocks proposed to it. Votes of other nodes that a call passes on
  are not among them.
\<close>

fun sent_votes :: "env \<Rightarrow> penalty_hook \<Rightarrow> Bfter \<Rightarrow> BRDPoS_v2 \<Rightarrow> stimulus list \<Rightarrow> BlockInfo list" where
  "sent_votes E hook b x [] = []"
| "sent_votes E hook b x (s # ss) =
    (case s of (t, chain, ProposedBlock h) \<Rightarrow>
       votes_of (drop (length (broadcasts x)) (broadcasts (step E hook b x s))) | _ \<Rightarrow> [])
    @ sent_votes E hook b (step E hook b x s) ss"

lemma sendVote_sends:
  assumes "sendVote E chain b x = (y, r)"
  shows "broadcasts y = broadcasts x
    \<or> (\<exists>v. broadcasts y = broadcasts x @ [MVote v] \<and> vote_ProposedBlockInfo v = b \<and> highestVotedRound y = currentRound x)"
proof -
  obtain x1 r1 where g: "getEpochSwitchInfo E chain None (bi_Hash b) x = (x1, r1)" by fastforce
  note c = cache_only_fields [OF getEpochSwitchInfo_fields [OF g]]
  show ?thesis
  proof (cases r1)
    case (Inr info)
    let ?n = "gap_number (config x1) (big_Uint64 (bi_Number (es_EpochSwitchBlockInfo info)))"
    obtain x2 r2 where s: "signSignature (VoteSigHash (keccak E) \<lparr>vs_ProposedBlockInfo = b, vs_GapNumber = ?n\<rparr>) x1 = (x2, r2)"
      by fastforce
    note d = cache_only_fields [OF keepsE [OF signSignature_co s]]
    show ?thesis
    proof (cases r2)
      case (Inr sig)
      let ?v = "\<lparr>vote_signer = 0, vote_ProposedBlockInfo = b, vote_Signature = sig, vote_GapNumber = ?n\<rparr>"
      obtain x3 r3 where h: "voteHandler E chain ?v (x2\<lparr>highestVotedRound := currentRound x2\<rparr>) = (x3, r3)" by fastforce
      have "highestVotedRound x3 = currentRound x2" "broadcasts x3 = broadcasts x2"
        using keepsE [OF voteHandler_frame h] by (simp_all add: vote_frame_def)
      then show ?thesis
        using assms g s h \<open>r1 = Inr info\<close> Inr c d
        by (auto simp: sendVote_def comp_simps Let_def broadcastToBftChannel_def split: sum.splits)
    qed (use assms g s Inr c d in \<open>auto simp: sendVote_def comp_simps Let_def\<close>)
  qed (use assms g c in \<open>auto simp: sendVote_def comp_simps\<close>)
qed

lemma ProposedBlock_sends:
  assumes "ProposedBlockHandler E chain h x = (y, res)"
  shows "broadcasts y = broadcasts x
    \<or> (\<exists>v. broadcasts y = broadcasts x @ [MVote v] \<and> vote_ProposedBlockInfo v = block_info E (config x) h
        \<and> highestVotedRound y \<noteq> highestVotedRound x)"
proof (cases "\<exists>qc r ms. getExtraFields (config x) h = Inr (Some qc, r, ms)")
  case True
  then obtain qc r ms where e: "getExtraFields (config x) h = Inr (Some qc, r, ms)" by blast
  let ?i = "block_info E (config x) h"
  have i: "?i = \<lparr>bi_Hash = Header_Hash (keccak E) h, bi_Round = r, bi_Number = Number h\<rparr>" using e by (simp add: block_info_def)
  obtain m0 r0 where q: "processQC E chain qc x = (m0, r0)" by fastforce
  have v0: "highestVotedRound m0 = highestVotedRound x" "broadcasts m0 = broadcasts x"
    using keepsE [OF processQC_vote_frame q] by (simp_all add: vote_frame_def)
  obtain m r1 where a: "allowedToSend E chain h m0 = (m, r1)" by fastforce
  have c: "cache_only m0 m" using allowedToSend_co a by (rule keepsE)
  obtain w where v: "verifyVotingRule chain ?i (Some qc) m = (m, w)" by (simp add: verifyVotingRule_def)
  consider "y = m0" | "y = m" | "w = Inr True" "sendVote E chain ?i m = (y, res)"
    using assms e q a v by (auto simp: ProposedBlockHandler_def comp_simps Let_def i split: sum.splits if_splits)
  then show ?thesis
  proof cases
    case 3
    have "may_vote chain m ?i qc" using verifyVotingRule_iff [of chain ?i qc m] v 3 by simp
    then have "currentRound m \<noteq> highestVotedRound x" using v0 cache_only_fields(16) [OF c] by (auto simp: may_vote_def)
    then show ?thesis using sendVote_sends [OF 3(2)] v0 cache_only_fields(7) [OF c] by auto
  qed (use v0 cache_only_fields(7) [OF c] in auto)
qed (use assms in \<open>auto simp: ProposedBlockHandler_def comp_simps Let_def split: sum.splits option.splits\<close>)

lemma sent_votes_cast: "subseq (sent_votes E hook b x ss) (casts E hook b x ss)"
proof (induction ss arbitrary: x)
  case (Cons s ss)
  have "subseq (case s of (t, chain, ProposedBlock h) \<Rightarrow> votes_of (drop (length (broadcasts x)) (broadcasts (step E hook b x s))) | _ \<Rightarrow> [])
      (case cast E hook b x s of None \<Rightarrow> [] | Some i \<Rightarrow> [i])"
  proof (cases "\<exists>t chain h. s = (t, chain, ProposedBlock h)")
    case True
    then obtain t chain h where s: "s = (t, chain, ProposedBlock h)" by blast
    obtain y r where y: "ProposedBlockHandler (E\<lparr>now := t\<rparr>) chain h x = (y, r)" by fastforce
    then have st: "step E hook b x s = y" by (simp add: step_def s)
    have i: "block_info (E\<lparr>now := t\<rparr>) (config x) h = block_info E (config x) h" by (simp add: block_info_def)
    show ?thesis using ProposedBlock_sends [OF y] i st unfolding s by (auto simp: cast_def)
  qed (auto split: prod.split event.split)
  then show ?case using Cons.IH by (auto intro: list_emb_append_mono)
qed simp

lemma sorted_wrt_subseq: "subseq xs ys \<Longrightarrow> sorted_wrt P ys \<Longrightarrow> sorted_wrt P xs"
  by (induction rule: list_emb.induct) (auto dest: list_emb_set)

lemma subseq_elem: "subseq xs ys \<Longrightarrow> x \<in> set xs \<Longrightarrow> x \<in> set ys"
  by (induction rule: list_emb.induct) auto

lemma sent_increase:
  assumes "quiet_hook hook"
  shows "sorted_wrt (\<lambda>i j. bi_Round i < bi_Round j) (sent_votes E hook b x ss)"
    and "i \<in> set (sent_votes E hook b x ss) \<Longrightarrow> highestVotedRound x < bi_Round i \<and> bi_Round i \<le> highestVotedRound (run E hook b x ss)"
proof -
  note s = sent_votes_cast [of E hook b x ss] and c = casts_increase [OF assms, of E b x ss]
  show "sorted_wrt (\<lambda>i j. bi_Round i < bi_Round j) (sent_votes E hook b x ss)"
    using s c by (blast intro: sorted_wrt_subseq)
  show "highestVotedRound x < bi_Round i \<and> bi_Round i \<le> highestVotedRound (run E hook b x ss)"
    if "i \<in> set (sent_votes E hook b x ss)" using c subseq_elem [OF s that] by blast
qed

section \<open>What a node has learnt\<close>

definition node_order :: "BRDPoS_v2 \<Rightarrow> BRDPoS_v2 \<Rightarrow> bool" where
  "node_order x y \<longleftrightarrow> (isInitilised x \<longrightarrow> isInitilised y \<and> hqc_round x \<le> hqc_round y
     \<and> lock_le (lockQuorumCert x) (lockQuorumCert y) \<and> commit_le (highestCommitBlock x) (highestCommitBlock y)
     \<and> tc_Round (highestTimeoutCert x) \<le> tc_Round (highestTimeoutCert y))"

interpretation ord: step_rel node_order
  by unfold_locales (auto simp: node_order_def intro: lock_le_trans commit_le_trans)

lemma quiet_order: "keeps quiet m \<Longrightarrow> keeps node_order m"
  by (simp add: keeps_def quiet_def core_same_def node_order_def)

lemma co_order: "keeps cache_only m \<Longrightarrow> keeps node_order m"
  by (rule quiet_order) (rule co_quiet)

lemma timeout_frame_order: "keeps timeout_frame m \<Longrightarrow> keeps node_order m"
  by (simp add: keeps_def timeout_frame_def node_order_def)

lemma vote_frame_order: "keeps vote_frame m \<Longrightarrow> keeps cert_order m \<Longrightarrow> keeps node_order m"
  by (simp add: keeps_def vote_frame_def cert_order_def node_order_def)

lemmas voteHandler_order = vote_frame_order [OF voteHandler_frame voteHandler_cert]
  and processQC_order = vote_frame_order [OF processQC_vote_frame processQC_cert]

lemma sendVote_order: "keeps node_order (sendVote E chain b)"
  unfolding sendVote_def broadcastToBftChannel_def Let_def
  by (intro ord.keeps_rules voteHandler_order getEpochSwitchInfo_co [THEN co_order] signSignature_co [THEN co_order])
    (simp_all add: node_order_def)

lemma ProposedBlock_order: "keeps node_order (ProposedBlockHandler E chain h)"
  unfolding ProposedBlockHandler_def Let_def
  by (intro ord.keeps_rules processQC_order sendVote_order allowedToSend_co [THEN co_order] verifyVotingRule_co [THEN co_order])

lemma Bft_order:
  "keeps node_order (Bft_Vote E chain n v)" "keeps node_order (Bft_Timeout E b chain n t)"
  "keeps node_order (Bft_SyncInfo E chain n s)"
  unfolding Bft_Vote_def Bft_Timeout_def Bft_SyncInfo_def broadcastToBftChannel_def VoteHandler_def TimeoutHandler_def
    SyncInfoHandler_def
  by (intro ord.keeps_rules voteHandler_order timeoutHandler_frame [THEN timeout_frame_order]
      processQC_order processTC_frame [THEN timeout_frame_order]
      VerifyVoteMessage_co [THEN co_order] VerifyTimeoutMessage_co [THEN co_order] VerifySyncInfoMessage_co [THEN co_order];
      simp add: node_order_def)+

lemma handle_order:
  assumes "quiet_hook hook"
  shows "keeps node_order (handle E hook b chain ev)"
  using OnCountdownTimeout_frame [THEN timeout_frame_order] Bft_order ProposedBlock_order
    handle_quiet [OF assms, THEN quiet_order]
  by (cases ev) auto

lemma step_order: "quiet_hook hook \<Longrightarrow> node_order x (step E hook b x s)"
  using keepsD [OF handle_order] by (simp add: step_def split: prod.split)

text \<open>
  C6: whatever calls an initialised node receives, in whatever order, with whatever outcomes, the
  rounds of its highest certificate, of its lock, of its highest timeout certificate and of its
  committed block never decrease, and a committed block is only replaced by one of a higher round
  and no lower number.
\<close>

theorem knowledge_grows:
  assumes "quiet_hook hook" and "isInitilised x"
  shows "let y = run E hook b x ss in isInitilised y \<and> hqc_round x \<le> hqc_round y
     \<and> lock_le (lockQuorumCert x) (lockQuorumCert y) \<and> commit_le (highestCommitBlock x) (highestCommitBlock y)
     \<and> tc_Round (highestTimeoutCert x) \<le> tc_Round (highestTimeoutCert y)"
proof -
  have "node_order x (run E hook b x ss)"
    by (induction ss rule: rev_induct) (auto simp: run_def ord.R_refl intro: ord.R_trans step_order [OF assms(1)])
  then show ?thesis using assms(2) by (simp add: node_order_def Let_def)
qed

theorem knowledge_grows_witness:
  "isInitilised sample_engine \<and> (let y = run sample_env None Bft_New sample_engine
       [(1000, next_chain, CountdownTimeout), (1001, next_chain, ProposedBlock next_block), (1002, next_chain, Periodic)]
     in isInitilised y \<and> hqc_round sample_engine \<le> hqc_round y)"
proof -
  have i: "isInitilised sample_engine" by (simp add: sample_engine_def)
  have "quiet_hook None" by (simp add: quiet_hook_def)
  from knowledge_grows [OF this i] i show ?thesis by (auto simp: Let_def)
qed

end
