(* ===== verification/Safety.thy ===== *)
theory Safety
  imports Node
begin

text \<open>
  What an initialised node knows in every reachable state, provided that the headers its chain holds
  are linked as verified headers are: its lock is a certificate of a known block for a round before
  the current one, and every block it has committed stands at the start of three blocks with
  consecutive rounds whose last one has a certificate the node has processed.
\<close>

section \<open>Known blocks\<close>

type_synonym blocks = "hash \<Rightarrow> Header option"

abbreviation switch_number :: "BRDPoSConfig \<Rightarrow> int" where
  "switch_number cfg \<equiv> SwitchBlock (cfg_V2 cfg)"

abbreviation cert_hash :: "QuorumCert \<Rightarrow> hash" where
  "cert_hash qc \<equiv> bi_Hash (qc_ProposedBlockInfo qc)"

abbreviation cert_round :: "QuorumCert \<Rightarrow> u64" where
  "cert_round qc \<equiv> bi_Round (qc_ProposedBlockInfo qc)"

definition names_round :: "BRDPoSConfig \<Rightarrow> Header \<Rightarrow> u64 \<Rightarrow> bool" where
  "names_round cfg h r \<longleftrightarrow>
    (Number h = switch_number cfg \<and> r = 0 \<or> Number h \<noteq> switch_number cfg \<and> round_of cfg h r)"

text \<open>
  Blocks above the switch carry a certificate for their parent with the parent's round, which is
  smaller than their own: what the verification of a header establishes. No block has the largest
  round, after which the counter would wrap.
\<close>

definition linked :: "BRDPoSConfig \<Rightarrow> blocks \<Rightarrow> Header \<Rightarrow> bool" where
  "linked cfg B h \<longleftrightarrow> (\<exists>qc r ms p. getExtraFields cfg h = Inr (Some qc, r, ms) \<and> B (ParentHash h) = Some p
     \<and> cert_hash qc = ParentHash h \<and> names_round cfg p (cert_round qc) \<and> cert_round qc < r)"

definition well_linked :: "env \<Rightarrow> BRDPoSConfig \<Rightarrow> blocks \<Rightarrow> bool" where
  "well_linked E cfg B \<longleftrightarrow> (\<forall>k h. B k = Some h \<longrightarrow> Header_Hash (keccak E) h = k
     \<and> (\<forall>r. round_of cfg h r \<longrightarrow> r \<noteq> - 1) \<and> (\<forall>p. B (ParentHash h) = Some p \<longrightarrow> Number h = Number p + 1)
     \<and> (switch_number cfg < Number h \<longrightarrow> linked cfg B h))"

definition view_of :: "BRDPoSConfig \<Rightarrow> blocks \<Rightarrow> ChainReader \<Rightarrow> bool" where
  "view_of cfg B chain \<longleftrightarrow> (\<forall>k h. GetHeaderByHash chain k = Some h \<longrightarrow> B k = Some h
     \<and> (switch_number cfg < Number h \<longrightarrow> GetHeaderByHash chain (ParentHash h) \<noteq> None))"

lemma well_linkedD:
  assumes "well_linked E cfg B" and "B k = Some h"
  shows "Header_Hash (keccak E) h = k" "round_of cfg h r \<Longrightarrow> r \<noteq> - 1" "B (ParentHash h) = Some p \<Longrightarrow> Number h = Number p + 1"
    "switch_number cfg < Number h \<Longrightarrow> linked cfg B h"
  using assms unfolding well_linked_def by blast+

lemma view_ofD:
  assumes "view_of cfg B chain" and "GetHeaderByHash chain k = Some h"
  shows "B k = Some h" "switch_number cfg < Number h \<Longrightarrow> \<exists>p. GetHeaderByHash chain (ParentHash h) = Some p"
  using assms unfolding view_of_def by blast+

lemma well_linked_now [simp]: "well_linked (E\<lparr>now := t\<rparr>) cfg B = well_linked E cfg B"
  by (simp add: well_linked_def)

lemma getExtraFields_cong:
  "switch_number a = switch_number b \<Longrightarrow> getExtraFields a h = getExtraFields b h"
  by (simp add: getExtraFields_def)

lemma round_of_fun: "round_of cfg h r \<Longrightarrow> round_of cfg h s \<Longrightarrow> r = s"
  by (auto simp: round_of_def)

section \<open>The invariant of a node\<close>

definition lock_ok :: "BRDPoSConfig \<Rightarrow> blocks \<Rightarrow> QuorumCert \<Rightarrow> bool" where
  "lock_ok cfg B l \<longleftrightarrow> (\<exists>k h r ms. B k = Some h \<and> switch_number cfg < Number h \<and> getExtraFields cfg h = Inr (Some l, r, ms))"

definition three_blocks :: "BRDPoSConfig \<Rightarrow> blocks \<Rightarrow> hash \<Rightarrow> hash \<Rightarrow> bool" where
  "three_blocks cfg B k c \<longleftrightarrow> (\<exists>b p g r. B k = Some b \<and> B (ParentHash b) = Some p \<and> B (ParentHash p) = Some g
     \<and> switch_number cfg < Number g \<and> round_of cfg b r \<and> round_of cfg p (r - 1) \<and> round_of cfg g (r - 2) \<and> ParentHash p = c)"

definition commit_ok :: "BRDPoSConfig \<Rightarrow> blocks \<Rightarrow> (Header list \<times> QuorumCert) list \<Rightarrow> BlockInfo \<Rightarrow> bool" where
  "commit_ok cfg B jobs c \<longleftrightarrow> (\<exists>qc\<in>snd ` set jobs. three_blocks cfg B (cert_hash qc) (bi_Hash c))"

definition node_inv :: "BRDPoSConfig \<Rightarrow> blocks \<Rightarrow> BRDPoS_v2 \<Rightarrow> bool" where
  "node_inv cfg B x \<longleftrightarrow> isInitilised x \<and> switch_number (config x) = switch_number cfg
     \<and> (\<forall>l. lockQuorumCert x = Some l \<longrightarrow> lock_ok cfg B l \<and> cert_round l < currentRound x)
     \<and> (\<forall>c. highestCommitBlock x = Some c \<longrightarrow> commit_ok cfg B (forensicsJobs x) c)"

lemma core_same_inv: "core_same x y \<Longrightarrow> node_inv cfg B x \<Longrightarrow> node_inv cfg B y"
  by (auto simp: core_same_def node_inv_def)

lemma cache_only_inv: "cache_only x y \<Longrightarrow> node_inv cfg B x \<Longrightarrow> node_inv cfg B y"
  using cache_only_core core_same_inv by blast

lemma quiet_inv: "quiet x y \<Longrightarrow> node_inv cfg B x \<Longrightarrow> node_inv cfg B y"
  by (auto simp: quiet_def node_inv_def intro: core_same_inv [unfolded node_inv_def, rule_format])
    (auto simp: core_same_def)

lemma commitBlocks_total:
  assumes wl: "well_linked E cfg B" and v: "view_of cfg B chain" and sw: "switch_number (config x) = switch_number cfg"
    and b: "B k = Some b" "round_of cfg b r" and k: "GetHeaderByHash chain k = Some b"
  shows "commitBlocks E chain b r qc x = (x, Inr False)
    \<or> (\<exists>c hs. commitBlocks E chain b r qc x =
          (x\<lparr>highestCommitBlock := Some c, forensicsJobs := forensicsJobs x @ [(hs, qc)]\<rparr>, Inr True)
        \<and> three_blocks cfg B k (bi_Hash c))"
proof (cases "Number b - 2 \<le> switch_number cfg")
  case False
  obtain p where p: "GetHeaderByHash chain (ParentHash b) = Some p" using view_ofD(2) [OF v k] False by auto
  have np: "B (ParentHash b) = Some p" "Number b = Number p + 1"
    using view_ofD(1) [OF v p] well_linkedD(3) [OF wl b(1)] by auto
  obtain g where g: "GetHeaderByHash chain (ParentHash p) = Some g" using view_ofD(2) [OF v p] False np by auto
  have ng: "B (ParentHash p) = Some g" "Number p = Number g + 1"
    using view_ofD(1) [OF v g] well_linkedD(3) [OF wl np(1)] by auto
  obtain q1 r1 m1 where e1: "getExtraFields cfg p = Inr (q1, r1, m1)"
    using well_linkedD(4) [OF wl np(1)] False np by (auto simp: linked_def)
  obtain q2 r2 m2 where e2: "getExtraFields cfg g = Inr (q2, r2, m2)"
    using well_linkedD(4) [OF wl ng(1)] False np ng by (auto simp: linked_def)
  have e: "getExtraFields (config x) p = Inr (q1, r1, m1)" "getExtraFields (config x) g = Inr (q2, r2, m2)"
    using e1 e2 getExtraFields_cong [OF sw] by auto
  have h: "Header_Hash (keccak E) g = ParentHash p" using well_linkedD(1) [OF wl ng(1)] .
  have t: "r1 = r - 1 \<Longrightarrow> r2 = r - 2 \<Longrightarrow> three_blocks cfg B k (ParentHash p)"
    using b np ng False e1 e2 unfolding three_blocks_def round_of_def by fastforce
  let ?c = "\<lparr>bi_Hash = ParentHash p, bi_Round = r - 2, bi_Number = Number g\<rparr>"
  show ?thesis
  proof (cases "r1 = r - 1 \<and> r2 = r - 2 \<and> \<not> not_newer (highestCommitBlock x) (r - 2) (Number g)")
    case True
    then have "commitBlocks E chain b r qc x =
        (x\<lparr>highestCommitBlock := Some ?c, forensicsJobs := forensicsJobs x @ [([p, b], qc)]\<rparr>, Inr True)"
      using False p g e h by (simp add: commitBlocks_def comp_simps sw)
    moreover have "three_blocks cfg B k (bi_Hash ?c)" using t True by simp
    ultimately show ?thesis by blast
  qed (use False p g e in \<open>auto simp: commitBlocks_def comp_simps sw\<close>)
qed (use sw in \<open>simp add: commitBlocks_def comp_simps\<close>)

lemma new_lock_Some: "\<exists>l'. new_lock l (Some q) = Some l' \<and> (l' = q \<or> l = Some l') \<and> cert_round q \<le> cert_round l'"
  by (auto simp: new_lock_def split: option.splits)

text \<open>A certificate that names the round of its block, as every verified certificate does.\<close>

definition right_cert :: "BRDPoSConfig \<Rightarrow> blocks \<Rightarrow> QuorumCert \<Rightarrow> bool" where
  "right_cert cfg B qc \<longleftrightarrow> (\<forall>h. B (cert_hash qc) = Some h \<longrightarrow> names_round cfg h (cert_round qc))"

lemma raise_round:
  assumes "r \<noteq> - 1" and "l < c \<or> l < r"
  shows "l < (if c \<le> r then r + 1 else c :: u64)"
proof -
  have "1 + r \<noteq> 0" using assms(1) by (metis add.commute eq_neg_iff_add_eq_0)
  then have "unat (r + 1) = Suc (unat r)" using unatSuc by (metis add.commute)
  then show ?thesis using assms(2) by (auto simp: word_less_nat_alt word_le_nat_alt)
qed

definition raise_to :: "QuorumCert \<Rightarrow> BRDPoS_v2 \<Rightarrow> BRDPoS_v2" where
  "raise_to qc x = (if currentRound x \<le> cert_round qc then setNewRound (cert_round qc + 1) x else x)"

text \<open>The invariant inside \<^verbatim>\<open>processQC\<close>, before the round is raised.\<close>

definition certified_inv :: "BRDPoSConfig \<Rightarrow> blocks \<Rightarrow> QuorumCert \<Rightarrow> BRDPoS_v2 \<Rightarrow> bool" where
  "certified_inv cfg B qc y \<longleftrightarrow> isInitilised y \<and> switch_number (config y) = switch_number cfg
     \<and> (\<forall>l. lockQuorumCert y = Some l \<longrightarrow> lock_ok cfg B l \<and> (cert_round l < currentRound y \<or> cert_round l < cert_round qc))
     \<and> (\<forall>c. highestCommitBlock y = Some c \<longrightarrow> commit_ok cfg B (forensicsJobs y) c)"

lemma raise_inv: "cert_round qc \<noteq> - 1 \<Longrightarrow> certified_inv cfg B qc y \<Longrightarrow> node_inv cfg B (raise_to qc y)"
  using raise_round [of "cert_round qc" _ "currentRound y"]
  by (auto simp: certified_inv_def raise_to_def node_inv_def setNewRound_def)

lemma update_highestQC_fields:
  "isInitilised (update_highestQC qc x) = isInitilised x" "config (update_highestQC qc x) = config x"
  "lockQuorumCert (update_highestQC qc x) = lockQuorumCert x" "currentRound (update_highestQC qc x) = currentRound x"
  "highestCommitBlock (update_highestQC qc x) = highestCommitBlock x" "forensicsJobs (update_highestQC qc x) = forensicsJobs x"
  by (simp_all add: update_highestQC_def)

lemma processQC_at_switch:
  assumes inv: "node_inv cfg B x" and "GetHeaderByHash chain (cert_hash qc) = Some b" and "\<not> switch_number cfg < Number b"
  shows "\<exists>y. processQC E chain qc x = (raise_to qc y, Inr ()) \<and> certified_inv cfg B qc y"
proof (intro exI conjI)
  show "processQC E chain qc x = (raise_to qc (update_highestQC qc x), Inr ())"
    using assms by (simp add: processQC_def comp_simps raise_to_def update_highestQC_fields node_inv_def)
  show "certified_inv cfg B qc (update_highestQC qc x)"
    using inv by (simp add: certified_inv_def node_inv_def update_highestQC_fields)
qed

lemma processQC_above_switch:
  assumes wl: "well_linked E cfg B" and v: "view_of cfg B chain" and inv: "node_inv cfg B x"
    and b: "GetHeaderByHash chain (cert_hash qc) = Some b" and nr: "names_round cfg b (cert_round qc)"
    and above: "switch_number cfg < Number b"
  shows "\<exists>y. processQC E chain qc x = (raise_to qc y, Inr ()) \<and> certified_inv cfg B qc y"
proof -
  let ?x1 = "update_highestQC qc x"
  note f1 = update_highestQC_fields [of qc x] and kb = view_ofD(1) [OF v b]
  have sw: "switch_number (config x) = switch_number cfg" using inv by (simp add: node_inv_def)
  obtain l r ms where e: "getExtraFields cfg b = Inr (Some l, r, ms)" "cert_round l < r"
    using well_linkedD(4) [OF wl kb above] by (auto simp: linked_def)
  have r: "r = cert_round qc" using nr above e(1) by (auto simp: names_round_def round_of_def)
  obtain l' where l': "new_lock (lockQuorumCert x) (Some l) = Some l'" "l' = l \<or> lockQuorumCert x = Some l'"
    using new_lock_Some by blast
  let ?x2 = "?x1\<lparr>lockQuorumCert := Some l'\<rparr>"
  have u: "update_lockQC (Some l) ?x1 = (?x2, Inr ())"
    using l'(1) f1 by (auto simp: update_lockQC_def new_lock_def comp_simps split: option.splits)
  have "lock_ok cfg B l' \<and> (cert_round l' < currentRound x \<or> cert_round l' < cert_round qc)"
    using l'(2) e r kb above inv by (auto simp: lock_ok_def node_inv_def)
  then have i2: "certified_inv cfg B qc ?x2" using inv f1 by (simp add: certified_inv_def node_inv_def)
  have run: "processQC E chain qc x = (raise_to qc y, Inr ())" if "commitBlocks E chain b r qc ?x2 = (y, Inr z)" for y z
    using b above e(1) u f1 sw that by (simp add: processQC_def comp_simps raise_to_def getExtraFields_cong [OF sw])
  from commitBlocks_total [OF wl v _ kb _ b, of ?x2 r qc] f1 sw e(1) consider
      "commitBlocks E chain b r qc ?x2 = (?x2, Inr False)"
    | c hs where "commitBlocks E chain b r qc ?x2 =
        (?x2\<lparr>highestCommitBlock := Some c, forensicsJobs := forensicsJobs ?x2 @ [(hs, qc)]\<rparr>, Inr True)"
        "three_blocks cfg B (cert_hash qc) (bi_Hash c)"
    by (auto simp: round_of_def)
  then show ?thesis
  proof cases
    case 2
    then show ?thesis using run [OF 2(1)] i2 by (auto simp: certified_inv_def commit_ok_def)
  qed (use run i2 in blast)
qed

lemma processQC_known:
  assumes "well_linked E cfg B" and "view_of cfg B chain" and "right_cert cfg B qc" and "node_inv cfg B x"
    and b: "GetHeaderByHash chain (cert_hash qc) = Some b"
  shows "node_inv cfg B (fst (processQC E chain qc x))" and "snd (processQC E chain qc x) = Inr ()"
proof -
  note kb = view_ofD(1) [OF assms(2) b]
  have nr: "names_round cfg b (cert_round qc)" using assms(3) kb by (simp add: right_cert_def)
  then have small: "cert_round qc \<noteq> - 1" using well_linkedD(2) [OF assms(1) kb] by (auto simp: names_round_def)
  obtain y where "processQC E chain qc x = (raise_to qc y, Inr ())" "certified_inv cfg B qc y"
    using processQC_at_switch [OF assms(4) b] processQC_above_switch [OF assms(1,2,4) b nr] by blast
  then show "node_inv cfg B (fst (processQC E chain qc x))" "snd (processQC E chain qc x) = Inr ()"
    using raise_inv [OF small] by simp_all
qed

lemma processQC_inv:
  assumes "well_linked E cfg B" and "view_of cfg B chain" and "right_cert cfg B qc"
  shows "maintains (node_inv cfg B) (processQC E chain qc)"
    and "node_inv cfg B x \<Longrightarrow> GetHeaderByHash chain (cert_hash qc) \<noteq> None \<Longrightarrow> snd (processQC E chain qc x) = Inr ()"
proof -
  show "maintains (node_inv cfg B) (processQC E chain qc)"
  proof (rule maintainsI)
    fix x assume x: "node_inv cfg B x"
    show "node_inv cfg B (fst (processQC E chain qc x))"
    proof (cases "GetHeaderByHash chain (cert_hash qc)")
      case None
      then show ?thesis using x by (simp add: processQC_def comp_simps update_highestQC_def node_inv_def)
    qed (rule processQC_known(1) [OF assms x])
  qed
  show "node_inv cfg B x \<Longrightarrow> GetHeaderByHash chain (cert_hash qc) \<noteq> None \<Longrightarrow> snd (processQC E chain qc x) = Inr ()"
    using processQC_known(2) [OF assms] by blast
qed

section \<open>The handlers keep the invariant\<close>

lemma VerifyBlockInfo_right:
  assumes "VerifyBlockInfo E c chain (qc_ProposedBlockInfo qc) None = Inr ()" and "view_of cfg B chain"
    and "switch_number c = switch_number cfg"
  shows "right_cert cfg B qc"
  using assms view_ofD(1) [OF assms(2)] getExtraFields_cong [OF assms(3)]
  by (auto simp: VerifyBlockInfo_def right_cert_def names_round_def round_of_def split: option.splits if_splits sum.splits)

lemma embedded_right:
  assumes "well_linked E cfg B" and "B k = Some h" and "switch_number cfg < Number h"
    and "getExtraFields cfg h = Inr (Some qc, r, ms)"
  shows "right_cert cfg B qc"
  using well_linkedD(4) [OF assms(1-3)] assms(4) by (auto simp: linked_def right_cert_def)

lemma co_maintains: "keeps cache_only m \<Longrightarrow> maintains (node_inv cfg B) m"
  by (erule keeps_maintains) (rule cache_only_inv)

lemma votePool_Add_inv: "maintains (node_inv cfg B) (votePool_Add E v)"
  by (rule maintainsI) (auto simp: votePool_Add_def node_inv_def split: prod.splits)

lemma node_inv_switch: "node_inv cfg B x \<Longrightarrow> switch_number (config x) = switch_number cfg"
  by (simp add: node_inv_def)

lemma VerifyBlockInfo_inv:
  assumes "node_inv cfg B x"
  shows "VerifyBlockInfo E (config x) chain b h = VerifyBlockInfo E cfg chain b h"
  unfolding VerifyBlockInfo_def node_inv_switch [OF assms] getExtraFields_cong [OF node_inv_switch [OF assms]] ..

lemma onVotePool_inv:
  assumes "well_linked E cfg B" and "view_of cfg B chain"
    and "VerifyBlockInfo E cfg chain (vote_ProposedBlockInfo v) None = Inr ()"
  shows "maintains (node_inv cfg B) (onVotePoolThresholdReached E chain votes v)"
proof -
  have "right_cert cfg B (cert_of v vs)" for vs using VerifyBlockInfo_right [OF _ assms(2) refl] assms(3) by simp
  then have "maintains (node_inv cfg B) (processQC E chain (cert_of v vs))" for vs by (rule processQC_inv [OF assms(1,2)])
  then show ?thesis
    unfolding onVotePoolThresholdReached_def Let_def cert_of_def [symmetric]
    by (intro maintains_rules getEpochSwitchInfo_co [THEN co_maintains])
qed

lemma voteHandler_inv:
  assumes "well_linked E cfg B" and "view_of cfg B chain"
  shows "maintains (node_inv cfg B) (voteHandler E chain v)"
  unfolding voteHandler_def verifyVotes_def Let_def
  by (intro maintains_rules votePool_Add_inv getEpochSwitchInfo_co [THEN co_maintains] GetMasternodes_co [THEN co_maintains]
      onVotePool_inv [OF assms]; (simp add: comp_simps VerifyBlockInfo_inv; fail | simp add: node_inv_def; fail))

lemma sendVote_inv:
  assumes "well_linked E cfg B" and "view_of cfg B chain"
  shows "maintains (node_inv cfg B) (sendVote E chain b)"
  unfolding sendVote_def broadcastToBftChannel_def Let_def
  by (intro maintains_rules voteHandler_inv [OF assms] getEpochSwitchInfo_co [THEN co_maintains]
      signSignature_co [THEN co_maintains]; simp add: node_inv_def)

lemma ProposedBlock_inv:
  assumes "well_linked E cfg B" and "view_of cfg B chain" and "B k = Some h" and "switch_number cfg < Number h"
  shows "maintains (node_inv cfg B) (ProposedBlockHandler E chain h)"
proof -
  have "right_cert cfg B qc" if "node_inv cfg B s" and "getExtraFields (config s) h = Inr (Some qc, r, ms)" for s qc r ms
    using embedded_right [OF assms(1,3,4)] that(2) getExtraFields_cong [OF node_inv_switch [OF that(1)], of h] by simp
  then show ?thesis
    unfolding ProposedBlockHandler_def Let_def
    by (intro maintains_rules processQC_inv(1) [OF assms(1,2)] sendVote_inv [OF assms(1,2)]
        allowedToSend_co [THEN co_maintains] verifyVotingRule_co [THEN co_maintains])
      (simp add: comp_simps)
qed

lemma Bft_Vote_inv:
  assumes "well_linked E cfg B" and "view_of cfg B chain"
  shows "maintains (node_inv cfg B) (Bft_Vote E chain n v)"
  unfolding Bft_Vote_def broadcastToBftChannel_def VoteHandler_def
  by (intro maintains_rules voteHandler_inv [OF assms] VerifyVoteMessage_co [THEN co_maintains]; simp add: node_inv_def)

lemma VerifySyncInfoMessage_right:
  assumes "VerifySyncInfoMessage E chain s x = (y, Inr True)" and "view_of cfg B chain" and "node_inv cfg B x"
  shows "right_cert cfg B (si_HighestQuorumCert s)"
proof -
  obtain z where "verifyQC E chain (Some (si_HighestQuorumCert s)) None x = (z, Inr ())"
    using assms(1) by (auto simp: VerifySyncInfoMessage_def comp_simps split: if_splits prod.splits sum.splits)
  then have "VerifyBlockInfo E (config x) chain (qc_ProposedBlockInfo (si_HighestQuorumCert s)) None = Inr ()"
    by (auto elim: verifyQC_Inr)
  then show ?thesis using VerifyBlockInfo_right [OF _ assms(2)] node_inv_switch [OF assms(3)] by blast
qed

lemma processTC_inv:
  assumes "node_inv cfg B x" and "processTC tc x = (y, r)" and "currentRound y \<noteq> 0"
  shows "node_inv cfg B y"
proof -
  let ?r = "tc_Round tc"
  have f: "currentRound y = (if currentRound x \<le> ?r then ?r + 1 else currentRound x)" "lockQuorumCert y = lockQuorumCert x"
      "isInitilised y = isInitilised x" "config y = config x" "highestCommitBlock y = highestCommitBlock x"
      "forensicsJobs y = forensicsJobs x"
    using assms(2) by (auto simp: processTC_def comp_simps Let_def setNewRound_def split: if_splits)
  show ?thesis
  proof (cases "?r = - 1")
    case True
    then show ?thesis using assms(1,3) f by (simp add: node_inv_def)
  next
    case False
    then show ?thesis using assms(1) f raise_round [OF False, of _ "currentRound x"] by (auto simp: node_inv_def)
  qed
qed

lemma Bft_SyncInfo_inv:
  assumes "well_linked E cfg B" and "view_of cfg B chain" and "node_inv cfg B x"
    and "Bft_SyncInfo E chain n s x = (y, r)" and "currentRound y \<noteq> 0"
  shows "node_inv cfg B y"
proof -
  obtain x1 r1 where v: "VerifySyncInfoMessage E chain s x = (x1, r1)" by fastforce
  have x1: "node_inv cfg B x1" using cache_only_inv [OF keepsE [OF VerifySyncInfoMessage_co v] assms(3)] .
  let ?x2 = "x1\<lparr>broadcasts := broadcasts x1 @ [MSyncInfo s]\<rparr>"
  have x2: "node_inv cfg B ?x2" using x1 by (simp add: node_inv_def)
  obtain x3 r3 where q: "processQC E chain (si_HighestQuorumCert s) ?x2 = (x3, r3)" by fastforce
  consider "y = x" | "y = x1" | "r1 = Inr True" "y = x3" | "r1 = Inr True" "processTC (si_HighestTimeoutCert s) x3 = (y, r)"
    using assms(4) v q
    by (auto simp: Bft_SyncInfo_def SyncInfoHandler_def broadcastToBftChannel_def comp_simps split: if_splits sum.splits)
  then show ?thesis
  proof cases
    case 3
    then show ?thesis
      using maintainsE [OF processQC_inv(1) [OF assms(1,2) VerifySyncInfoMessage_right [OF _ assms(2,3)]] q x2] v by blast
  next
    case 4
    then have "node_inv cfg B x3"
      using maintainsE [OF processQC_inv(1) [OF assms(1,2) VerifySyncInfoMessage_right [OF _ assms(2,3)]] q x2] v by blast
    then show ?thesis using processTC_inv 4(2) assms(5) by blast
  qed (use assms(3) x1 in simp_all)
qed

lemma Bft_Timeout_frame: "keeps timeout_frame (Bft_Timeout E b chain n t)"
  unfolding Bft_Timeout_def broadcastToBftChannel_def TimeoutHandler_def
  by (intro tof.keeps_rules timeoutHandler_frame VerifyTimeoutMessage_co [THEN co_timeout_frame]; simp add: timeout_frame_def)

lemma timeout_frame_inv:
  "timeout_frame x y \<Longrightarrow> currentRound x \<le> currentRound y \<Longrightarrow> node_inv cfg B x \<Longrightarrow> node_inv cfg B y"
  by (auto simp: timeout_frame_def node_inv_def)

text \<open>A stimulus from a chain that holds known blocks only; proposed blocks are known and above the switch.\<close>

definition sound_stimulus :: "env \<Rightarrow> BRDPoSConfig \<Rightarrow> blocks \<Rightarrow> stimulus \<Rightarrow> bool" where
  "sound_stimulus E cfg B s \<longleftrightarrow> (case s of (t, chain, ev) \<Rightarrow> view_of cfg B chain
     \<and> (\<forall>h. ev = ProposedBlock h \<longrightarrow> B (Header_Hash (keccak E) h) = Some h \<and> switch_number cfg < Number h))"

lemma step_inv:
  assumes "quiet_hook hook" and "well_linked E cfg B" and "sound_stimulus E cfg B s" and "node_inv cfg B x"
    and "0 < currentRound x" and "currentRound x \<le> currentRound (step E hook b x s)"
  shows "node_inv cfg B (step E hook b x s)"
proof -
  obtain t chain ev where s: "s = (t, chain, ev)" by (cases s)
  define E' where "E' = E\<lparr>now := t\<rparr>"
  have wl: "well_linked E' cfg B" and v: "view_of cfg B chain"
    using assms(2,3) by (simp_all add: E'_def sound_stimulus_def s)
  obtain y r where y: "handle E' hook b chain ev x = (y, r)" by fastforce
  have st: "step E hook b x s = y" using y by (simp add: step_def s E'_def)
  have "0 < currentRound y" using assms(5,6) unfolding st by (rule less_le_trans)
  then have pos: "currentRound y \<noteq> 0" by auto
  have le: "currentRound x \<le> currentRound y" using assms(6) unfolding st .
  have q: "keeps quiet (handle E' hook b chain ev) \<Longrightarrow> node_inv cfg B y"
    using y quiet_inv assms(4) by (metis keepsE)
  have m: "maintains (node_inv cfg B) (handle E' hook b chain ev) \<Longrightarrow> node_inv cfg B y"
    using y assms(4) by (metis maintainsE)
  have f: "keeps timeout_frame (handle E' hook b chain ev) \<Longrightarrow> node_inv cfg B y"
    using y timeout_frame_inv le assms(4) by (metis keepsE)
  have "node_inv cfg B y"
  proof (cases ev)
    case (ProposedBlock h)
    then have "B (Header_Hash (keccak E) h) = Some h" "switch_number cfg < Number h"
      using assms(3) by (simp_all add: sound_stimulus_def s)
    then show ?thesis using m ProposedBlock_inv [OF wl v] ProposedBlock by simp
  next
    case (VoteMsg n w)
    then show ?thesis using m Bft_Vote_inv [OF wl v] by simp
  next
    case (TimeoutMsg n w)
    then show ?thesis using f Bft_Timeout_frame by simp
  next
    case (SyncInfoMsg n w)
    then show ?thesis using Bft_SyncInfo_inv [OF wl v assms(4) _ pos] y by simp
  next
    case CountdownTimeout
    then show ?thesis using f OnCountdownTimeout_frame by simp
  qed (use q handle_quiet [OF assms(1)] in simp_all)
  then show ?thesis unfolding st .
qed

end
