(* ===== verification/Chained.thy ===== *)
theory Chained
  imports Main
begin

text \<open>
  The safety argument of the commit rule, once for every protocol in which blocks carry the
  certificate of their parent. \<open>honest_voting\<close> is the interface a network of voting nodes offers: quorums
  meet in an honest node, honest nodes vote in increasing rounds, their locks only grow, cover the
  grandparent of the block they vote for, and rule what they vote for. It gives the interface
  \<open>chained_certificates\<close>, in which committed blocks are shown to lie on one chain.
\<close>

section \<open>Descent\<close>

fun chain_up :: "('b \<Rightarrow> 'b option) \<Rightarrow> nat \<Rightarrow> 'b \<Rightarrow> 'b option" where
  "chain_up par 0 b = Some b"
| "chain_up par (Suc n) b = (case par b of None \<Rightarrow> None | Some p \<Rightarrow> chain_up par n p)"

definition descends :: "('b \<Rightarrow> 'b option) \<Rightarrow> 'b \<Rightarrow> 'b \<Rightarrow> bool" where
  "descends par a b \<longleftrightarrow> (\<exists>n. chain_up par n b = Some a)"

lemma descends_refl [simp, intro]: "descends par a a"
  unfolding descends_def by (rule exI [of _ 0]) simp

lemma descends_parent: "par b = Some p \<Longrightarrow> descends par a p \<Longrightarrow> descends par a b"
  unfolding descends_def by (metis chain_up.simps(2) option.simps(5))

lemma chain_up_add:
  "chain_up par (m + n) b = (case chain_up par m b of None \<Rightarrow> None | Some c \<Rightarrow> chain_up par n c)"
  by (induction m arbitrary: b) (auto split: option.split)

lemma descends_trans:
  assumes "descends par a b" and "descends par b c"
  shows "descends par a c"
proof -
  obtain m n where "chain_up par m c = Some b" and "chain_up par n b = Some a" using assms by (auto simp: descends_def)
  then have "chain_up par (m + n) c = Some a" by (simp add: chain_up_add)
  then show ?thesis by (auto simp: descends_def)
qed

section \<open>Certificates on a chain\<close>

locale chained_certificates =
  fixes legal :: "'g \<Rightarrow> bool"
    and parent :: "'g \<Rightarrow> 'b \<Rightarrow> 'b option"
    and rnd :: "'g \<Rightarrow> 'b \<Rightarrow> nat"
    and certified :: "'g \<Rightarrow> 'b \<Rightarrow> bool"
  assumes parent_certified: "legal g \<Longrightarrow> certified g b \<Longrightarrow> parent g b = Some p \<Longrightarrow> certified g p \<and> rnd g p < rnd g b"
    and unique: "legal g \<Longrightarrow> certified g a \<Longrightarrow> certified g b \<Longrightarrow> rnd g a = rnd g b \<Longrightarrow> a = b"
    and locked: "legal g \<Longrightarrow> certified g b \<Longrightarrow> parent g b = Some p \<Longrightarrow> parent g p = Some q \<Longrightarrow> certified g c \<Longrightarrow>
      rnd g b < rnd g c \<Longrightarrow> \<exists>l. certified g l \<and> rnd g q \<le> rnd g l \<and> rnd g l < rnd g c
        \<and> ((\<exists>d. parent g c = Some d \<and> rnd g l < rnd g d) \<or> descends (parent g) l c)"
begin

text \<open>\<open>b\<close> certifies that \<open>q\<close> is committed: three blocks with consecutive rounds.\<close>

definition commits :: "'g \<Rightarrow> 'b \<Rightarrow> 'b \<Rightarrow> bool" where
  "commits g b q \<longleftrightarrow> certified g b \<and> (\<exists>p. parent g b = Some p \<and> parent g p = Some q
     \<and> rnd g b = Suc (rnd g p) \<and> rnd g p = Suc (rnd g q))"

lemma commits_certified: "legal g \<Longrightarrow> commits g b q \<Longrightarrow> certified g q"
  unfolding commits_def using parent_certified by blast

lemma later_descends:
  assumes "legal g" and "commits g b q"
  shows "certified g c \<Longrightarrow> rnd g q \<le> rnd g c \<Longrightarrow> descends (parent g) q c"
proof (induction "rnd g c" arbitrary: c rule: less_induct)
  case less
  obtain p where p: "parent g b = Some p" "parent g p = Some q" "rnd g b = Suc (rnd g p)" "rnd g p = Suc (rnd g q)"
    and b: "certified g b" using assms(2) by (auto simp: commits_def)
  have cp: "certified g p" using parent_certified [OF assms(1) b p(1)] by blast
  have qb: "descends (parent g) q b" "descends (parent g) q p"
    using descends_parent [where par = "parent g", OF p(1)] descends_parent [where par = "parent g", OF p(2)] by auto
  consider "rnd g c = rnd g q" | "rnd g c = rnd g p" | "rnd g c = rnd g b" | "rnd g b < rnd g c" using less.prems p by linarith
  then show ?case
  proof cases
    case 1
    then show ?thesis using unique [OF assms(1) less.prems(1) commits_certified [OF assms]] by auto
  next
    case 2
    then show ?thesis using unique [OF assms(1) less.prems(1) cp] qb by blast
  next
    case 3
    then show ?thesis using unique [OF assms(1) less.prems(1) b] qb by blast
  next
    case 4
    from locked [OF assms(1) b p(1,2) less.prems(1) 4] obtain l where
      l: "certified g l" "rnd g q \<le> rnd g l" "rnd g l < rnd g c"
        "(\<exists>d. parent g c = Some d \<and> rnd g l < rnd g d) \<or> descends (parent g) l c" by blast
    from l(4) show ?thesis
    proof
      assume "\<exists>d. parent g c = Some d \<and> rnd g l < rnd g d"
      then obtain d where d: "parent g c = Some d" "rnd g l < rnd g d" by blast
      have "descends (parent g) q d"
        using less.hyps [of d] parent_certified [OF assms(1) less.prems(1) d(1)] d(2) l(2) by simp
      then show ?thesis by (rule descends_parent [where par = "parent g", OF d(1)])
    next
      assume "descends (parent g) l c"
      moreover have "descends (parent g) q l" using less.hyps [of l] l(1-3) by simp
      ultimately show ?thesis by (rule descends_trans [rotated])
    qed
  qed
qed

lemma one_chain:
  assumes "legal g" and "commits g b q" and "commits g c r"
  shows "descends (parent g) q r \<or> descends (parent g) r q"
  using later_descends [OF assms(1,2)] later_descends [OF assms(1,3)] commits_certified [OF assms(1)] assms(2,3)
  by (metis nle_le)

end

section \<open>Nodes that vote\<close>

text \<open>
  \<open>signed g b V\<close>: there is a certificate for \<open>b\<close> with signatures of \<open>V\<close>. \<open>ballots g v\<close>: the blocks
  \<open>v\<close> has voted for, in order, with the block it was locked on at the time.
\<close>

locale honest_voting =
  fixes legal :: "'g \<Rightarrow> bool"
    and parent :: "'g \<Rightarrow> 'b \<Rightarrow> 'b option"
    and rnd :: "'g \<Rightarrow> 'b \<Rightarrow> nat"
    and root :: "'g \<Rightarrow> 'b \<Rightarrow> bool"
    and honest :: "'g \<Rightarrow> 'v set"
    and signed :: "'g \<Rightarrow> 'b \<Rightarrow> 'v set \<Rightarrow> bool"
    and ballots :: "'g \<Rightarrow> 'v \<Rightarrow> ('b \<times> 'b option) list"
  assumes quorums: "legal g \<Longrightarrow> signed g b V \<Longrightarrow> signed g c W \<Longrightarrow> V \<inter> W \<inter> honest g \<noteq> {}"
    and voted: "legal g \<Longrightarrow> signed g b V \<Longrightarrow> v \<in> V \<Longrightarrow> v \<in> honest g \<Longrightarrow> \<exists>l. (b, l) \<in> set (ballots g v)"
    and increasing: "legal g \<Longrightarrow> v \<in> honest g \<Longrightarrow>
      sorted_wrt (\<lambda>(b, l) (c, m). rnd g b < rnd g c \<and> (\<forall>k. l = Some k \<longrightarrow> (\<exists>k'. m = Some k' \<and> rnd g k \<le> rnd g k'))) (ballots g v)"
    and locks_grandparent: "legal g \<Longrightarrow> v \<in> honest g \<Longrightarrow> (b, l) \<in> set (ballots g v) \<Longrightarrow> parent g b = Some p \<Longrightarrow>
      parent g p = Some q \<Longrightarrow> \<exists>k. l = Some k \<and> rnd g q \<le> rnd g k"
    and voting_rule: "legal g \<Longrightarrow> v \<in> honest g \<Longrightarrow> (c, Some k) \<in> set (ballots g v) \<Longrightarrow>
      (root g k \<or> (\<exists>V. signed g k V)) \<and> rnd g k < rnd g c
      \<and> ((\<exists>d. parent g c = Some d \<and> rnd g k < rnd g d) \<or> descends (parent g) k c)"
    and parents: "legal g \<Longrightarrow> signed g b V \<Longrightarrow> \<exists>p. parent g b = Some p \<and> (root g p \<or> (\<exists>V. signed g p V)) \<and> rnd g p < rnd g b"
    and roots: "legal g \<Longrightarrow> root g b \<Longrightarrow> parent g b = None \<and> rnd g b = 0"
    and one_root: "legal g \<Longrightarrow> root g b \<Longrightarrow> root g c \<Longrightarrow> b = c"
begin

definition certified :: "'g \<Rightarrow> 'b \<Rightarrow> bool" where
  "certified g b \<longleftrightarrow> root g b \<or> (\<exists>V. signed g b V)"

lemma signed_positive: "legal g \<Longrightarrow> signed g b V \<Longrightarrow> 0 < rnd g b"
  using parents by fastforce

lemma ballot_order:
  assumes "legal g" and "v \<in> honest g" and "(b, l) \<in> set (ballots g v)" and "(c, m) \<in> set (ballots g v)"
    and "rnd g b \<le> rnd g c"
  shows "b = c \<and> l = m \<or> rnd g b < rnd g c \<and> (\<forall>k. l = Some k \<longrightarrow> (\<exists>k'. m = Some k' \<and> rnd g k \<le> rnd g k'))"
proof -
  obtain i j where i: "i < length (ballots g v)" "ballots g v ! i = (b, l)" and j: "j < length (ballots g v)" "ballots g v ! j = (c, m)"
    using assms(3,4) by (metis in_set_conv_nth)
  note s = sorted_wrt_nth_less [OF increasing [OF assms(1,2)]]
  consider "i = j" | "i < j" | "j < i" by linarith
  then show ?thesis
  proof cases
    case 1
    then show ?thesis using i j by simp
  next
    case 2
    from s [OF this j(1)] show ?thesis using i j by simp
  next
    case 3
    from s [OF this i(1)] show ?thesis using i j assms(5) by simp
  qed
qed

lemma same_round:
  assumes "legal g" and "certified g a" and "certified g b" and "rnd g a = rnd g b"
  shows "a = b"
proof (cases "root g a \<or> root g b")
  case True
  then show ?thesis
    using assms roots [OF assms(1)] signed_positive [OF assms(1)] one_root [OF assms(1)] unfolding certified_def by (metis less_irrefl)
next
  case False
  then obtain V W where V: "signed g a V" and W: "signed g b W" using assms(2,3) by (auto simp: certified_def)
  obtain v where v: "v \<in> V" "v \<in> W" "v \<in> honest g" using quorums [OF assms(1) V W] by blast
  obtain l m where "(a, l) \<in> set (ballots g v)" "(b, m) \<in> set (ballots g v)"
    using voted [OF assms(1) V v(1,3)] voted [OF assms(1) W v(2,3)] by blast
  from ballot_order [OF assms(1) v(3) this] assms(4) show ?thesis by auto
qed

lemma locked_voter:
  assumes "legal g" and "certified g b" and "parent g b = Some p" and "parent g p = Some q" and "certified g c"
    and "rnd g b < rnd g c"
  shows "\<exists>l. certified g l \<and> rnd g q \<le> rnd g l \<and> rnd g l < rnd g c
        \<and> ((\<exists>d. parent g c = Some d \<and> rnd g l < rnd g d) \<or> descends (parent g) l c)"
proof -
  obtain V where V: "signed g b V" using assms(2,3) roots [OF assms(1)] by (auto simp: certified_def)
  obtain W where W: "signed g c W" using assms(5,6) roots [OF assms(1)] by (auto simp: certified_def)
  obtain v where v: "v \<in> V" "v \<in> W" "v \<in> honest g" using quorums [OF assms(1) V W] by blast
  obtain l m where b: "(b, l) \<in> set (ballots g v)" and c: "(c, m) \<in> set (ballots g v)"
    using voted [OF assms(1) V v(1,3)] voted [OF assms(1) W v(2,3)] by blast
  obtain k where k: "l = Some k" "rnd g q \<le> rnd g k" using locks_grandparent [OF assms(1) v(3) b assms(3,4)] by blast
  obtain k' where k': "m = Some k'" "rnd g k \<le> rnd g k'"
    using ballot_order [OF assms(1) v(3) b c] assms(6) k(1) by auto
  show ?thesis using voting_rule [OF assms(1) v(3) c [unfolded k'(1)]] k(2) k'(2) unfolding certified_def by (meson le_trans)
qed

end

sublocale honest_voting \<subseteq> cc: chained_certificates legal parent rnd certified
proof unfold_locales
  fix g b p assume g: "legal g" "certified g b" "parent g b = Some p"
  then obtain V where "signed g b V" using roots [OF g(1)] by (auto simp: certified_def)
  then show "certified g p \<and> rnd g p < rnd g b" using parents [OF g(1)] g(3) by (fastforce simp: certified_def)
next
  show "legal g \<Longrightarrow> certified g a \<Longrightarrow> certified g b \<Longrightarrow> rnd g a = rnd g b \<Longrightarrow> a = b" for g a b by (rule same_round)
next
  show "legal g \<Longrightarrow> certified g b \<Longrightarrow> parent g b = Some p \<Longrightarrow> parent g p = Some q \<Longrightarrow> certified g c \<Longrightarrow>
      rnd g b < rnd g c \<Longrightarrow> \<exists>l. certified g l \<and> rnd g q \<le> rnd g l \<and> rnd g l < rnd g c
        \<and> ((\<exists>d. parent g c = Some d \<and> rnd g l < rnd g d) \<or> descends (parent g) l c)" for g b p q c
    by (rule locked_voter)
qed

end
