(* ===== verification/Agreement.thy ===== *)
theory Agreement
  imports Safety Chained
begin

text \<open>
  Agreement: the blocks that honest nodes commit lie on one chain. A network is a set of known blocks,
  a list of masternodes, the honest ones among them, and for each of these the calls its engine
  receives. The faulty nodes appear through the blocks and signatures they can produce.
\<close>

section \<open>Ballots\<close>

text \<open>The lock against which the voting rule checks the block of a call: it is read after the
  certificate of the block has been processed.\<close>

definition lock_at :: "env \<Rightarrow> BRDPoS_v2 \<Rightarrow> stimulus \<Rightarrow> QuorumCert option" where
  "lock_at E x s =
    (case s of (t, chain, ProposedBlock h) \<Rightarrow>
       (case getExtraFields (config x) h of
          Inr (Some qc, _, _) \<Rightarrow> lockQuorumCert (fst (processQC (E\<lparr>now := t\<rparr>) chain qc x))
        | _ \<Rightarrow> None)
     | _ \<Rightarrow> None)"

fun ballots :: "env \<Rightarrow> penalty_hook \<Rightarrow> Bfter \<Rightarrow> BRDPoS_v2 \<Rightarrow> stimulus list \<Rightarrow> (BlockInfo \<times> QuorumCert option) list" where
  "ballots E hook b x [] = []"
| "ballots E hook b x (s # ss) =
    (case cast E hook b x s of None \<Rightarrow> [] | Some i \<Rightarrow> [(i, lock_at E x s)]) @ ballots E hook b (step E hook b x s) ss"

lemma fst_ballots: "map fst (ballots E hook b x ss) = casts E hook b x ss"
  by (induction ss arbitrary: x) (auto split: option.split)

text \<open>The calls of an honest node: sound, and never wrapping the round counter.\<close>

fun good_run :: "env \<Rightarrow> penalty_hook \<Rightarrow> Bfter \<Rightarrow> BRDPoSConfig \<Rightarrow> blocks \<Rightarrow> BRDPoS_v2 \<Rightarrow> stimulus list \<Rightarrow> bool" where
  "good_run E hook b cfg B x [] = True"
| "good_run E hook b cfg B x (s # ss) = (sound_stimulus E cfg B s \<and> currentRound x \<le> currentRound (step E hook b x s)
     \<and> good_run E hook b cfg B (step E hook b x s) ss)"

text \<open>What a ballot shows of the block \<open>h\<close> that was voted for and of the lock \<open>l\<close> at the time.\<close>

definition ballot_ok :: "BRDPoSConfig \<Rightarrow> blocks \<Rightarrow> BlockInfo \<Rightarrow> QuorumCert option \<Rightarrow> bool" where
  "ballot_ok cfg B i l \<longleftrightarrow> (\<exists>h qc ms. B (bi_Hash i) = Some h \<and> switch_number cfg < Number h \<and> bi_Number i = Number h
     \<and> getExtraFields cfg h = Inr (Some qc, bi_Round i, ms)
     \<and> (\<forall>p q r ms'. B (ParentHash h) = Some p \<longrightarrow> switch_number cfg < Number p \<longrightarrow>
          getExtraFields cfg p = Inr (Some q, r, ms') \<longrightarrow> lock_le (Some q) l)
     \<and> (\<forall>k. l = Some k \<longrightarrow> lock_ok cfg B k \<and> cert_round k < bi_Round i
          \<and> (cert_round k < cert_round qc
             \<or> (\<exists>chain n. view_of cfg B chain \<and> ancestor_hash n chain (bi_Hash i) = Some (cert_hash k)))))"

lemma lock_after_QC:
  assumes "processQC E chain qc x = (y, Inr ())"
  shows "lock_le (lockQuorumCert x) (lockQuorumCert y)"
    and "GetHeaderByHash chain (cert_hash qc) = Some p \<Longrightarrow> switch_number (config x) < Number p \<Longrightarrow>
      getExtraFields (config x) p = Inr (Some q, r, ms) \<Longrightarrow> lock_le (Some q) (lockQuorumCert y)"
proof -
  show "lock_le (lockQuorumCert x) (lockQuorumCert y)"
    using keepsE [OF processQC_cert assms] by (simp add: cert_order_def)
  assume "GetHeaderByHash chain (cert_hash qc) = Some p" "switch_number (config x) < Number p"
    "getExtraFields (config x) p = Inr (Some q, r, ms)"
  then have "lockQuorumCert y = new_lock (lockQuorumCert x) (Some q)"
    using assms by (auto elim!: processQC_Inr)
  then show "lock_le (Some q) (lockQuorumCert y)" using new_lock_Some [of "lockQuorumCert x" q] by auto
qed

lemma step_ballot:
  assumes wl: "well_linked E cfg B" and s: "sound_stimulus E cfg B s" and inv: "node_inv cfg B x"
    and c: "cast E hook b x s = Some i"
  shows "ballot_ok cfg B i (lock_at E x s)" and "lock_le (lockQuorumCert x) (lock_at E x s)"
    and "lock_le (lock_at E x s) (lockQuorumCert (step E hook b x s))"
proof -
  obtain t chain h where sh: "s = (t, chain, ProposedBlock h)" using c by (auto simp: cast_def split: prod.splits event.splits)
  define E' where "E' = E\<lparr>now := t\<rparr>"
  obtain y r where y: "ProposedBlockHandler E' chain h x = (y, r)" by fastforce
  have st: "step E hook b x s = y" using y by (simp add: step_def sh E'_def)
  have v: "highestVotedRound y \<noteq> highestVotedRound x" and i: "i = block_info E (config x) h"
    using c unfolding cast_def sh st [unfolded sh] by (auto split: if_splits)
  from ProposedBlock_casts [OF y v] obtain qc rd ms m0 m where e: "getExtraFields (config x) h = Inr (Some qc, rd, ms)"
    and q: "processQC E' chain qc x = (m0, Inr ())" and m: "cache_only m0 m"
    and may: "may_vote chain m (block_info E' (config x) h) qc" and o: "cert_order m y" by blast
  have wl': "well_linked E' cfg B" and vw: "view_of cfg B chain" and h: "B (Header_Hash (keccak E) h) = Some h" "switch_number cfg < Number h"
    using wl s by (simp_all add: E'_def sound_stimulus_def sh)
  note sw = node_inv_switch [OF inv] and ex = getExtraFields_cong [OF node_inv_switch [OF inv]]
  have ec: "getExtraFields cfg h = Inr (Some qc, rd, ms)" using e ex by simp
  have inv0: "node_inv cfg B m0" using maintainsE [OF processQC_inv(1) [OF wl' vw embedded_right [OF wl h ec]] q inv] .
  have l: "lock_at E x s = lockQuorumCert m" "lockQuorumCert m = lockQuorumCert m0"
    using q e cache_only_fields(18) [OF m] by (simp_all add: lock_at_def sh E'_def)
  have i': "bi_Hash i = Header_Hash (keccak E) h" "bi_Round i = rd" "bi_Number i = Number h" "block_info E' (config x) h = i"
    using e by (simp_all add: i block_info_def E'_def)
  show "lock_le (lockQuorumCert x) (lock_at E x s)" using lock_after_QC(1) [OF q] l by simp
  show "lock_le (lock_at E x s) (lockQuorumCert (step E hook b x s))" using o l st by (simp add: cert_order_def)
  obtain p where p: "B (ParentHash h) = Some p" "cert_hash qc = ParentHash h"
    using well_linkedD(4) [OF wl h] ec by (auto simp: linked_def)
  have pc: "GetHeaderByHash chain (cert_hash qc) = Some p"
    using q p view_ofD(1) [OF vw] by (auto elim!: processQC_Inr)
  have "lock_le (Some q') (lock_at E x s)"
    if "switch_number cfg < Number p" "getExtraFields cfg p = Inr (Some q', r', ms')" for q' r' ms'
    using lock_after_QC(2) [OF q pc] that l sw ex by simp
  moreover have "lock_ok cfg B k \<and> cert_round k < rd \<and> (cert_round k < cert_round qc
      \<or> (\<exists>chain n. view_of cfg B chain \<and> ancestor_hash n chain (bi_Hash i) = Some (cert_hash k)))" if "lock_at E x s = Some k" for k
    using that l inv0 may i' vw cache_only_fields(14) [OF m] unfolding node_inv_def may_vote_def extends_def by auto
  ultimately show "ballot_ok cfg B i (lock_at E x s)" using h ec i' p unfolding ballot_ok_def by auto
qed

lemma step_lock: "quiet_hook hook \<Longrightarrow> node_inv cfg B x \<Longrightarrow> lock_le (lockQuorumCert x) (lockQuorumCert (step E hook b x s))"
  using step_order [of hook x E b s] by (simp add: node_order_def node_inv_def)

lemma run_ballots:
  assumes "quiet_hook hook" and "well_linked E cfg B"
  shows "node_inv cfg B x \<Longrightarrow> 0 < currentRound x \<Longrightarrow> good_run E hook b cfg B x ss \<Longrightarrow>
    node_inv cfg B (run E hook b x ss)
    \<and> (\<forall>(i, l)\<in>set (ballots E hook b x ss). ballot_ok cfg B i l \<and> lock_le (lockQuorumCert x) l)
    \<and> sorted_wrt (\<lambda>(i, l) (j, m). lock_le l m) (ballots E hook b x ss)"
proof (induction ss arbitrary: x)
  case Nil
  then show ?case by (simp add: run_def)
next
  case (Cons s ss)
  let ?y = "step E hook b x s"
  have g: "sound_stimulus E cfg B s" "currentRound x \<le> currentRound ?y" "good_run E hook b cfg B ?y ss" using Cons.prems by simp_all
  have y: "node_inv cfg B ?y" using step_inv [OF assms g(1) Cons.prems(1,2) g(2)] .
  have "0 < currentRound ?y" using Cons.prems(2) g(2) by (rule less_le_trans)
  note IH = Cons.IH [OF y this g(3)] and lk = step_lock [OF assms(1) Cons.prems(1), of E b s]
  have r: "run E hook b x (s # ss) = run E hook b ?y ss" by (simp add: run_def)
  show ?case
  proof (cases "cast E hook b x s")
    case None
    then show ?thesis using IH lk unfolding r by (auto intro: lock_le_trans)
  next
    case (Some i)
    note b = step_ballot [OF assms(2) g(1) Cons.prems(1) Some]
    show ?thesis using IH lk b Some unfolding r by (auto intro: lock_le_trans)
  qed
qed

section \<open>Networks\<close>

record network =
  net_env :: env
  net_hook :: penalty_hook
  net_bft :: Bfter
  net_config :: BRDPoSConfig
  net_blocks :: blocks
  net_nodes :: "address list"
  net_honest :: "address set"
  net_start :: "address \<Rightarrow> BRDPoS_v2"
  net_calls :: "address \<Rightarrow> stimulus list"

definition net_final :: "network \<Rightarrow> address \<Rightarrow> BRDPoS_v2" where
  "net_final g a = run (net_env g) (net_hook g) (net_bft g) (net_start g a) (net_calls g a)"

definition net_ballots :: "network \<Rightarrow> address \<Rightarrow> (BlockInfo \<times> QuorumCert option) list" where
  "net_ballots g a = ballots (net_env g) (net_hook g) (net_bft g) (net_start g a) (net_calls g a)"

definition signers_of :: "network \<Rightarrow> QuorumCert \<Rightarrow> address set" where
  "signers_of g qc = {a \<in> set (net_nodes g). \<exists>sig\<in>set (qc_Signatures qc). signed_by (net_env g) (qc_payload (net_env g) qc) sig a}"

text \<open>A certificate with the signatures of a threshold of different masternodes.\<close>

definition genuine :: "network \<Rightarrow> QuorumCert \<Rightarrow> bool" where
  "genuine g qc \<longleftrightarrow> (\<exists>c. V2_Config (cfg_V2 (net_config g)) (cert_round qc) = Some c
     \<and> \<not> below_threshold (card (signers_of g qc)) (length (net_nodes g)) (CertThreshold c))"

definition embedded :: "network \<Rightarrow> QuorumCert \<Rightarrow> bool" where
  "embedded g qc \<longleftrightarrow> lock_ok (net_config g) (net_blocks g) qc"

definition committing :: "network \<Rightarrow> QuorumCert \<Rightarrow> bool" where
  "committing g qc \<longleftrightarrow> (\<exists>a\<in>net_honest g. qc \<in> snd ` set (forensicsJobs (net_final g a)))"

text \<open>An honest node is created for the network's configuration and starts at the switch block.\<close>

definition started :: "network \<Rightarrow> address \<Rightarrow> bool" where
  "started g a \<longleftrightarrow> (\<exists>d x0 fn chain h. New (net_config g) d = Inr x0 \<and> Number h = switch_number (net_config g)
     \<and> thenE (Authorize a fn) (initial (net_env g) chain h) x0 = (net_start g a, Inr ()))"

definition legal :: "network \<Rightarrow> bool" where
  "legal g \<longleftrightarrow> quiet_hook (net_hook g) \<and> well_linked (net_env g) (net_config g) (net_blocks g)
     \<and> (\<forall>k l h h'. net_blocks g k = Some h \<longrightarrow> net_blocks g l = Some h' \<longrightarrow> Number h = switch_number (net_config g) \<longrightarrow>
          Number h' = switch_number (net_config g) \<longrightarrow> k = l)
     \<and> (\<forall>r c. V2_Config (cfg_V2 (net_config g)) r = Some c \<longrightarrow> CertThreshold c = cert_0667)
     \<and> distinct (net_nodes g) \<and> net_nodes g \<noteq> [] \<and> length (net_nodes g) < 2 ^ 53 \<and> net_honest g \<subseteq> set (net_nodes g)
     \<and> 3 * card (set (net_nodes g) - net_honest g) \<le> length (net_nodes g)
     \<and> (\<forall>a\<in>net_honest g. started g a
          \<and> good_run (net_env g) (net_hook g) (net_bft g) (net_config g) (net_blocks g) (net_start g a) (net_calls g a))
     \<and> (\<forall>qc. embedded g qc \<and> 0 < cert_round qc \<or> committing g qc \<longrightarrow> genuine g qc
          \<and> (\<forall>a\<in>net_honest g. a \<in> signers_of g qc \<longrightarrow> qc_ProposedBlockInfo qc \<in> fst ` set (net_ballots g a)))"

lemma legalD:
  assumes "legal g"
  shows "quiet_hook (net_hook g)" "well_linked (net_env g) (net_config g) (net_blocks g)"
    "net_blocks g k = Some h \<Longrightarrow> net_blocks g l = Some h' \<Longrightarrow> Number h = switch_number (net_config g) \<Longrightarrow>
      Number h' = switch_number (net_config g) \<Longrightarrow> k = l"
    "V2_Config (cfg_V2 (net_config g)) r = Some c \<Longrightarrow> CertThreshold c = cert_0667"
    "a \<in> net_honest g \<Longrightarrow> started g a"
    "a \<in> net_honest g \<Longrightarrow>
      good_run (net_env g) (net_hook g) (net_bft g) (net_config g) (net_blocks g) (net_start g a) (net_calls g a)"
    "embedded g qc \<and> 0 < cert_round qc \<or> committing g qc \<Longrightarrow> genuine g qc"
    "embedded g qc \<and> 0 < cert_round qc \<or> committing g qc \<Longrightarrow> a \<in> net_honest g \<Longrightarrow> a \<in> signers_of g qc \<Longrightarrow>
      qc_ProposedBlockInfo qc \<in> fst ` set (net_ballots g a)"
  using assms unfolding legal_def by blast+

lemma started_inv:
  assumes "started g a"
  shows "node_inv (net_config g) B (net_start g a) \<and> 0 < currentRound (net_start g a)"
proof -
  obtain d x0 fn chain h where n: "New (net_config g) d = Inr x0" "Number h = switch_number (net_config g)"
      "thenE (Authorize a fn) (initial (net_env g) chain h) x0 = (net_start g a, Inr ())"
    using assms by (auto simp: started_def)
  define x1 where "x1 = x0\<lparr>signer := a, signFn := fn\<rparr>"
  have x1: "bi_Hash (qc_ProposedBlockInfo (highestQuorumCert x1)) = 0" "lockQuorumCert x1 = None" "highestCommitBlock x1 = None"
      "switch_number (config x1) = switch_number (net_config g)"
    using n(1) by (auto simp: New_def Let_def x1_def BuildConfigIndex_def split: sum.splits)
  let ?x2 = "x1\<lparr>currentRound := 1, highestQuorumCert := first_cert (net_env g) (config x1) h\<rparr>"
  obtain x3 r where f: "first_snapshot (net_env g) chain ?x2 = (x3, r)" by fastforce
  have "keeps core_same (first_snapshot (net_env g) chain)"
  proof -
    have s: "step_rel core_same" by unfold_locales (auto simp: core_same_def)
    have c: "keeps core_same (snapshots_Add k v)" for k v by (rule keepsI) (simp add: snapshots_Add_def comp_simps core_same_def)
    show ?thesis unfolding first_snapshot_def storeSnapshot_def Let_def
      by (intro step_rel.keeps_rules [OF s] c) (simp add: core_same_def)
  qed
  then have c: "core_same ?x2 x3" using f by (rule keepsE)
  have "initial (net_env g) chain h x1 = (net_start g a, Inr ())" using n(3) by (simp add: Authorize_def comp_simps x1_def)
  then have "net_start g a = x3\<lparr>minePeriods := minePeriods x3 @ [MinePeriod (CurrentConfig (cfg_V2 (config x3)))],
      timeoutWorker := timer_Reset 0 0 (timeoutWorker x3), isInitilised := True\<rparr>"
    using x1 n(2) f by (auto simp: initial_def comp_simps split: sum.splits)
  then show ?thesis using c x1 by (simp add: core_same_def node_inv_def)
qed

section \<open>The blocks of a network\<close>

definition net_parent :: "network \<Rightarrow> hash \<Rightarrow> hash option" where
  "net_parent g k =
    (case net_blocks g k of
       None \<Rightarrow> None
     | Some h \<Rightarrow> if switch_number (net_config g) < Number h then Some (ParentHash h) else None)"

definition net_round :: "network \<Rightarrow> hash \<Rightarrow> nat" where
  "net_round g k =
    (case net_blocks g k of
       None \<Rightarrow> 0
     | Some h \<Rightarrow> if Number h \<le> switch_number (net_config g) then 0
                 else (case getExtraFields (net_config g) h of Inl _ \<Rightarrow> 0 | Inr (_, r, _) \<Rightarrow> unat r))"

definition net_root :: "network \<Rightarrow> hash \<Rightarrow> bool" where
  "net_root g k \<longleftrightarrow> (\<exists>h. net_blocks g k = Some h \<and> Number h = switch_number (net_config g))"

definition net_signed :: "network \<Rightarrow> hash \<Rightarrow> address set \<Rightarrow> bool" where
  "net_signed g k V \<longleftrightarrow>
    (\<exists>qc. (embedded g qc \<and> 0 < cert_round qc \<or> committing g qc) \<and> cert_hash qc = k \<and> V = signers_of g qc)"

definition hash_ballots :: "network \<Rightarrow> address \<Rightarrow> (hash \<times> hash option) list" where
  "hash_ballots g a = map (\<lambda>(i, l). (bi_Hash i, map_option cert_hash l)) (net_ballots g a)"

lemma net_round_names:
  "net_blocks g k = Some h \<Longrightarrow> switch_number (net_config g) \<le> Number h \<Longrightarrow> names_round (net_config g) h r \<Longrightarrow> net_round g k = unat r"
  by (auto simp: net_round_def names_round_def round_of_def)

lemma embedded_facts:
  assumes "legal g" and "embedded g qc"
  shows "\<exists>p. net_blocks g (cert_hash qc) = Some p \<and> switch_number (net_config g) \<le> Number p"
    and "net_round g (cert_hash qc) = unat (cert_round qc)"
    and "net_root g (cert_hash qc) \<or> (\<exists>V. net_signed g (cert_hash qc) V)"
proof -
  note wl = legalD(2) [OF assms(1)]
  obtain k h r ms where h: "net_blocks g k = Some h" "switch_number (net_config g) < Number h"
      "getExtraFields (net_config g) h = Inr (Some qc, r, ms)"
    using assms(2) by (auto simp: embedded_def lock_ok_def)
  then obtain p where p: "net_blocks g (cert_hash qc) = Some p" "names_round (net_config g) p (cert_round qc)" "cert_hash qc = ParentHash h"
    using well_linkedD(4) [OF wl h(1,2)] by (auto simp: linked_def)
  have np: "switch_number (net_config g) \<le> Number p" using well_linkedD(3) [OF wl h(1)] p(1,3) h(2) by simp
  then show "\<exists>p. net_blocks g (cert_hash qc) = Some p \<and> switch_number (net_config g) \<le> Number p" using p(1) by blast
  show "net_round g (cert_hash qc) = unat (cert_round qc)" using net_round_names [OF p(1) np p(2)] .
  show "net_root g (cert_hash qc) \<or> (\<exists>V. net_signed g (cert_hash qc) V)"
  proof (cases "Number p = switch_number (net_config g)")
    case False
    then have "0 < cert_round qc"
      using well_linkedD(4) [OF wl p(1)] np p(2)
      by (auto simp: linked_def names_round_def round_of_def) (metis le_less_trans word_coorder.extremum)
    then show ?thesis using assms(2) by (auto simp: net_signed_def)
  qed (use p(1) in \<open>auto simp: net_root_def\<close>)
qed

lemma ballot_facts:
  assumes "legal g" and "a \<in> net_honest g" and "(i, l) \<in> set (net_ballots g a)"
  shows "ballot_ok (net_config g) (net_blocks g) i l"
proof -
  note st = started_inv [OF legalD(5) [OF assms(1,2)], of "net_blocks g"]
  show ?thesis
    using run_ballots [OF legalD(1,2) [OF assms(1)] conjunct1 [OF st] conjunct2 [OF st] legalD(6) [OF assms(1,2)]] assms(3)
    by (auto simp: net_ballots_def)
qed

lemma ballot_round:
  assumes "legal g" and "a \<in> net_honest g" and "(i, l) \<in> set (net_ballots g a)"
  shows "net_round g (bi_Hash i) = unat (bi_Round i)"
  using ballot_facts [OF assms] by (auto simp: ballot_ok_def net_round_def)

lemma ballot_lock:
  assumes "legal g" and "a \<in> net_honest g" and "(i, Some k) \<in> set (net_ballots g a)"
  shows "embedded g k" and "net_round g (cert_hash k) = unat (cert_round k)"
proof -
  show "embedded g k" using ballot_facts [OF assms] by (auto simp: ballot_ok_def embedded_def)
  then show "net_round g (cert_hash k) = unat (cert_round k)" by (rule embedded_facts(2) [OF assms(1)])
qed

lemma ancestor_number:
  assumes "well_linked E cfg B" and "view_of cfg B chain"
  shows "ancestor_hash n chain k = Some l \<Longrightarrow> B k = Some h \<Longrightarrow> B l = Some h' \<Longrightarrow> Number h = Number h' + int n"
proof (induction n arbitrary: k h)
  case (Suc n)
  obtain h1 where h1: "GetHeaderByHash chain k = Some h1" "ancestor_hash n chain (ParentHash h1) = Some l"
    using Suc.prems(1) by (auto split: option.splits)
  have k: "h1 = h" using view_ofD(1) [OF assms(2) h1(1)] Suc.prems(2) by simp
  have "\<exists>p. B (ParentHash h) = Some p"
  proof (cases n)
    case 0
    then show ?thesis using h1 k Suc.prems(3) by simp
  next
    case (Suc m)
    then show ?thesis using h1(2) k view_ofD(1) [OF assms(2)] by (auto split: option.splits)
  qed
  then obtain p where p: "B (ParentHash h) = Some p" by blast
  show ?case using Suc.IH [OF _ p Suc.prems(3)] h1(2) k well_linkedD(3) [OF assms(1) Suc.prems(2) p] by simp
qed simp

lemma ancestor_descends:
  assumes "legal g" and "view_of (net_config g) (net_blocks g) chain" and "net_blocks g l = Some h'"
    and "switch_number (net_config g) \<le> Number h'"
  shows "ancestor_hash n chain k = Some l \<Longrightarrow> net_blocks g k = Some h \<Longrightarrow> chain_up (net_parent g) n k = Some l"
proof (induction n arbitrary: k h)
  case (Suc n)
  note IH = Suc.IH and num = ancestor_number [OF legalD(2) [OF assms(1)] assms(2) _ _ assms(3)]
  have "switch_number (net_config g) < Number h" using num [OF Suc.prems] assms(4) by simp
  then have p: "net_parent g k = Some (ParentHash h)" using Suc.prems(2) by (simp add: net_parent_def)
  obtain h1 where h1: "GetHeaderByHash chain k = Some h1" "ancestor_hash n chain (ParentHash h1) = Some l"
    using Suc.prems(1) by (auto split: option.splits)
  have k: "h1 = h" using view_ofD(1) [OF assms(2) h1(1)] Suc.prems(2) by simp
  show ?case
  proof (cases n)
    case 0
    then show ?thesis using p h1 k by simp
  next
    case (Suc m)
    then obtain h2 where h2: "net_blocks g (ParentHash h) = Some h2"
      using h1(2) k view_ofD(1) [OF assms(2)] by (auto split: option.splits)
    show ?thesis using IH [OF _ h2] p h1(2) k by simp
  qed
qed simp

section \<open>A legal network votes honestly\<close>

lemma quorum_size:
  assumes "legal g" and "net_signed g k V"
  shows "2 * length (net_nodes g) < 3 * card V" and "V \<subseteq> set (net_nodes g)"
proof -
  obtain qc where V: "V = signers_of g qc" and "embedded g qc \<and> 0 < cert_round qc \<or> committing g qc"
    using assms(2) by (auto simp: net_signed_def)
  then have "genuine g qc" using legalD(7) [OF assms(1)] by blast
  then obtain c where c: "V2_Config (cfg_V2 (net_config g)) (cert_round qc) = Some c"
      "\<not> below_threshold (card V) (length (net_nodes g)) (CertThreshold c)"
    by (auto simp: genuine_def V)
  show sub: "V \<subseteq> set (net_nodes g)" by (auto simp: V signers_of_def)
  have "card V \<le> length (net_nodes g)"
    using card_mono [OF finite_set sub] card_length [of "net_nodes g"] by linarith
  moreover have "0 < length (net_nodes g)" "length (net_nodes g) < 2 ^ 53" using assms(1) by (auto simp: legal_def)
  ultimately show "2 * length (net_nodes g) < 3 * card V"
    using quorum_two_thirds [OF c(2)] cert_0667_bounds legalD(4) [OF assms(1) c(1)] by simp
qed

lemma quorums_meet:
  assumes "legal g" and "net_signed g k V" and "net_signed g l W"
  shows "V \<inter> W \<inter> net_honest g \<noteq> {}"
proof
  let ?N = "set (net_nodes g)" and ?H = "net_honest g"
  assume "V \<inter> W \<inter> ?H = {}"
  then have "V \<inter> W \<subseteq> ?N - ?H" using quorum_size(2) [OF assms(1,2)] by blast
  then have "card (V \<inter> W) \<le> card (?N - ?H)" by (rule card_mono [rotated]) simp
  moreover have "card (V \<union> W) \<le> card ?N"
    using quorum_size(2) [OF assms(1,2)] quorum_size(2) [OF assms(1,3)] by (intro card_mono) auto
  moreover have "card (V \<union> W) + card (V \<inter> W) = card V + card W"
    using quorum_size(2) [OF assms(1,2)] quorum_size(2) [OF assms(1,3)] finite_subset by (intro card_Un_Int [symmetric]) auto
  moreover have "card ?N \<le> length (net_nodes g)" "3 * card (?N - ?H) \<le> length (net_nodes g)"
    using card_length [of "net_nodes g"] assms(1) by (auto simp: legal_def)
  ultimately show False using quorum_size(1) [OF assms(1,2)] quorum_size(1) [OF assms(1,3)] by linarith
qed

lemma signed_ballot:
  assumes "legal g" and "net_signed g k V" and "a \<in> V" and "a \<in> net_honest g"
  shows "\<exists>i l. (i, l) \<in> set (net_ballots g a) \<and> bi_Hash i = k"
proof -
  obtain qc where "embedded g qc \<and> 0 < cert_round qc \<or> committing g qc" "cert_hash qc = k" "V = signers_of g qc"
    using assms(2) by (auto simp: net_signed_def)
  then show ?thesis using legalD(8) [OF assms(1) _ assms(4)] assms(3) by force
qed

lemma signed_parent:
  assumes "legal g" and "net_signed g k V"
  shows "\<exists>p. net_parent g k = Some p \<and> (net_root g p \<or> (\<exists>V. net_signed g p V)) \<and> net_round g p < net_round g k"
proof -
  obtain a where a: "a \<in> V" "a \<in> net_honest g" using quorums_meet [OF assms assms(2)] by blast
  obtain i l where i: "(i, l) \<in> set (net_ballots g a)" "bi_Hash i = k" using signed_ballot [OF assms a] by blast
  from ballot_facts [OF assms(1) a(2) i(1)] i(2) obtain h qc ms where h: "net_blocks g k = Some h"
      "switch_number (net_config g) < Number h" "getExtraFields (net_config g) h = Inr (Some qc, bi_Round i, ms)"
    by (auto simp: ballot_ok_def)
  have e: "embedded g qc" using h by (auto simp: embedded_def lock_ok_def)
  have q: "cert_hash qc = ParentHash h" "cert_round qc < bi_Round i"
    using well_linkedD(4) [OF legalD(2) [OF assms(1)] h(1,2)] h(3) by (auto simp: linked_def)
  have "net_round g k = unat (bi_Round i)" using ballot_round [OF assms(1) a(2) i(1)] i(2) by simp
  then show ?thesis
    using embedded_facts(2,3) [OF assms(1) e] q h by (auto simp: net_parent_def word_less_nat_alt)
qed

lemma sorted_wrt_both: "sorted_wrt P xs \<Longrightarrow> sorted_wrt Q xs \<Longrightarrow> sorted_wrt (\<lambda>x y. P x y \<and> Q x y) xs"
  by (induction xs) auto

lemma ballots_increase:
  assumes "legal g" and "a \<in> net_honest g"
  shows "sorted_wrt (\<lambda>(b, l) (c, m). net_round g b < net_round g c
     \<and> (\<forall>k. l = Some k \<longrightarrow> (\<exists>k'. m = Some k' \<and> net_round g k \<le> net_round g k'))) (hash_ballots g a)"
proof -
  let ?bs = "net_ballots g a"
  note st = started_inv [OF legalD(5) [OF assms], of "net_blocks g"]
  have l: "sorted_wrt (\<lambda>(i, l) (j, m). lock_le l m) ?bs"
    using run_ballots [OF legalD(1,2) [OF assms(1)] conjunct1 [OF st] conjunct2 [OF st] legalD(6) [OF assms]]
    by (simp add: net_ballots_def)
  have "sorted_wrt (\<lambda>i j. bi_Round i < bi_Round j) (map fst ?bs)"
    using casts_increase [OF legalD(1) [OF assms(1)]] by (simp add: net_ballots_def fst_ballots)
  then have r: "sorted_wrt (\<lambda>x y. bi_Round (fst x) < bi_Round (fst y)) ?bs" by (simp add: sorted_wrt_map)
  have "net_round g (bi_Hash i) < net_round g (bi_Hash j)
      \<and> (\<forall>k. map_option cert_hash l = Some k \<longrightarrow> (\<exists>k'. map_option cert_hash m = Some k' \<and> net_round g k \<le> net_round g k'))"
    if "(i, l) \<in> set ?bs" "(j, m) \<in> set ?bs" "bi_Round i < bi_Round j" "lock_le l m" for i l j m
  proof -
    have "\<exists>k'. m = Some k' \<and> net_round g (cert_hash k) \<le> net_round g (cert_hash k')" if k: "l = Some k" for k
    proof -
      obtain k' where k': "m = Some k'" "cert_round k \<le> cert_round k'" using \<open>lock_le l m\<close> k by (cases m) auto
      show ?thesis
        using k' ballot_lock(2) [OF assms, of i k] ballot_lock(2) [OF assms, of j k'] that(1) \<open>(i, l) \<in> _\<close> \<open>(j, m) \<in> _\<close>
        by (auto simp: word_le_nat_alt)
    qed
    then show ?thesis using that(3) ballot_round [OF assms that(1)] ballot_round [OF assms that(2)]
      by (auto simp: word_less_nat_alt)
  qed
  then show ?thesis
    unfolding hash_ballots_def sorted_wrt_map
    by (intro sorted_wrt_mono_rel [OF _ sorted_wrt_both [OF r l]]) (auto split: prod.splits)
qed

lemma ballot_grandparent:
  assumes "legal g" and "a \<in> net_honest g" and "(i, l) \<in> set (net_ballots g a)" and "net_parent g (bi_Hash i) = Some p"
    and "net_parent g p = Some q"
  shows "\<exists>k. l = Some k \<and> net_round g q \<le> net_round g (cert_hash k)"
proof -
  note b = ballot_facts [OF assms(1-3)]
  obtain hp where hp: "net_blocks g p = Some hp" "switch_number (net_config g) < Number hp" "q = ParentHash hp"
    using assms(5) by (auto simp: net_parent_def split: option.splits if_splits)
  obtain qc r ms where qc: "getExtraFields (net_config g) hp = Inr (Some qc, r, ms)" "cert_hash qc = q"
    using well_linkedD(4) [OF legalD(2) [OF assms(1)] hp(1,2)] hp(3) by (auto simp: linked_def)
  have "embedded g qc" using hp qc by (auto simp: embedded_def lock_ok_def)
  moreover have "lock_le (Some qc) l"
    using b assms(4) hp qc by (auto simp: ballot_ok_def net_parent_def split: if_splits)
  then obtain k where "l = Some k" "cert_round qc \<le> cert_round k" by (cases l) auto
  ultimately show ?thesis
    using embedded_facts(2) [OF assms(1)] ballot_lock(2) [OF assms(1,2), of i k] assms(3) qc(2)
    by (auto simp: word_le_nat_alt)
qed

lemma ballot_rule:
  assumes "legal g" and "a \<in> net_honest g" and "(i, Some k) \<in> set (net_ballots g a)"
  shows "net_round g (cert_hash k) < net_round g (bi_Hash i)
    \<and> ((\<exists>d. net_parent g (bi_Hash i) = Some d \<and> net_round g (cert_hash k) < net_round g d)
       \<or> descends (net_parent g) (cert_hash k) (bi_Hash i))"
proof -
  from ballot_facts [OF assms] obtain h qc ms where h: "net_blocks g (bi_Hash i) = Some h"
      "switch_number (net_config g) < Number h" "getExtraFields (net_config g) h = Inr (Some qc, bi_Round i, ms)"
      "cert_round k < bi_Round i" "cert_round k < cert_round qc
        \<or> (\<exists>chain n. view_of (net_config g) (net_blocks g) chain \<and> ancestor_hash n chain (bi_Hash i) = Some (cert_hash k))"
    unfolding ballot_ok_def by blast
  note k = ballot_lock [OF assms]
  have e: "embedded g qc" using h by (auto simp: embedded_def lock_ok_def)
  have p: "net_parent g (bi_Hash i) = Some (cert_hash qc)"
    using well_linkedD(4) [OF legalD(2) [OF assms(1)] h(1,2)] h by (auto simp: linked_def net_parent_def)
  have d: "descends (net_parent g) (cert_hash k) (bi_Hash i)"
    if "view_of (net_config g) (net_blocks g) chain" "ancestor_hash n chain (bi_Hash i) = Some (cert_hash k)" for chain n
    using ancestor_descends [OF assms(1) that(1) _ _ that(2) h(1)] embedded_facts(1) [OF assms(1) k(1)]
    unfolding descends_def by blast
  show ?thesis
    using h(4,5) d p k(2) embedded_facts(2) [OF assms(1) e] ballot_round [OF assms] by (auto simp: word_less_nat_alt)
qed

interpretation hv: honest_voting legal net_parent net_round net_root net_honest net_signed hash_ballots
proof unfold_locales
  show "legal g \<Longrightarrow> net_signed g b V \<Longrightarrow> net_signed g c W \<Longrightarrow> V \<inter> W \<inter> net_honest g \<noteq> {}" for g b V c W by (rule quorums_meet)
  show "\<exists>l. (b, l) \<in> set (hash_ballots g v)" if "legal g" "net_signed g b V" "v \<in> V" "v \<in> net_honest g" for g b V v
    using signed_ballot [OF that] by (force simp: hash_ballots_def)
  show "legal g \<Longrightarrow> v \<in> net_honest g \<Longrightarrow> sorted_wrt (\<lambda>(b, l) (c, m). net_round g b < net_round g c
     \<and> (\<forall>k. l = Some k \<longrightarrow> (\<exists>k'. m = Some k' \<and> net_round g k \<le> net_round g k'))) (hash_ballots g v)" for g v
    by (rule ballots_increase)
  show "\<exists>k. l = Some k \<and> net_round g q \<le> net_round g k"
    if "legal g" "v \<in> net_honest g" "(b, l) \<in> set (hash_ballots g v)" "net_parent g b = Some p" "net_parent g p = Some q" for g v b l p q
    using that(3-5) ballot_grandparent [OF that(1,2)] by (fastforce simp: hash_ballots_def)
  show "(net_root g k \<or> (\<exists>V. net_signed g k V)) \<and> net_round g k < net_round g c
      \<and> ((\<exists>d. net_parent g c = Some d \<and> net_round g k < net_round g d) \<or> descends (net_parent g) k c)"
    if "legal g" "v \<in> net_honest g" "(c, Some k) \<in> set (hash_ballots g v)" for g v c k
  proof -
    note t = that
    obtain i q where iq: "(i, Some q) \<in> set (net_ballots g v)" "c = bi_Hash i" "k = cert_hash q"
      using t(3) by (fastforce simp: hash_ballots_def dest: sym)
    show ?thesis
      using ballot_rule [OF t(1,2) iq(1)] embedded_facts(3) [OF t(1) ballot_lock(1) [OF t(1,2) iq(1)]] iq by simp
  qed
  show "legal g \<Longrightarrow> net_signed g b V \<Longrightarrow>
      \<exists>p. net_parent g b = Some p \<and> (net_root g p \<or> (\<exists>V. net_signed g p V)) \<and> net_round g p < net_round g b" for g b V
    by (rule signed_parent)
  show "net_root g b \<Longrightarrow> net_parent g b = None \<and> net_round g b = 0" for g b by (auto simp: net_root_def net_parent_def net_round_def)
  show "legal g \<Longrightarrow> net_root g b \<Longrightarrow> net_root g c \<Longrightarrow> b = c" for g b c using legalD(3) by (auto simp: net_root_def)
qed

section \<open>Agreement\<close>

lemma final_inv:
  assumes "legal g" and "a \<in> net_honest g"
  shows "node_inv (net_config g) (net_blocks g) (net_final g a)"
proof -
  note st = started_inv [OF legalD(5) [OF assms], of "net_blocks g"]
  show ?thesis
    using run_ballots [OF legalD(1,2) [OF assms(1)] conjunct1 [OF st] conjunct2 [OF st] legalD(6) [OF assms]]
    by (simp add: net_final_def)
qed

lemma step_round:
  assumes "legal g" and "net_blocks g k = Some h" and "switch_number (net_config g) < Number h" and "round_of (net_config g) h r"
    and "net_blocks g (ParentHash h) = Some p" and "switch_number (net_config g) < Number p" and "round_of (net_config g) p (r - 1)"
  shows "net_parent g k = Some (ParentHash h)" and "net_round g k = Suc (net_round g (ParentHash h))"
proof -
  show "net_parent g k = Some (ParentHash h)" using assms(2,3) by (simp add: net_parent_def)
  have "r - 1 < r"
    using well_linkedD(4) [OF legalD(2) [OF assms(1)] assms(2,3)] assms(4-7) round_of_fun
    by (auto simp: linked_def names_round_def round_of_def)
  then have "unat r = Suc (unat (r - 1))"
    by (metis One_nat_def add.commute diff_add_cancel not_less_zero plus_1_eq_Suc unatSuc word_less_nat_alt unat_0)
  then show "net_round g k = Suc (net_round g (ParentHash h))"
    using net_round_names [OF assms(2), of r] net_round_names [OF assms(5), of "r - 1"] assms(3,4,6,7) by (simp add: names_round_def)
qed

lemma final_commits:
  assumes "legal g" and "a \<in> net_honest g" and "highestCommitBlock (net_final g a) = Some c"
  shows "\<exists>b. hv.cc.commits g b (bi_Hash c)"
proof -
  have "commit_ok (net_config g) (net_blocks g) (forensicsJobs (net_final g a)) c"
    using final_inv [OF assms(1,2)] assms(3) by (simp add: node_inv_def)
  then obtain qc where qc: "qc \<in> snd ` set (forensicsJobs (net_final g a))"
      "three_blocks (net_config g) (net_blocks g) (cert_hash qc) (bi_Hash c)" by (auto simp: commit_ok_def)
  then obtain b p q r where t: "net_blocks g (cert_hash qc) = Some b" "net_blocks g (ParentHash b) = Some p"
      "net_blocks g (ParentHash p) = Some q" "switch_number (net_config g) < Number q" "round_of (net_config g) b r"
      "round_of (net_config g) p (r - 1)" "round_of (net_config g) q (r - 1 - 1)" "ParentHash p = bi_Hash c"
    by (auto simp: three_blocks_def diff_diff_eq)
  note wl = legalD(2) [OF assms(1)]
  have n: "switch_number (net_config g) < Number b" "switch_number (net_config g) < Number p"
    using well_linkedD(3) [OF wl t(1,2)] well_linkedD(3) [OF wl t(2,3)] t(4) by simp_all
  have "net_signed g (cert_hash qc) (signers_of g qc)" using qc(1) assms(2) by (auto simp: net_signed_def committing_def)
  then have "hv.certified g (cert_hash qc)" by (auto simp: hv.certified_def)
  then show ?thesis
    using step_round [OF assms(1) t(1) n(1) t(5,2) n(2) t(6)] step_round [OF assms(1) t(2) n(2) t(6,3,4,7)] t(8)
    unfolding hv.cc.commits_def by auto
qed

lemma commits_on_one_chain:
  assumes "legal g" and "a \<in> net_honest g" and "b \<in> net_honest g"
    and "highestCommitBlock (net_final g a) = Some c" and "highestCommitBlock (net_final g b) = Some d"
  shows "descends (net_parent g) (bi_Hash c) (bi_Hash d) \<or> descends (net_parent g) (bi_Hash d) (bi_Hash c)"
  using final_commits [OF assms(1,2,4)] final_commits [OF assms(1,3,5)] hv.cc.one_chain [OF assms(1)] by blast

end
