(* ===== verification/Network_Sample.thy ===== *)
theory Network_Sample
  imports Agreement
begin

text \<open>
  A network at which agreement is evaluated: four masternodes with the addresses 5 to 8, the last one
  faulty and silent, the switch block 900 and the blocks 901 to 905 with the rounds 1 to 5. The hash
  function gives the block \<open>900 + n\<close> the hash \<open>100 + n\<close> and one byte as hash to itself; a signature is the
  byte of its signer.
\<close>

section \<open>Blocks\<close>

definition key :: "nat \<Rightarrow> hash" where
  "key n = of_nat (100 + n)"

definition net_qc :: "nat \<Rightarrow> QuorumCert" where
  "net_qc n = \<lparr>qc_ProposedBlockInfo = \<lparr>bi_Hash = key n, bi_Round = of_nat n, bi_Number = 900 + int n\<rparr>,
     qc_Signatures = [[5], [6], [7]], qc_GapNumber = 450\<rparr>"

lemma net_qc_info: "cert_hash (net_qc n) = key n" "cert_round (net_qc n) = of_nat n"
  by (simp_all add: net_qc_def)

definition blk :: "nat \<Rightarrow> Header" where
  "blk n =
    (if n = 0 then sample_switch_block
     else (sample_block (900 + int n) (key (n - 1)) (of_nat n) (net_qc (n - 1)))
       \<lparr>Validators := (if n = 1 then ExtractAddressToBytes [5, 6, 7, 8] else [])\<rparr>)"

lemma blk_fields:
  "Number (blk n) = 900 + int n" "0 < n \<Longrightarrow> ParentHash (blk n) = key (n - 1)" "ParentHash (blk 0) = 99" "Penalties (blk n) = []"
  by (simp_all add: blk_def)

lemma net_qc_wf: "n \<le> 5 \<Longrightarrow> wf_QuorumCert (net_qc n)"
proof -
  assume n: "n \<le> 5"
  have "(1000::int) \<le> 2 ^ 256" by simp
  then show ?thesis using n by (simp add: wf_QuorumCert_def wf_BlockInfo_def net_qc_def)
qed

lemma extra_bytes:
  assumes "n \<le> 5"
  shows "DecodeBytesExtraFields (sample_extra r (net_qc n)) = Inr \<lparr>ex_Round = r, ex_QuorumCert = Some (net_qc n)\<rparr>"
    and "length (sample_extra r (net_qc n)) \<le> 2 ^ 43"
proof -
  let ?e = "\<lparr>ex_Round = r, ex_QuorumCert = Some (net_qc n)\<rparr>"
  let ?i = "item_of T_ExtraFields_v2 (val_ExtraFields_v2 ?e)"
  note wf = net_qc_wf [OF assms]
  obtain bs where bs: "ExtraFields_EncodeToBytes ?e = Inr bs" "DecodeBytesExtraFields bs = Inr ?e"
    using ExtraFields_roundtrip_aux [of ?e] wf by auto
  then show "DecodeBytesExtraFields (sample_extra r (net_qc n)) = Inr ?e" by (simp add: sample_extra_def)
  have i: "isize ?i \<le> 2 ^ 42 + 26"
    using isize_QuorumCert [OF wf] nbytes_u64 [of r] by (simp add: T_ExtraFields_v2_def val_ExtraFields_v2_def lastField_Cons)
  then have s: "length (rlp_enc ?i) \<le> isize ?i" by (intro rlp_enc_size) simp
  then have "length (rlp_enc ?i) < 2 ^ 64" using i by simp
  then have "EncodeToBytes T_ExtraFields_v2 (val_ExtraFields_v2 ?e) = Inr (rlp_enc ?i)"
    using EncodeToBytes_spec wt_ExtraFields [of ?e] wf by simp
  then have "sample_extra r (net_qc n) = 2 # rlp_enc ?i" by (simp add: sample_extra_def ExtraFields_EncodeToBytes_def)
  then show "length (sample_extra r (net_qc n)) \<le> 2 ^ 43" using s i by simp
qed

lemma blk_extra:
  assumes "0 < n" and "n \<le> 5"
  shows "getExtraFields sample_config (blk n) = Inr (Some (net_qc (n - 1)), of_nat n, if n = 1 then [5, 6, 7, 8] else [])"
proof -
  have "addresses_at (ExtractAddressToBytes [5, 6, 7, 8]) 4 = [5, 6, 7, 8]"
    using addresses_at_ToBytes [of "[5, 6, 7, 8]" "[]"] by (simp add: eval_nat_numeral del: ExtractAddressToBytes.simps)
  moreover have "addresses_at [] 0 = []" by (simp add: addresses_at_def)
  ultimately show ?thesis
    using assms extra_bytes(1) [of "n - 1" "of_nat n"]
    by (simp add: getExtraFields_def blk_def sample_switch GetMasternodesFromEpochSwitchHeader_def
        del: ExtractAddressToBytes.simps)
qed

section \<open>Hashes\<close>

lemma item_Header:
  assumes "BaseFee h = None"
  shows "\<exists>xs. item_of T_Header (val_Header h) = Lst xs \<and> 9 < length xs \<and> xs ! 8 = Str (be_min (nat (Number h)))"
  using assms
  by (simp add: T_Header_def val_Header_def header_prefix_def val_header_prefix_def lastField_mandatory)

lemma isize_prefix:
  assumes "BaseFee h = None" and "Difficulty h = 1" and "0 \<le> Number h" and "Number h < 1000" and "0 \<le> Time h" and "Time h < 1000"
    and "length (Extra h) \<le> 2 ^ 43" and "length (Validators h) \<le> 100" and "Validator h = []" and "Penalties h = []"
  shows "isize (item_of T_Header (val_Header h)) < 2 ^ 64" and "wt T_Header (val_Header h)"
proof -
  have "nbytes (nat (Number h)) \<le> 2" "nbytes (nat (Time h)) \<le> 2" using assms by (auto intro!: nbytes_le)
  then show "isize (item_of T_Header (val_Header h)) < 2 ^ 64"
    using assms nbytes_u64 [of "GasLimit h"] nbytes_u64 [of "GasUsed h"] nbytes_le [of 1 1]
    by (simp add: T_Header_def val_Header_def header_prefix_def val_header_prefix_def lastField_mandatory)
  show "wt T_Header (val_Header h)"
    using assms by (simp add: T_Header_def val_Header_def header_prefix_def val_header_prefix_def)
qed

definition header_bytes :: "Header \<Rightarrow> byte list" where
  "header_bytes h = (case EncodeToBytes T_Header (val_Header h) of Inl _ \<Rightarrow> [] | Inr bs \<Rightarrow> bs)"

lemma blk_bytes:
  assumes "n \<le> 5"
  shows "EncodeToBytes T_Header (val_Header (blk n)) = Inr (header_bytes (blk n))"
    and "header_bytes (blk n) = rlp_enc (item_of T_Header (val_Header (blk n)))"
    and "length (header_bytes (blk n)) < 2 ^ 64"
proof -
  let ?i = "item_of T_Header (val_Header (blk n))"
  have e: "length (Extra (blk n)) \<le> 2 ^ 43" using extra_bytes(2) [of "n - 1" "of_nat n"] assms by (simp add: blk_def)
  have f: "BaseFee (blk n) = None" "Difficulty (blk n) = 1" "Time (blk n) = 10" "Validator (blk n) = []" "length (Validators (blk n)) \<le> 100"
    by (simp_all add: blk_def sample_block_def sample_switch_block_def sample_header_def del: ExtractAddressToBytes.simps)
  have b: "isize ?i < 2 ^ 64" "wt T_Header (val_Header (blk n))"
    using isize_prefix [of "blk n"] e f assms by (simp_all add: blk_fields)
  then have l: "length (rlp_enc ?i) < 2 ^ 64" by (intro rlp_enc_bounded)
  then have r: "EncodeToBytes T_Header (val_Header (blk n)) = Inr (rlp_enc ?i)" using EncodeToBytes_spec [OF b(2)] by blast
  show "header_bytes (blk n) = rlp_enc ?i" using r by (simp add: header_bytes_def)
  then show "EncodeToBytes T_Header (val_Header (blk n)) = Inr (header_bytes (blk n))" "length (header_bytes (blk n)) < 2 ^ 64"
    using r l by simp_all
qed

lemma blk_item:
  "\<exists>xs. item_of T_Header (val_Header (blk n)) = Lst xs \<and> 9 < length xs \<and> xs ! 8 = Str (be_min (900 + n))"
  using item_Header [of "blk n"] by (simp add: blk_fields nat_add_distrib) (simp add: blk_def sample_block_def sample_switch_block_def sample_header_def)

lemma header_bytes_inj:
  assumes "n \<le> 5" and "m \<le> 5" and "header_bytes (blk n) = header_bytes (blk m)"
  shows "n = m"
proof -
  have "item_of T_Header (val_Header (blk n)) = item_of T_Header (val_Header (blk m))"
    using rlp_enc_inj blk_bytes(2,3) [OF assms(1)] blk_bytes(2) [OF assms(2)] assms(3) by metis
  then show ?thesis using blk_item [of n] blk_item [of m] be_min_inj by fastforce
qed

lemma header_bytes_long: "n \<le> 5 \<Longrightarrow> header_bytes (blk n) \<noteq> [a]"
proof
  assume n: "n \<le> 5" and e: "header_bytes (blk n) = [a]"
  obtain ys where ys: "item_of T_Header (val_Header (blk n)) = Lst ys" "9 < length ys" using blk_item by blast
  obtain x y xs where "ys = x # y # xs" using ys(2) by (cases ys; cases "tl ys") auto
  with ys(1) obtain k where "length (header_bytes (blk n)) = k + length (rlp_enc x) + length (rlp_enc y)"
    using blk_bytes(2) [OF n] by (simp add: Let_def)
  moreover have "0 < length (rlp_enc x)" "0 < length (rlp_enc y)" using rlp_enc_nonempty by auto
  ultimately have "2 \<le> length (header_bytes (blk n))" by linarith
  then show False using e by simp
qed

definition net_keccak :: "byte list \<Rightarrow> hash" where
  "net_keccak bs =
    (case find (\<lambda>n. header_bytes (blk n) = bs) [0..<6] of
       Some n \<Rightarrow> key n
     | None \<Rightarrow> (case bs of [a] \<Rightarrow> ucast a | _ \<Rightarrow> 1))"

definition net_E :: env where
  "net_E = \<lparr>keccak = net_keccak, Ecrecover = (\<lambda>h sig. Some (4 # sig)), now = 1000, dbPut = (\<lambda>_. None)\<rparr>"

lemma net_hash:
  assumes "n \<le> 5"
  shows "Header_Hash net_keccak (blk n) = key n"
proof -
  have "header_bytes (blk j) \<noteq> header_bytes (blk n)" if "j < n" for j using header_bytes_inj [of j n] assms that by auto
  then have "find (\<lambda>m. header_bytes (blk m) = header_bytes (blk n)) [0..<6] = Some n"
    using assms by (auto simp: find_Some_iff intro!: exI [of _ n])
  then show ?thesis using blk_bytes(1) [OF assms] by (simp add: Header_Hash_def rlpHash_def net_keccak_def)
qed

lemma net_byte: "net_keccak [a] = ucast a"
proof -
  have "find (\<lambda>n. header_bytes (blk n) = [a]) [0..<6] = None" using header_bytes_long by (auto simp: find_None_iff)
  then show ?thesis by (simp add: net_keccak_def)
qed

section \<open>The network\<close>

definition net_map :: blocks where
  "net_map k = map_of (map (\<lambda>n. (key n, blk n)) [0..<6]) k"

definition net_chain :: ChainReader where
  "net_chain = \<lparr>CurrentHeader = blk 5, GetHeader = (\<lambda>k n. net_map k), GetHeaderByNumber = (\<lambda>n. None),
     GetHeaderByHash = net_map, GetBlock = (\<lambda>k n. None), cc_Eip1559Block = None, common_Eip1559Block = None\<rparr>"

definition net_db :: "hash \<Rightarrow> SnapshotV2 option" where
  "net_db k = (if k = 192 then Some (newSnapshot 450 192 [5, 6, 7, 8]) else None)"

definition sign_byte :: "address \<Rightarrow> hash \<Rightarrow> error + signature" where
  "sign_byte a h = Inr [ucast a]"

definition start_node :: "address \<Rightarrow> BRDPoS_v2" where
  "start_node a =
    (case New sample_config net_db of
       Inl _ \<Rightarrow> sample_engine
     | Inr x0 \<Rightarrow> fst (thenE (Authorize a sign_byte) (initial net_E net_chain (blk 0)) x0))"

definition propose :: "nat \<Rightarrow> stimulus" where
  "propose n = (1000 + int n, net_chain, ProposedBlock (blk n))"

definition four_nodes :: network where
  "four_nodes =
    \<lparr>net_env = net_E, net_hook = None, net_bft = Bft_New, net_config = sample_config, net_blocks = net_map,
     net_nodes = [5, 6, 7, 8], net_honest = {5, 6, 7}, net_start = start_node,
     net_calls = (\<lambda>a. map propose [1..<if a = 5 then 6 else 5])\<rparr>"

lemma unat_key: "n \<le> 5 \<Longrightarrow> unat (key n) = 100 + n"
proof -
  assume n: "n \<le> 5"
  have "(105::nat) < 2 ^ 256" by simp
  then have "100 + n < 2 ^ 256" using n by linarith
  then show ?thesis by (simp add: key_def unsigned_of_nat take_bit_nat_eq_self del: of_nat_add)
qed

lemma key_inj [simp]: "n \<le> 5 \<Longrightarrow> m \<le> 5 \<Longrightarrow> key n = key m \<longleftrightarrow> n = m"
  by (metis add_left_cancel unat_key)

lemma net_map_key [simp]: "n \<le> 5 \<Longrightarrow> net_map (key n) = Some (blk n)"
proof -
  assume n: "n \<le> 5"
  have "inj_on key {0..<6}" using key_inj by (auto simp: inj_on_def)
  then have "distinct (map fst (map (\<lambda>n. (key n, blk n)) [0..<6]))" by (simp add: distinct_map o_def)
  moreover have "(key n, blk n) \<in> set (map (\<lambda>n. (key n, blk n)) [0..<6])" using n by auto
  ultimately show ?thesis unfolding net_map_def by (rule map_of_is_SomeI)
qed

lemma net_map_Some: "net_map k = Some h \<Longrightarrow> \<exists>n\<le>5. k = key n \<and> h = blk n"
proof -
  assume "net_map k = Some h"
  then have "(k, h) \<in> set (map (\<lambda>n. (key n, blk n)) [0..<6])" unfolding net_map_def by (rule map_of_SomeD)
  then obtain n where "n < 6" "k = key n" "h = blk n" by auto
  then show ?thesis by (intro exI [of _ n]) simp
qed

abbreviation net_at :: "int \<Rightarrow> env" where
  "net_at t \<equiv> net_E\<lparr>now := t\<rparr>"

lemma net_E_fields [simp]: "keccak net_E = net_keccak" "Ecrecover net_E h sig = Some (4 # sig)"
  by (simp_all add: net_E_def)

lemma net_chain_fields [simp]: "GetHeaderByHash net_chain = net_map" "GetHeaderByNumber net_chain n = None"
  by (simp_all add: net_chain_def)

definition net_info :: EpochSwitchInfo where
  "net_info = \<lparr>es_Penalties = [], es_Standbynodes = [], es_Masternodes = [5, 6, 7, 8], es_MasternodesLen = 4,
     es_EpochSwitchBlockInfo = \<lparr>bi_Hash = key 1, bi_Round = 1, bi_Number = 901\<rparr>,
     es_EpochSwitchParentBlockInfo = Some \<lparr>bi_Hash = key 0, bi_Round = 0, bi_Number = 900\<rparr>\<rparr>"

definition net_snap :: SnapshotV2 where
  "net_snap = newSnapshot 450 192 [5, 6, 7, 8]"

text \<open>The caches of a node that has looked up the epochs of the blocks up to \<open>n\<close>.\<close>

definition net_caches :: "nat \<Rightarrow> BRDPoS_v2 \<Rightarrow> bool" where
  "net_caches n x \<longleftrightarrow> config x = sample_config \<and> db x = net_db
     \<and> (\<forall>s. lru_Peek (snapshots x) 192 = Some s \<longrightarrow> s = net_snap)
     \<and> (\<forall>k. lru_Peek (epochSwitches x) k \<noteq> None \<longrightarrow> (\<exists>m\<le>n. k = key m))
     \<and> (0 < n \<longrightarrow> lru_Peek (epochSwitches x) (key n) = Some net_info)"

lemma net_snapshot:
  assumes "net_caches n x"
  shows "\<exists>y. getSnapshot (net_at t) net_chain 901 False x = (y, Inr net_snap) \<and> net_caches n y \<and> epochSwitches y = epochSwitches x"
proof -
  have h: "Header_ptr_Hash (net_at t) None = 192" using net_byte [of 192] by (simp add: Header_ptr_Hash_def)
  let ?z = "x\<lparr>snapshots := fst (lru_Get 192 (snapshots x))\<rparr>"
  have z: "net_caches n ?z" using assms lruc.get_content [of 192 "snapshots x"] by (simp add: net_caches_def)
  have s: "snapshots_Get 192 x = (?z, Inr (lru_Peek (snapshots x) 192))"
    using lruc.get_value [of 192 "snapshots x"] by (simp add: snapshots_Get_def case_prod_beta)
  have d: "db x 192 = Some net_snap" "snap_Hash net_snap = 192"
    using assms by (simp_all add: net_caches_def net_db_def net_snap_def newSnapshot_def)
  show ?thesis
  proof (cases "lru_Peek (snapshots x) 192")
    case None
    let ?y = "?z\<lparr>snapshots := fst (lru_Add 192 net_snap (snapshots ?z))\<rparr>"
    have "net_caches n ?y" using z lruc.add_self [of 192 net_snap "snapshots ?z"] by (auto simp: net_caches_def)
    moreover have "getSnapshot (net_at t) net_chain 901 False x = (?y, Inr net_snap)"
      using None s d h by (simp add: getSnapshot_def comp_simps loadSnapshot_def snapshots_Add_def Let_def)
    ultimately show ?thesis by auto
  next
    case (Some v)
    then have "v = net_snap" using assms by (simp add: net_caches_def)
    then have "getSnapshot (net_at t) net_chain 901 False x = (?z, Inr net_snap)"
      using Some s h by (simp add: getSnapshot_def comp_simps Let_def)
    then show ?thesis using z by auto
  qed
qed

lemma net_Get:
  assumes "net_caches n x"
  obtains z where "epochSwitches_Get k x = (z, Inr (lru_Peek (epochSwitches x) k))" and "net_caches n z"
proof
  let ?z = "x\<lparr>epochSwitches := fst (lru_Get k (epochSwitches x))\<rparr>"
  show "epochSwitches_Get k x = (?z, Inr (lru_Peek (epochSwitches x) k))"
    using lruc.get_value [of k "epochSwitches x"] by (simp add: epochSwitches_Get_def case_prod_beta)
  show "net_caches n ?z" using assms lruc.get_content [of k "epochSwitches x"] by (simp add: net_caches_def)
qed

lemma net_Add:
  assumes "net_caches n x"
  shows "epochSwitches_Add (key (Suc n)) net_info x
      = (x\<lparr>epochSwitches := fst (lru_Add (key (Suc n)) net_info (epochSwitches x))\<rparr>, Inr ())"
    and "net_caches (Suc n) (x\<lparr>epochSwitches := fst (lru_Add (key (Suc n)) net_info (epochSwitches x))\<rparr>)"
proof -
  show "epochSwitches_Add (key (Suc n)) net_info x
      = (x\<lparr>epochSwitches := fst (lru_Add (key (Suc n)) net_info (epochSwitches x))\<rparr>, Inr ())"
    by (simp add: epochSwitches_Add_def comp_simps)
  have "\<exists>m\<le>Suc n. k = key m"
    if "lru_Peek (fst (lru_Add (key (Suc n)) net_info (epochSwitches x))) k \<noteq> None" for k
  proof (cases "k = key (Suc n)")
    case False
    then have "lru_Peek (epochSwitches x) k \<noteq> None"
      using that lruc.add_other [where k' = k and k = "key (Suc n)" and v = net_info and c = "epochSwitches x"] by auto
    then show ?thesis using assms unfolding net_caches_def by (meson le_SucI)
  qed auto
  then show "net_caches (Suc n) (x\<lparr>epochSwitches := fst (lru_Add (key (Suc n)) net_info (epochSwitches x))\<rparr>)"
    using assms lruc.add_self [of "key (Suc n)" net_info "epochSwitches x"] by (auto simp: net_caches_def)
qed

lemma net_hit:
  assumes "net_caches n x" and "0 < n"
  shows "\<exists>y. getEpochSwitchInfo_n (Suc m) (net_at t) net_chain header (key n) x = (y, Inr net_info) \<and> net_caches n y"
proof -
  obtain z where "epochSwitches_Get (key n) x = (z, Inr (lru_Peek (epochSwitches x) (key n)))" "net_caches n z"
    by (rule net_Get [OF assms(1)])
  moreover have "lru_Peek (epochSwitches x) (key n) = Some net_info" using assms by (simp add: net_caches_def)
  ultimately show ?thesis by (simp add: comp_simps)
qed

lemma net_miss:
  assumes "net_caches n x" and "Suc n \<le> 5"
  obtains z where "epochSwitches_Get (key (Suc n)) x = (z, Inr None)" and "net_caches n z"
proof -
  have "lru_Peek (epochSwitches x) (key (Suc n)) = None"
  proof (rule ccontr)
    assume "lru_Peek (epochSwitches x) (key (Suc n)) \<noteq> None"
    then obtain m where "m \<le> n" "key (Suc n) = key m" using assms(1) by (auto simp: net_caches_def)
    then show False using assms(2) by simp
  qed
  then show ?thesis using net_Get [OF assms(1), of "key (Suc n)"] that by metis
qed

lemma few: "Suc n \<le> 5 \<Longrightarrow> n = 0 \<or> n = 1 \<or> n = 2 \<or> n = 3 \<or> n = 4"
  by linarith

lemma net_IsEpochSwitch:
  assumes "config x = sample_config" and "Suc n \<le> 5"
  shows "IsEpochSwitch (net_at t) (blk (Suc n)) x = (x, Inr (n = 0, 1))"
proof -
  have c: "Epoch sample_config = 900" "SwitchEpoch (cfg_V2 sample_config) = 1" by (simp_all add: sample_config_def)
  have one: "(of_nat (Suc 0) :: u64) = 1" by simp
  have "(of_nat (Suc n) :: u64) mod 900 = of_nat (Suc n)" "(of_nat (Suc n) :: u64) div 900 = 0"
    using few [OF assms(2)] by (elim disjE; simp)+
  then show ?thesis
    using assms blk_extra [of "Suc n"] by (cases "n = 0")
      (simp_all add: IsEpochSwitch_def comp_simps Let_def sample_switch c blk_fields net_qc_def one del: of_nat_Suc)
qed

lemma net_at_switch:
  assumes "net_caches 0 x"
  shows "\<exists>y. epochSwitchInfo_at (net_at t) net_chain (blk 1) (key 1) x = (y, Inr net_info) \<and> net_caches 1 y"
proof -
  obtain y where y: "getSnapshot (net_at t) net_chain 901 False x = (y, Inr net_snap)" "net_caches 0 y"
    using net_snapshot [OF assms] by blast
  have four: "Suc (Suc (Suc (Suc 0))) = 4" by simp
  have "epochSwitchInfo_at (net_at t) net_chain (blk 1) (key 1) x =
      (y\<lparr>epochSwitches := fst (lru_Add (key 1) net_info (epochSwitches y))\<rparr>, Inr net_info)"
    using y(1) assms by (simp add: comp_simps epochSwitchInfo_at_def epochSwitches_Add_def four blk_extra blk_fields big_Uint64_def Let_def net_caches_def
        net_info_def net_snap_def newSnapshot_def ExtractAddressFromBytes_def net_qc_def)
  then show ?thesis using net_Add [OF y(2)] by (simp add: comp_simps)
qed

text \<open>The epoch of the next block is found, and then kept.\<close>

lemma net_epoch:
  assumes "net_caches n x" and "Suc n \<le> 5" and "header = None \<or> header = Some (blk (Suc n))"
  shows "\<exists>y. getEpochSwitchInfo (net_at t) net_chain header (key (Suc n)) x = (y, Inr net_info) \<and> net_caches (Suc n) y"
proof -
  obtain z where g: "epochSwitches_Get (key (Suc n)) x = (z, Inr None)" and z: "net_caches n z"
    using net_miss [OF assms(1,2)] .
  have h: "(case header of None \<Rightarrow> GetHeaderByHash net_chain (key (Suc n)) | Some h \<Rightarrow> Some h) = Some (blk (Suc n))"
    using assms(2,3) by auto
  have "nat (900 + int (Suc n)) = 901 + n" by linarith
  then have f: "epoch_fuel net_chain header (key (Suc n)) = Suc (Suc (901 + n))" by (simp add: epoch_fuel_def h blk_fields)
  have i: "IsEpochSwitch (net_at t) (blk (Suc n)) z = (z, Inr (n = 0, 1))"
    using net_IsEpochSwitch z assms(2) by (simp add: net_caches_def)
  show ?thesis
  proof (cases "n = 0")
    case True
    then show ?thesis
      using g i h z net_at_switch [of z t] unfolding getEpochSwitchInfo_def f getEpochSwitchInfo_n.simps(2) [of "Suc _"]
      by (simp add: comp_simps)
  next
    case False
    then obtain y where y: "getEpochSwitchInfo_n (Suc (901 + n)) (net_at t) net_chain None (key n) z = (y, Inr net_info)" "net_caches n y"
      using net_hit [OF z] by blast
    then show ?thesis
      using g i h False net_Add [OF y(2)] unfolding getEpochSwitchInfo_def f getEpochSwitchInfo_n.simps(2) [of "Suc _"]
      by (simp add: comp_simps blk_fields del: getEpochSwitchInfo_n.simps)
  qed
qed

section \<open>The state of a node after a block\<close>

definition at_block :: "address \<Rightarrow> nat \<Rightarrow> BRDPoS_v2 \<Rightarrow> bool" where
  "at_block a n x \<longleftrightarrow> net_caches n x \<and> isInitilised x \<and> signer x = a \<and> signFn x = sign_byte
     \<and> currentRound x = (if n = 0 then 1 else of_nat n) \<and> highestVotedRound x = of_nat n
     \<and> lockQuorumCert x = (if n < 2 then None else Some (net_qc (n - 2)))
     \<and> highestCommitBlock x = (if n < 4 then None else Some (qc_ProposedBlockInfo (net_qc (n - 3))))
     \<and> snd ` set (forensicsJobs x) \<subseteq> net_qc ` {1..4}
     \<and> (\<forall>v. map_of (votePool x) (Vote_PoolKey v) \<noteq> None \<longrightarrow> bi_Round (vote_ProposedBlockInfo v) \<le> of_nat n)"

text \<open>After the certificate of the next block: everything but the vote.\<close>

definition before_vote :: "address \<Rightarrow> nat \<Rightarrow> BRDPoS_v2 \<Rightarrow> bool" where
  "before_vote a n x \<longleftrightarrow> isInitilised x \<and> signer x = a \<and> signFn x = sign_byte
     \<and> currentRound x = of_nat (Suc n) \<and> highestVotedRound x = of_nat n
     \<and> lockQuorumCert x = (if n < 1 then None else Some (net_qc (n - 1)))
     \<and> highestCommitBlock x = (if n < 3 then None else Some (qc_ProposedBlockInfo (net_qc (n - 2))))
     \<and> snd ` set (forensicsJobs x) \<subseteq> net_qc ` {1..4}
     \<and> (\<forall>v. map_of (votePool x) (Vote_PoolKey v) \<noteq> None \<longrightarrow> bi_Round (vote_ProposedBlockInfo v) \<le> of_nat n)"

lemma net_commit_none:
  assumes "config x = sample_config" and "n < 3"
  shows "commitBlocks (net_at t) net_chain (blk n) r qc x = (x, Inr False)"
  using assms by (simp add: commitBlocks_def comp_simps sample_switch blk_fields)

lemma net_commit:
  assumes "config x = sample_config" and "n \<le> 2" and "\<not> not_newer (highestCommitBlock x) (of_nat n + 1) (901 + int n)"
  shows "commitBlocks (net_at t) net_chain (blk (Suc (Suc (Suc n)))) (of_nat n + 3) qc x =
    (x\<lparr>highestCommitBlock := Some (qc_ProposedBlockInfo (net_qc (Suc n))),
       forensicsJobs := forensicsJobs x @ [([blk (Suc (Suc n)), blk (Suc (Suc (Suc n)))], qc)]\<rparr>, Inr True)"
proof -
  have e1: "getExtraFields sample_config (blk (Suc (Suc n))) = Inr (Some (net_qc (Suc n)), of_nat n + 2, [])"
    using blk_extra [of "Suc (Suc n)"] assms(2) by simp
  obtain ms where e2: "getExtraFields sample_config (blk (Suc n)) = Inr (Some (net_qc n), of_nat n + 1, ms)"
    using blk_extra [of "Suc n"] assms(2) by (simp add: add.commute)
  have k: "Header_Hash net_keccak (blk (Suc n)) = key (Suc n)" using assms(2) by (intro net_hash) simp
  have m: "Suc n \<le> 5" "Suc (Suc n) \<le> 5" using assms(2) by simp_all
  have q: "qc_ProposedBlockInfo (net_qc (Suc n)) = \<lparr>bi_Hash = key (Suc n), bi_Round = of_nat n + 1, bi_Number = 901 + int n\<rparr>"
    by (simp add: net_qc_def)
  show ?thesis using assms(1,3) m by (simp add: commitBlocks_def comp_simps sample_switch blk_fields e1 e2 k q)
qed

lemma two_one [simp]: "\<not> (2 :: u64) \<le> 1"
  by code_simp

lemma net_lock:
  assumes "lockQuorumCert x = (if Suc n < 2 then None else Some (net_qc (Suc n - 2)))" and "Suc n \<le> 5"
  shows "update_lockQC (Some (net_qc n)) x = (x\<lparr>lockQuorumCert := Some (net_qc n)\<rparr>, Inr ())"
  using few [OF assms(2)] assms(1) by (elim disjE) (simp_all add: update_lockQC_def comp_simps net_qc_def)

lemma net_new_round:
  assumes "before_vote a n (x\<lparr>currentRound := of_nat (Suc n)\<rparr>)" and "net_caches n x" and "currentRound x = (if n = 0 then 1 else of_nat n)" and "Suc n \<le> 5"
  shows "net_caches n (if currentRound x \<le> of_nat n then setNewRound (of_nat n + 1) x else x)"
    and "before_vote a n (if currentRound x \<le> of_nat n then setNewRound (of_nat n + 1) x else x)"
  using assms by (auto simp: setNewRound_def before_vote_def net_caches_def add.commute)

lemma net_certified:
  assumes "at_block a n x" and "Suc n \<le> 5"
  shows "\<exists>z. (if 0 < n then bindE (liftE (getExtraFields sample_config (blk n))) (\<lambda>(proposedBlockQuorumCert, rnd, _).
                   thenE (update_lockQC proposedBlockQuorumCert)
                   (bindE (commitBlocks (net_at t) net_chain (blk n) rnd (net_qc n)) (\<lambda>_. ok ())))
            else ok ()) x = (z, Inr ())
      \<and> before_vote a n (z\<lparr>currentRound := of_nat (Suc n)\<rparr>) \<and> net_caches n z \<and> currentRound z = (if n = 0 then 1 else of_nat n)"
proof -
  consider "n = 0" | m where "n = Suc m" "m < 2" | m where "n = Suc (Suc (Suc m))" "m < 2"
    using few [OF assms(2)] that(1) that(2) [of "n - 1"] that(3) [of "n - 3"] by (elim disjE) simp_all
  then show ?thesis
  proof cases
    case 1
    then show ?thesis using assms(1) by (auto simp: at_block_def before_vote_def comp_simps)
  next
    case (2 m)
    let ?z = "x\<lparr>lockQuorumCert := Some (net_qc m)\<rparr>"
    have l: "update_lockQC (Some (net_qc m)) x = (?z, Inr ())" using assms 2 by (intro net_lock) (simp_all add: at_block_def)
    have "config ?z = sample_config" using assms(1) by (simp add: at_block_def net_caches_def)
    then have "commitBlocks (net_at t) net_chain (blk n) (of_nat n) (net_qc n) ?z = (?z, Inr False)" using 2 by (intro net_commit_none) simp_all
    then show ?thesis using l blk_extra [of n] assms 2
      by (intro exI [of _ ?z]) (auto simp: comp_simps at_block_def before_vote_def net_caches_def)
  next
    case (3 m)
    let ?z = "x\<lparr>lockQuorumCert := Some (net_qc (Suc (Suc m)))\<rparr>"
    let ?y = "?z\<lparr>highestCommitBlock := Some (qc_ProposedBlockInfo (net_qc (Suc m))),
       forensicsJobs := forensicsJobs ?z @ [([blk (Suc (Suc m)), blk n], net_qc n)]\<rparr>"
    have l: "update_lockQC (Some (net_qc (Suc (Suc m)))) x = (?z, Inr ())" using assms 3 by (intro net_lock) (simp_all add: at_block_def)
    have "config ?z = sample_config" using assms(1) by (simp add: at_block_def net_caches_def)
    moreover have "\<not> not_newer (highestCommitBlock ?z) (of_nat m + 1) (901 + int m)"
      using assms(1) 3 by (auto simp: at_block_def not_newer_def net_qc_def less_2_cases_iff)
    ultimately have "commitBlocks (net_at t) net_chain (blk n) (of_nat m + 3) (net_qc n) ?z = (?y, Inr True)"
      unfolding 3(1) using 3(2) by (intro net_commit) simp_all
    moreover have "getExtraFields sample_config (blk n) = Inr (Some (net_qc (Suc (Suc m))), of_nat m + 3, [])"
      using blk_extra [of n] assms(2) 3 by simp
    ultimately show ?thesis using l assms 3
      by (intro exI [of _ ?y]) (auto simp: comp_simps at_block_def before_vote_def net_caches_def)
  qed
qed

lemma net_processQC:
  assumes "at_block a n x" and "Suc n \<le> 5"
  shows "\<exists>y. processQC (net_at t) net_chain (net_qc n) x = (y, Inr ()) \<and> net_caches n y \<and> before_vote a n y"
proof -
  let ?x = "update_highestQC (net_qc n) x"
  obtain q where x: "?x = x\<lparr>highestQuorumCert := q\<rparr>"
    by (cases "bi_Round (qc_ProposedBlockInfo (highestQuorumCert x)) < bi_Round (qc_ProposedBlockInfo (net_qc n))")
      (auto simp: update_highestQC_def intro: that [of "highestQuorumCert x"])
  have b: "at_block a n ?x" using assms(1) by (simp add: x at_block_def net_caches_def)
  have c: "config ?x = sample_config" using b by (simp add: at_block_def net_caches_def)
  note qh = net_qc_info
  obtain z where z: "(if 0 < n then bindE (liftE (getExtraFields sample_config (blk n))) (\<lambda>(proposedBlockQuorumCert, rnd, _).
                   thenE (update_lockQC proposedBlockQuorumCert)
                   (bindE (commitBlocks (net_at t) net_chain (blk n) rnd (net_qc n)) (\<lambda>_. ok ())))
            else ok ()) ?x = (z, Inr ())" 
       "before_vote a n (z\<lparr>currentRound := of_nat (Suc n)\<rparr>)" "net_caches n z" "currentRound z = (if n = 0 then 1 else of_nat n)"
    using net_certified [OF b assms(2)] by blast
  have "processQC (net_at t) net_chain (net_qc n) x = (if currentRound z \<le> of_nat n then setNewRound (of_nat n + 1) z else z, Inr ())"
    using z(1) assms(2) c by (cases "n = 0") (simp_all add: processQC_def comp_simps qh sample_switch blk_fields cong: if_cong)
  then show ?thesis using net_new_round [OF z(2-4) assms(2)] by blast
qed

lemma before_vote_co: "cache_only x y \<Longrightarrow> before_vote a n x \<Longrightarrow> before_vote a n y"
  by (simp add: before_vote_def cache_only_fields)

lemma net_allowed:
  assumes "net_caches n x" and "before_vote a n x" and "Suc n \<le> 5" and "a \<in> {5, 6, 7}"
  shows "\<exists>y. allowedToSend (net_at t) net_chain (blk (Suc n)) x = (y, Inr True) \<and> net_caches (Suc n) y \<and> before_vote a n y"
proof -
  obtain y where y: "getEpochSwitchInfo (net_at t) net_chain (Some (blk (Suc n))) (key (Suc n)) x = (y, Inr net_info)" "net_caches (Suc n) y"
    using net_epoch [OF assms(1,3)] by blast
  have b: "before_vote a n y" using before_vote_co [OF keepsE [OF getEpochSwitchInfo_co y(1)] assms(2)] .
  then have "signer y \<in> set (es_Masternodes net_info)" using assms(4) by (auto simp: before_vote_def net_info_def)
  then show ?thesis using y b net_hash [OF assms(3)]
    by (simp add: allowedToSend_def GetMasternodes_def epoch_list_def comp_simps)
qed

lemma net_rule:
  assumes "before_vote a n x" and "Suc n \<le> 5"
  shows "verifyVotingRule net_chain (qc_ProposedBlockInfo (net_qc (Suc n))) (Some (net_qc n)) x = (x, Inr True)"
  using few [OF assms(2)] assms(1) by (elim disjE) (simp_all add: verifyVotingRule_def before_vote_def net_qc_def)

lemma one_of_four: "below_threshold 1 4 (CertThreshold sample_V2Config)"
proof (rule ccontr)
  assume "\<not> ?thesis"
  then have "(2::nat) * 4 < 3 * 1"
    using cert_0667_bounds by (intro quorum_two_thirds) (auto simp: sample_V2Config_def v2config_def)
  then show False by simp
qed

lemma net_pool:
  assumes "before_vote a n x" and "vote_ProposedBlockInfo v = qc_ProposedBlockInfo (net_qc (Suc n))" and "Suc n \<le> 5"
  shows "pool_Add Vote_PoolKey (Vote_Hash K) v (votePool x) =
      (AList.update (Vote_PoolKey v) [(Vote_Hash K v, v)] (votePool x), 1, [(Vote_Hash K v, v)])"
    and "map_of (AList.update (Vote_PoolKey v) [(Vote_Hash K v, v)] (votePool x)) (Vote_PoolKey w) \<noteq> None \<Longrightarrow>
      bi_Round (vote_ProposedBlockInfo w) \<le> of_nat (Suc n)"
proof -
  have lt: "\<not> (of_nat (Suc n) :: u64) \<le> of_nat n" "(of_nat n :: u64) \<le> of_nat (Suc n)"
    using few [OF assms(3)] by (elim disjE; simp)+
  have "map_of (votePool x) (Vote_PoolKey v) = None" 
    using assms(1,2) lt(1) net_qc_info(2) [of "Suc n"] unfolding before_vote_def by metis
  then show "pool_Add Vote_PoolKey (Vote_Hash K) v (votePool x) =
      (AList.update (Vote_PoolKey v) [(Vote_Hash K v, v)] (votePool x), 1, [(Vote_Hash K v, v)])"
    by (simp add: pool_Add_def Let_def)
  assume w: "map_of (AList.update (Vote_PoolKey v) [(Vote_Hash K v, v)] (votePool x)) (Vote_PoolKey w) \<noteq> None"
  show "bi_Round (vote_ProposedBlockInfo w) \<le> of_nat (Suc n)"
  proof (cases "Vote_PoolKey w = Vote_PoolKey v")
    case True
    then show ?thesis using Vote_PoolKey_inj [OF True] assms(2) by (simp add: net_qc_info del: of_nat_Suc)
  next
    case False
    then have "map_of (votePool x) (Vote_PoolKey w) \<noteq> None" using w by (simp add: update_conv')
    then have "bi_Round (vote_ProposedBlockInfo w) \<le> of_nat n" using assms(1) by (simp add: before_vote_def)
    then show ?thesis using lt(2) by (rule order_trans)
  qed
qed

lemma net_voteHandler:
  assumes "net_caches (Suc n) x" and "before_vote a n x" and "Suc n \<le> 5"
    and "vote_ProposedBlockInfo v = qc_ProposedBlockInfo (net_qc (Suc n))"
  shows "\<exists>y. voteHandler (net_at t) net_chain v (x\<lparr>highestVotedRound := currentRound x\<rparr>) = (y, Inr ()) \<and> at_block a (Suc n) y"
proof -
  let ?p = "AList.update (Vote_PoolKey v) [(Vote_Hash net_keccak v, v)] (votePool x)"
  note pool = net_pool [OF assms(2,4,3), of net_keccak]
  define z where "z = (if votePoolCollectionTime x = None
    then x\<lparr>highestVotedRound := currentRound x, votePoolCollectionTime := Some t, votePool := ?p\<rparr>
    else x\<lparr>highestVotedRound := currentRound x, votePool := ?p\<rparr>)"
  have z: "net_caches (Suc n) z" using assms(1) by (simp add: z_def net_caches_def)
  obtain f where f: "epoch_fuel net_chain None (key (Suc n)) = Suc f" using assms(3) by (simp add: epoch_fuel_def)
  obtain y where y: "getEpochSwitchInfo (net_at t) net_chain None (key (Suc n)) z = (y, Inr net_info)" "net_caches (Suc n) y"
    using net_hit [OF z] unfolding getEpochSwitchInfo_def f by blast
  have "at_block a (Suc n) z"
    using z assms(2) pool(2) unfolding at_block_def before_vote_def by (auto simp: z_def simp del: of_nat_Suc)
  then have "at_block a (Suc n) y"
    using y(2) cache_only_fields [OF keepsE [OF getEpochSwitchInfo_co y(1)]] by (simp add: at_block_def)
  moreover have "config y = sample_config" using y(2) by (simp add: net_caches_def)
  moreover have "es_MasternodesLen net_info = 4" by (simp add: net_info_def)
  moreover have "currentRound x = of_nat (Suc n)" using assms(2) by (simp add: before_vote_def)
  ultimately have "voteHandler (net_at t) net_chain v (x\<lparr>highestVotedRound := currentRound x\<rparr>) = (y, Inr ())"
    using y(1) [unfolded z_def] pool(1) one_of_four sample_V2_Config [of "of_nat (Suc n)"]
    by (cases "votePoolCollectionTime x")
      (simp_all add: voteHandler_def comp_simps Let_def votePool_Add_def assms(4) net_qc_info del: of_nat_Suc)
  then show ?thesis using \<open>at_block a (Suc n) y\<close> by blast
qed

lemma net_sendVote:
  assumes "net_caches (Suc n) x" and "before_vote a n x" and "Suc n \<le> 5"
  shows "\<exists>y. sendVote (net_at t) net_chain (qc_ProposedBlockInfo (net_qc (Suc n))) x = (y, Inr ()) \<and> at_block a (Suc n) y"
proof -
  obtain f where f: "epoch_fuel net_chain None (key (Suc n)) = Suc f" using assms(3) by (simp add: epoch_fuel_def)
  obtain z where z: "getEpochSwitchInfo (net_at t) net_chain None (key (Suc n)) x = (z, Inr net_info)" "net_caches (Suc n) z"
    using net_hit [OF assms(1)] unfolding getEpochSwitchInfo_def f by blast
  have b: "before_vote a n z" using before_vote_co [OF keepsE [OF getEpochSwitchInfo_co z(1)] assms(2)] .
  have s: "signFn z = sign_byte" using b by (simp add: before_vote_def)
  define v where "v = \<lparr>vote_signer = 0, vote_ProposedBlockInfo = qc_ProposedBlockInfo (net_qc (Suc n)),
     vote_Signature = [ucast (signer z)], vote_GapNumber = gap_number (config z) (big_Uint64 (bi_Number (es_EpochSwitchBlockInfo net_info)))\<rparr>"
  obtain y where y: "voteHandler (net_at t) net_chain v (z\<lparr>highestVotedRound := currentRound z\<rparr>) = (y, Inr ())" "at_block a (Suc n) y"
    using net_voteHandler [OF z(2) b assms(3), of v t] by (auto simp: v_def)
  have "at_block a (Suc n) (y\<lparr>broadcasts := broadcasts y @ [MVote v]\<rparr>)" using y(2) by (simp add: at_block_def net_caches_def)
  then show ?thesis
    using z(1) s y(1) by (simp add: sendVote_def comp_simps Let_def signSignature_def sign_byte_def broadcastToBftChannel_def net_qc_info v_def)
qed

lemma net_step:
  assumes "at_block a n x" and "Suc n \<le> 5" and "a \<in> {5, 6, 7}"
  shows "at_block a (Suc n) (step net_E hook b x (propose (Suc n)))"
proof -
  let ?E = "net_at (1001 + int n)"
  obtain y z w where "processQC ?E net_chain (net_qc n) x = (y, Inr ())"
    and "allowedToSend ?E net_chain (blk (Suc n)) y = (z, Inr True)" and z: "before_vote a n z"
    and "sendVote ?E net_chain (qc_ProposedBlockInfo (net_qc (Suc n))) z = (w, Inr ())" and w: "at_block a (Suc n) w"
    using net_processQC [OF assms(1,2)] net_allowed [OF _ _ assms(2,3)] net_sendVote [OF _ _ assms(2)] by metis
  moreover have "qc_ProposedBlockInfo (net_qc (Suc n)) =
      \<lparr>bi_Hash = Header_Hash net_keccak (blk (Suc n)), bi_Round = of_nat (Suc n), bi_Number = Number (blk (Suc n))\<rparr>"
    using net_hash [OF assms(2)] by (simp add: net_qc_def blk_fields)
  moreover have "config x = sample_config" using assms(1) by (simp add: at_block_def net_caches_def)
  ultimately have "ProposedBlockHandler ?E net_chain (blk (Suc n)) x = (w, Inr ())"
    using net_rule [OF z assms(2)] blk_extra [of "Suc n"] assms(2)
    by (simp add: ProposedBlockHandler_def comp_simps Let_def del: of_nat_Suc)
  then show ?thesis using w by (simp add: step_def propose_def)
qed

section \<open>The runs\<close>

lemma net_new:
  obtains x0 where "New sample_config net_db = Inr x0" and "config x0 = sample_config" "db x0 = net_db"
    "snapshots x0 = NewBasicLRU 128" "epochSwitches x0 = NewBasicLRU 4500" "bi_Hash (qc_ProposedBlockInfo (highestQuorumCert x0)) = 0"
    "highestVotedRound x0 = 0" "lockQuorumCert x0 = None" "highestCommitBlock x0 = None" "forensicsJobs x0 = []" "votePool x0 = []"
proof -
  have c: "sample_config\<lparr>cfg_V2 := BuildConfigIndex (cfg_V2 sample_config)\<rparr> = sample_config"
    by (simp add: sample_config_def BuildConfigIndex_def sort_descending_def)
  have "\<exists>tm. NewExpCountDown (int64_wrap (TimeoutPeriod sample_V2Config * 1000000000)) (ExpBase sample_V2Config) (ExpMaxExponent sample_V2Config) = Inr tm"
    by (simp add: NewExpCountDown_def NewExpTimeoutDuration_def sanityCheck_def sample_V2Config_def v2config_def maxExponentUpperbound_def)
  then obtain tm where "NewExpCountDown (int64_wrap (TimeoutPeriod (CurrentConfig (cfg_V2 sample_config)) * 1000000000))
      (ExpBase (CurrentConfig (cfg_V2 sample_config))) (ExpMaxExponent (CurrentConfig (cfg_V2 sample_config))) = Inr tm"
    by (auto simp: sample_config_def)
  then have "\<exists>x0. New sample_config net_db = Inr x0 \<and> config x0 = sample_config \<and> db x0 = net_db
    \<and> snapshots x0 = NewBasicLRU 128 \<and> epochSwitches x0 = NewBasicLRU 4500 \<and> bi_Hash (qc_ProposedBlockInfo (highestQuorumCert x0)) = 0
    \<and> highestVotedRound x0 = 0 \<and> lockQuorumCert x0 = None \<and> highestCommitBlock x0 = None \<and> forensicsJobs x0 = [] \<and> votePool x0 = []"
    using c by (simp add: New_def NewPool_def)
  then show ?thesis using that by blast
qed

lemma net_start_node:
  shows "\<exists>x0. New sample_config net_db = Inr x0
      \<and> thenE (Authorize a sign_byte) (initial net_E net_chain (blk 0)) x0 = (start_node a, Inr ())"
    and "at_block a 0 (start_node a)"
proof -
  obtain x0 where n: "New sample_config net_db = Inr x0" and x: "config x0 = sample_config" "db x0 = net_db"
    "snapshots x0 = NewBasicLRU 128" "epochSwitches x0 = NewBasicLRU 4500" "bi_Hash (qc_ProposedBlockInfo (highestQuorumCert x0)) = 0"
    "highestVotedRound x0 = 0" "lockQuorumCert x0 = None" "highestCommitBlock x0 = None" "forensicsJobs x0 = []" "votePool x0 = []"
    by (rule net_new)
  have h: "Header_ptr_Hash net_E None = 192" using net_byte [of 192] by (simp add: Header_ptr_Hash_def)
  have s: "loadSnapshot net_db 192 = Inr net_snap" by (simp add: loadSnapshot_def net_db_def net_snap_def newSnapshot_def)
  let ?x1 = "x0\<lparr>signer := a, signFn := sign_byte, currentRound := 1, highestQuorumCert := first_cert net_E sample_config (blk 0)\<rparr>"
  let ?y = "?x1\<lparr>minePeriods := minePeriods ?x1 @ [MinePeriod (CurrentConfig (cfg_V2 (config ?x1)))],
      timeoutWorker := timer_Reset 0 0 (timeoutWorker ?x1), isInitilised := True\<rparr>"
  have "first_snapshot net_E net_chain ?x1 = (?x1, Inr ())" using x h s by (simp add: first_snapshot_def comp_simps Let_def)
  then have i: "thenE (Authorize a sign_byte) (initial net_E net_chain (blk 0)) x0 = (?y, Inr ())"
    using x by (simp add: Authorize_def initial_def comp_simps blk_fields sample_switch)
  then have y: "start_node a = ?y" using n by (simp add: start_node_def)
  then show "\<exists>x0. New sample_config net_db = Inr x0
      \<and> thenE (Authorize a sign_byte) (initial net_E net_chain (blk 0)) x0 = (start_node a, Inr ())" using n i by auto
  show "at_block a 0 (start_node a)" unfolding y using x by (simp add: at_block_def net_caches_def)
qed

lemma net_view: "view_of sample_config net_map net_chain"
  unfolding view_of_def
proof (intro allI impI conjI)
  fix k h assume "GetHeaderByHash net_chain k = Some h"
  then show "net_map k = Some h" by simp
  obtain n where n: "n \<le> 5" "h = blk n" using net_map_Some \<open>GetHeaderByHash net_chain k = Some h\<close> by auto
  assume "switch_number sample_config < Number h"
  then have "0 < n" using n by (simp add: sample_switch blk_fields)
  then show "GetHeaderByHash net_chain (ParentHash h) \<noteq> None" using n by (simp add: blk_fields)
qed

lemma net_cast:
  assumes "at_block a n x" and "Suc n \<le> 5" and "a \<in> {5, 6, 7}"
  shows "cast net_E hook b x (propose (Suc n)) = Some (qc_ProposedBlockInfo (net_qc (Suc n)))"
    and "sound_stimulus net_E sample_config net_map (propose (Suc n))"
    and "currentRound x \<le> currentRound (step net_E hook b x (propose (Suc n)))"
proof -
  have lt: "\<not> (of_nat (Suc n) :: u64) = of_nat n" "(of_nat n :: u64) \<le> of_nat (Suc n)"
    using few [OF assms(2)] by (elim disjE; simp)+
  note y = net_step [OF assms, of hook b]
  have "config x = sample_config" using assms(1) by (simp add: at_block_def net_caches_def)
  then have i: "block_info net_E (config x) (blk (Suc n)) = qc_ProposedBlockInfo (net_qc (Suc n))"
    using net_hash [OF assms(2)] blk_extra [of "Suc n"] assms(2) by (simp add: block_info_def net_qc_def blk_fields)
  have "highestVotedRound (step net_E hook b x (propose (Suc n))) \<noteq> highestVotedRound x"
    using y assms(1) lt(1) unfolding at_block_def by simp
  then show "cast net_E hook b x (propose (Suc n)) = Some (qc_ProposedBlockInfo (net_qc (Suc n)))"
    using i unfolding cast_def by (simp add: propose_def)
  show "sound_stimulus net_E sample_config net_map (propose (Suc n))"
    using net_view net_hash [OF assms(2)] assms(2) by (simp add: sound_stimulus_def propose_def sample_switch blk_fields)
  show "currentRound x \<le> currentRound (step net_E hook b x (propose (Suc n)))"
    using y assms(1) lt(2) by (auto simp: at_block_def)
qed

lemma net_run:
  assumes "n \<le> m" and "m \<le> 5" and "a \<in> {5, 6, 7}"
  shows "at_block a n x \<Longrightarrow> at_block a m (run net_E hook b x (map propose [Suc n..<Suc m]))
    \<and> good_run net_E hook b sample_config net_map x (map propose [Suc n..<Suc m])
    \<and> map fst (ballots net_E hook b x (map propose [Suc n..<Suc m])) = map (\<lambda>k. qc_ProposedBlockInfo (net_qc k)) [Suc n..<Suc m]"
  using assms(1)
proof (induction n arbitrary: x rule: inc_induct)
  case base
  then show ?case by (simp add: run_def)
next
  case (step k)
  have l: "[Suc k..<Suc m] = Suc k # [Suc (Suc k)..<Suc m]" using step.hyps by (simp add: upt_rec)
  have k: "Suc k \<le> 5" using step.hyps assms(2) by simp
  note y = net_step [OF step.prems k assms(3), of hook b] and c = net_cast [OF step.prems k assms(3)]
  show ?case using step.IH [OF y] c unfolding l by (simp add: run_def)
qed

section \<open>The network is legal\<close>

lemma net_rounds: "n \<le> 5 \<Longrightarrow> round_of sample_config (blk n) r \<Longrightarrow> r = of_nat n"
proof (cases "n = 0")
  case True
  assume "round_of sample_config (blk n) r"
  then show ?thesis using True by (auto simp: round_of_def getExtraFields_def blk_fields sample_switch split: sum.splits)
qed (auto simp: round_of_def blk_extra)

lemma net_linked: "well_linked net_E sample_config net_map"
  unfolding well_linked_def
proof (intro allI impI conjI)
  fix k h assume "net_map k = Some h"
  then obtain n where n: "n \<le> 5" "k = key n" "h = blk n" using net_map_Some by blast
  show "Header_Hash (keccak net_E) h = k" using n net_hash by simp
  show "r \<noteq> - 1" if "round_of sample_config h r" for r
  proof -
    have "unat r = n" using net_rounds [of n r] that n by (simp add: unsigned_of_nat take_bit_nat_eq_self)
    then show ?thesis using n by (auto simp: unsigned_minus_1_eq_mask mask_eq_exp_minus_1)
  qed
  show "Number h = Number p + 1" if "net_map (ParentHash h) = Some p" for p
  proof (cases "n = 0")
    case True
    have "net_map 99 = Some p" using that n True by (simp add: blk_fields)
    then obtain m where "m \<le> 5" "99 = key m" using net_map_Some by blast
    then have "unat (99 :: hash) = 100 + m" using unat_key [of m] by metis
    then show ?thesis by simp
  qed (use n that in \<open>auto simp: blk_fields\<close>)
  assume "switch_number sample_config < Number h"
  then have p: "0 < n" using n by (simp add: sample_switch blk_fields)
  then consider "n = 1" | "n = 2" | "n = 3" | "n = 4" | "n = 5" using n(1) by linarith
  then have lt: "(of_nat (n - 1) :: u64) < of_nat n" by cases simp_all
  have "names_round sample_config (blk (n - 1)) (of_nat (n - 1))"
  proof (cases "n = 1")
    case False
    then show ?thesis using blk_extra [of "n - 1"] p n by (auto simp: names_round_def round_of_def sample_switch blk_fields)
  qed (simp add: names_round_def sample_switch blk_fields)
  then show "linked sample_config net_map h"
    unfolding linked_def using blk_extra [OF p n(1)] n p lt by (auto simp: blk_fields net_qc_info)
qed

lemma net_signers: "{5, 6, 7} \<subseteq> signers_of four_nodes (net_qc n)"
proof -
  have "signed_by net_E h [5] 5" "signed_by net_E h [6] 6" "signed_by net_E h [7] 7" for h
    by (simp_all add: signed_by_def pubkey_address_def net_byte)
  then show ?thesis by (simp add: signers_of_def four_nodes_def net_qc_def)
qed

lemma net_genuine:
  assumes "n \<le> 5"
  shows "genuine four_nodes (net_qc n)"
proof -
  have s: "signers_of four_nodes (net_qc n) \<subseteq> {5, 6, 7, 8}" by (auto simp: signers_of_def four_nodes_def)
  have "card {5, 6, 7 :: address} \<le> card (signers_of four_nodes (net_qc n))"
    using net_signers s by (intro card_mono) (auto intro: finite_subset)
  then have c: "3 \<le> card (signers_of four_nodes (net_qc n))" by simp
  have "card (signers_of four_nodes (net_qc n)) \<le> card {5, 6, 7, 8 :: address}" using s by (intro card_mono) auto
  then have d: "card (signers_of four_nodes (net_qc n)) \<le> 4" by simp
  have "\<not> below_threshold (card (signers_of four_nodes (net_qc n))) 4 (CertThreshold sample_V2Config)"
    using cert_0667_bounds c d
    by (intro not_below_upper) (auto simp: sample_V2Config_def v2config_def simp del: of_nat_le_iff intro: order_trans [OF _ of_nat_mono])
  moreover have "net_config four_nodes = sample_config" "length (net_nodes four_nodes) = 4" by (simp_all add: four_nodes_def)
  ultimately show ?thesis using sample_V2_Config unfolding genuine_def by simp
qed

lemma four_nodes_run:
  assumes "a \<in> {5, 6, 7}"
  shows "at_block a (if a = 5 then 5 else 4) (net_final four_nodes a)"
    and "good_run net_E None Bft_New sample_config net_map (start_node a) (net_calls four_nodes a)"
    and "0 < n \<Longrightarrow> n \<le> 4 \<Longrightarrow> qc_ProposedBlockInfo (net_qc n) \<in> fst ` set (net_ballots four_nodes a)"
proof -
  let ?m = "if a = 5 then 5 else 4 :: nat"
  have c: "net_calls four_nodes a = map propose [Suc 0..<Suc ?m]" by (cases "a = 5") (simp_all add: four_nodes_def del: upt_Suc)
  have r: "at_block a ?m (run net_E None Bft_New (start_node a) (map propose [Suc 0..<Suc ?m]))"
    "good_run net_E None Bft_New sample_config net_map (start_node a) (map propose [Suc 0..<Suc ?m])"
    "map fst (ballots net_E None Bft_New (start_node a) (map propose [Suc 0..<Suc ?m])) = map (\<lambda>k. qc_ProposedBlockInfo (net_qc k)) [Suc 0..<Suc ?m]"
    using net_run [OF _ _ assms net_start_node(2), where m = ?m and hook = None and b = Bft_New] by (simp_all del: upt_Suc)
  show "at_block a ?m (net_final four_nodes a)"
    using r(1) unfolding net_final_def c by (simp add: four_nodes_def del: upt_Suc)
  show "good_run net_E None Bft_New sample_config net_map (start_node a) (net_calls four_nodes a)"
    using r(2) unfolding c .
  assume n: "0 < n" "n \<le> 4"
  have "map fst (net_ballots four_nodes a) = map (\<lambda>k. qc_ProposedBlockInfo (net_qc k)) [Suc 0..<Suc ?m]"
    using r(3) unfolding net_ballots_def c by (simp add: four_nodes_def del: upt_Suc)
  then have "set (map fst (net_ballots four_nodes a)) = (\<lambda>k. qc_ProposedBlockInfo (net_qc k)) ` {Suc 0..<Suc ?m}" by (simp del: upt_Suc set_map add: set_map [of "\<lambda>k. qc_ProposedBlockInfo (net_qc k)"])
  moreover have "n \<in> {Suc 0..<Suc ?m}" using n by simp
  ultimately show "qc_ProposedBlockInfo (net_qc n) \<in> fst ` set (net_ballots four_nodes a)" by auto
qed

lemma four_nodes_certs:
  assumes "embedded four_nodes qc \<and> 0 < cert_round qc \<or> committing four_nodes qc"
  shows "\<exists>n. 0 < n \<and> n \<le> 4 \<and> qc = net_qc n"
  using assms
proof
  assume e: "embedded four_nodes qc \<and> 0 < cert_round qc"
  then obtain k h r ms where h: "net_map k = Some h" "900 < Number h" "getExtraFields sample_config h = Inr (Some qc, r, ms)"
    by (auto simp: embedded_def lock_ok_def four_nodes_def sample_switch)
  then obtain n where n: "n \<le> 5" "h = blk n" using net_map_Some by blast
  then have "0 < n" using h(2) by (simp add: blk_fields)
  then have "qc = net_qc (n - 1)" using blk_extra [of n] h(3) n by simp
  moreover have "n \<noteq> 1" using e calculation by (auto simp: net_qc_info)
  ultimately show ?thesis using n \<open>0 < n\<close> by (intro exI [of _ "n - 1"]) simp
next
  assume "committing four_nodes qc"
  then obtain a where a: "a \<in> {5, 6, 7}" "qc \<in> snd ` set (forensicsJobs (net_final four_nodes a))"
    by (auto simp: committing_def four_nodes_def)
  then have "qc \<in> net_qc ` {1..4}" using four_nodes_run(1) [OF a(1)] unfolding at_block_def by blast
  then obtain n where "1 \<le> n" "n \<le> 4" "qc = net_qc n" by auto
  then show ?thesis by (intro exI [of _ n]) simp
qed

lemma four_nodes_legal: "legal four_nodes"
  unfolding legal_def
proof (intro conjI)
  show "quiet_hook (net_hook four_nodes)" by (simp add: quiet_hook_def four_nodes_def)
  show "well_linked (net_env four_nodes) (net_config four_nodes) (net_blocks four_nodes)" using net_linked by (simp add: four_nodes_def)
  show "\<forall>k l h h'. net_blocks four_nodes k = Some h \<longrightarrow> net_blocks four_nodes l = Some h' \<longrightarrow>
      Number h = switch_number (net_config four_nodes) \<longrightarrow> Number h' = switch_number (net_config four_nodes) \<longrightarrow> k = l"
  proof -
    have "k = key 0" if "net_map k = Some h" "Number h = 900" for k h
    proof -
      note t = that
      obtain n where "k = key n" "h = blk n" using net_map_Some [OF t(1)] by blast
      then show ?thesis using t(2) by (simp add: blk_fields)
    qed
    then show ?thesis by (auto simp: four_nodes_def sample_switch)
  qed
  show "\<forall>r c. V2_Config (cfg_V2 (net_config four_nodes)) r = Some c \<longrightarrow> CertThreshold c = cert_0667"
    by (simp add: four_nodes_def sample_V2_Config) (simp add: sample_V2Config_def v2config_def)
  show "\<forall>a\<in>net_honest four_nodes. started four_nodes a
      \<and> good_run (net_env four_nodes) (net_hook four_nodes) (net_bft four_nodes) (net_config four_nodes) (net_blocks four_nodes)
          (net_start four_nodes a) (net_calls four_nodes a)"
  proof (intro ballI conjI)
    fix a assume "a \<in> net_honest four_nodes"
    then have a: "a \<in> {5, 6, 7}" by (simp add: four_nodes_def)
    have "Number (blk 0) = switch_number sample_config" by (simp add: sample_switch blk_fields)
    moreover have "net_config four_nodes = sample_config" "net_env four_nodes = net_E" "net_start four_nodes a = start_node a"
      by (simp_all add: four_nodes_def)
    ultimately show "started four_nodes a" using net_start_node(1) [of a] unfolding started_def by metis
    show "good_run (net_env four_nodes) (net_hook four_nodes) (net_bft four_nodes) (net_config four_nodes) (net_blocks four_nodes)
          (net_start four_nodes a) (net_calls four_nodes a)" using four_nodes_run(2) [OF a] by (simp add: four_nodes_def)
  qed
  show "\<forall>qc. embedded four_nodes qc \<and> 0 < cert_round qc \<or> committing four_nodes qc \<longrightarrow> genuine four_nodes qc
      \<and> (\<forall>a\<in>net_honest four_nodes. a \<in> signers_of four_nodes qc \<longrightarrow> qc_ProposedBlockInfo qc \<in> fst ` set (net_ballots four_nodes a))"
  proof (intro allI impI)
    fix qc assume "embedded four_nodes qc \<and> 0 < cert_round qc \<or> committing four_nodes qc"
    then obtain n where "0 < n" "n \<le> 4" "qc = net_qc n" using four_nodes_certs by blast
    moreover have "net_honest four_nodes = {5, 6, 7}" by (simp add: four_nodes_def)
    ultimately show "genuine four_nodes qc \<and> (\<forall>a\<in>net_honest four_nodes. a \<in> signers_of four_nodes qc \<longrightarrow>
        qc_ProposedBlockInfo qc \<in> fst ` set (net_ballots four_nodes a))" using net_genuine [of n] four_nodes_run(3) by auto
  qed
qed (simp_all add: four_nodes_def)

lemma four_nodes_honest: "5 \<in> net_honest four_nodes" "6 \<in> net_honest four_nodes"
  by (simp_all add: four_nodes_def)

text \<open>Node 5 has seen one block more than node 6 and has committed one block more.\<close>

lemma four_nodes_commits:
  "highestCommitBlock (net_final four_nodes 5) = Some (qc_ProposedBlockInfo (net_qc 2))"
  "highestCommitBlock (net_final four_nodes 6) = Some (qc_ProposedBlockInfo (net_qc 1))"
  using four_nodes_run(1) [of 5] four_nodes_run(1) [of 6] by (simp_all add: at_block_def)

end
