(* ===== verification/Trie_Encoding.thy ===== *)
theory Trie_Encoding
  imports Prelude
begin

text \<open>
  The three encodings of a trie key (\<^verbatim>\<open>src/trie/encoding.go\<close>): the bytes of the key, its nibbles with an
  optional terminator 16, and the compact encoding of nibbles with a flag nibble. A write or read
  outside of a slice panics.
\<close>

unbundle bit_operations_syntax

section \<open>Operations\<close>

definition hasTerm :: "byte list \<Rightarrow> bool" where
  "hasTerm s \<longleftrightarrow> 0 < length s \<and> s ! (length s - 1) = 16"

text \<open>\<open>decodeNibbles nibbles bytes\<close> is the slice \<open>bytes\<close> after the loop has filled it.\<close>

fun decodeNibbles :: "byte list \<Rightarrow> byte list \<Rightarrow> error + byte list" where
  "decodeNibbles [] bytes = Inr bytes"
| "decodeNibbles (a # b # nibbles) (_ # bytes) =
    (case decodeNibbles nibbles bytes of Inl e \<Rightarrow> Inl e | Inr bs \<Rightarrow> Inr ((push_bit 4 a OR b) # bs))"
| "decodeNibbles _ _ = Inl Panic"

definition hexToCompact :: "byte list \<Rightarrow> error + byte list" where
  "hexToCompact hex =
    (let (terminator, hex) = (if hasTerm hex then (1, butlast hex) else (0, hex));
         buf = replicate (length hex div 2 + 1) 0;
         buf0 = push_bit 5 terminator :: byte;
         (buf0, hex) = (if odd (length hex) then (buf0 OR push_bit 4 1 OR hd hex, tl hex) else (buf0, hex))
     in case decodeNibbles hex (tl buf) of Inl e \<Rightarrow> Inl e | Inr bs \<Rightarrow> Inr (buf0 # bs))"

definition keybytesToHex :: "byte list \<Rightarrow> byte list" where
  "keybytesToHex str = concat (map (\<lambda>b. [b div 16, b mod 16]) str) @ [16]"

definition compactToHex :: "byte list \<Rightarrow> byte list" where
  "compactToHex compact =
    (if compact = [] then compact
     else let base = keybytesToHex compact;
              base' = (if hd base < 2 then butlast base else base);
              chop = 2 - (hd base AND 1)
          in drop (unat chop) base')"

definition hexToKeybytes :: "byte list \<Rightarrow> error + byte list" where
  "hexToKeybytes hex =
    (let hex = (if hasTerm hex then butlast hex else hex)
     in if odd (length hex) then Inl Panic
        else decodeNibbles hex (replicate (length hex div 2) 0))"

fun prefixLen :: "byte list \<Rightarrow> byte list \<Rightarrow> nat" where
  "prefixLen (a # as) (b # bs) = (if a = b then Suc (prefixLen as bs) else 0)"
| "prefixLen _ _ = 0"

section \<open>Nibbles\<close>

definition nibbles :: "byte list \<Rightarrow> bool" where
  "nibbles ns \<longleftrightarrow> (\<forall>n\<in>set ns. n < 16)"

text \<open>The keys of the trie: nibbles, a terminator at the end marks a value.\<close>

definition hex_key :: "byte list \<Rightarrow> bool" where
  "hex_key k \<longleftrightarrow> nibbles k \<or> (\<exists>ns. nibbles ns \<and> k = ns @ [16])"

lemma nibbles_simps [simp]:
  "nibbles []" "nibbles (a # ns) \<longleftrightarrow> a < 16 \<and> nibbles ns" "nibbles (xs @ ys) \<longleftrightarrow> nibbles xs \<and> nibbles ys"
  by (auto simp: nibbles_def)

lemma nibbles_take [simp]: "nibbles ns \<Longrightarrow> nibbles (take n ns)" and nibbles_drop [simp]: "nibbles ns \<Longrightarrow> nibbles (drop n ns)"
  by (auto simp: nibbles_def dest: in_set_takeD in_set_dropD)

lemma hasTerm_snoc [simp]: "hasTerm (ns @ [a]) \<longleftrightarrow> a = 16"
  by (simp add: hasTerm_def)

lemma hasTerm_Nil [simp]: "\<not> hasTerm []"
  by (simp add: hasTerm_def)

lemma hasTerm_last: "ns \<noteq> [] \<Longrightarrow> hasTerm ns \<longleftrightarrow> last ns = 16"
  by (simp add: hasTerm_def last_conv_nth)

lemma nibbles_no_term: "nibbles ns \<Longrightarrow> \<not> hasTerm ns"
  by (cases ns rule: rev_cases) auto

lemma nibble_pair:
  fixes a b :: byte
  assumes "a < 16" and "b < 16"
  shows "unat (push_bit 4 a OR b) = 16 * unat a + unat b"
    and "(push_bit 4 a OR b) div 16 = a" and "(push_bit 4 a OR b) mod 16 = b"
proof -
  have n: "unat a < 16" "unat b < 16" using assms by (simp_all add: word_less_nat_alt)
  have "push_bit 4 a AND b = 0"
  proof (rule bit_word_eqI)
    fix i assume "i < LENGTH(8)"
    have "\<not> bit b i" if "4 \<le> i"
    proof -
      have "take_bit 4 b = b" using n by (simp add: word_unat_eq_iff unsigned_take_bit_eq take_bit_nat_eq_self)
      then show ?thesis using that by (metis bit_take_bit_iff not_le)
    qed
    then show "bit (push_bit 4 a AND b) i = bit (0 :: byte) i" by (auto simp: bit_simps)
  qed
  then have "push_bit 4 a OR b = push_bit 4 a + b" by (simp add: disjunctive_add_eq_or)
  moreover have "unat (push_bit 4 a) = 16 * unat a"
    using n by (simp add: push_bit_eq_mult unat_word_ariths)
  ultimately show u: "unat (push_bit 4 a OR b) = 16 * unat a + unat b"
    using n by (simp add: unat_word_ariths)
  show "(push_bit 4 a OR b) div 16 = a" using u n by (simp add: word_unat_eq_iff unat_div)
  show "(push_bit 4 a OR b) mod 16 = b" using u n by (simp add: word_unat_eq_iff unat_mod)
qed

lemma byte_halves:
  fixes c :: byte
  shows "c div 16 < 16" and "c mod 16 < 16" and "push_bit 4 (c div 16) OR (c mod 16) = c"
proof -
  have "unat c div 16 < 16" by (rule less_mult_imp_div_less) simp
  then have l: "unat (c div 16) < 16" "unat (c mod 16) < 16" by (simp_all add: unat_div unat_mod)
  then show lt: "c div 16 < 16" "c mod 16 < 16" by (simp_all add: word_less_nat_alt)
  show "push_bit 4 (c div 16) OR (c mod 16) = c"
    using nibble_pair(1) [OF lt] by (simp add: word_unat_eq_iff unat_div unat_mod)
qed

section \<open>Key bytes\<close>

definition byte_nibbles :: "byte list \<Rightarrow> byte list" where
  "byte_nibbles str = concat (map (\<lambda>b. [b div 16, b mod 16]) str)"

lemma byte_nibbles_simps [simp]: "byte_nibbles [] = []" "byte_nibbles (b # bs) = b div 16 # b mod 16 # byte_nibbles bs"
  by (simp_all add: byte_nibbles_def)

lemma nibbles_byte_nibbles [simp]: "nibbles (byte_nibbles str)"
  by (induction str) (auto simp: byte_halves)

lemma length_byte_nibbles [simp]: "length (byte_nibbles str) = 2 * length str"
  by (induction str) auto

lemma keybytesToHex_eq: "keybytesToHex str = byte_nibbles str @ [16]"
  by (simp add: keybytesToHex_def byte_nibbles_def)

lemma decode_byte_nibbles:
  "length buf = length str \<Longrightarrow> decodeNibbles (byte_nibbles str) buf = Inr str"
proof (induction str arbitrary: buf)
  case (Cons c str)
  then obtain x buf' where "buf = x # buf'" by (cases buf) auto
  then show ?case using Cons by (simp add: byte_halves)
qed simp

text \<open>Nibbles of even length are the nibbles of some bytes.\<close>

lemma byte_nibbles_ex: "nibbles ns \<Longrightarrow> even (length ns) \<Longrightarrow> \<exists>str. ns = byte_nibbles str \<and> 2 * length str = length ns"
proof (induction ns rule: induct_list012)
  case (3 a b ns)
  from 3(1) obtain str where str: "ns = byte_nibbles str" "2 * length str = length ns" using 3(3,4) by auto
  have "a # b # ns = byte_nibbles ((push_bit 4 a OR b) # str)" using 3(3) str(1) by (simp add: nibble_pair)
  then show ?case using str(2) by (intro exI [of _ "(push_bit 4 a OR b) # str"]) simp
qed auto

lemma byte_nibbles_inj: "byte_nibbles xs = byte_nibbles ys \<Longrightarrow> xs = ys"
  using decode_byte_nibbles [of xs xs] decode_byte_nibbles [of xs ys]
  by (metis Inr_inject decode_byte_nibbles length_byte_nibbles mult_cancel1 zero_neq_numeral)

lemma keybytes_roundtrip: "hexToKeybytes (keybytesToHex str) = Inr str"
  by (simp add: hexToKeybytes_def keybytesToHex_eq decode_byte_nibbles)

lemma keybytesToHex_inj: "keybytesToHex xs = keybytesToHex ys \<Longrightarrow> xs = ys"
  by (simp add: keybytesToHex_eq byte_nibbles_inj)

section \<open>Compact keys\<close>

text \<open>The first byte of a compact key: the terminator, the oddness and the first nibble of an odd key.\<close>

definition compact_flag :: "bool \<Rightarrow> byte option \<Rightarrow> byte" where
  "compact_flag t n = push_bit 5 (of_bool t) OR (case n of None \<Rightarrow> 0 | Some a \<Rightarrow> push_bit 4 1 OR a)"

definition flag_nibble :: "bool \<Rightarrow> bool \<Rightarrow> byte" where
  "flag_nibble t p = 2 * of_bool t + of_bool p"

lemma compact_flag_halves:
  assumes "\<forall>a. n = Some a \<longrightarrow> a < 16"
  shows "compact_flag t n div 16 = flag_nibble t (n \<noteq> None)" and "compact_flag t n mod 16 = (case n of None \<Rightarrow> 0 | Some a \<Rightarrow> a)"
proof -
  let ?m = "case n of None \<Rightarrow> 0 | Some a \<Rightarrow> a"
  have m: "?m < 16" using assms by (auto split: option.split)
  have f: "flag_nibble t p < 16" for p by (cases t; cases p) (simp_all add: flag_nibble_def)
  have "compact_flag t n = push_bit 4 (flag_nibble t (n \<noteq> None)) OR ?m"
    by (cases t; cases n) (simp_all add: compact_flag_def flag_nibble_def or.assoc [symmetric])
  then show "compact_flag t n div 16 = flag_nibble t (n \<noteq> None)" "compact_flag t n mod 16 = ?m"
    using nibble_pair [OF f m] by simp_all
qed

lemma hexToCompact_even:
  "hexToCompact (byte_nibbles str @ (if t then [16] else [])) = Inr (compact_flag t None # str)"
  using nibbles_no_term [of "byte_nibbles str"]
  by (cases t) (simp_all add: hexToCompact_def compact_flag_def decode_byte_nibbles)

lemma hexToCompact_odd:
  "a < 16 \<Longrightarrow> hexToCompact (a # byte_nibbles str @ (if t then [16] else [])) = Inr (compact_flag t (Some a) # str)"
  using nibbles_no_term [of "a # byte_nibbles str"] hasTerm_snoc [of "a # byte_nibbles str" 16]
  by (cases t) (simp_all add: hexToCompact_def compact_flag_def decode_byte_nibbles or.assoc)

lemma flag_nibble_tests:
  "flag_nibble t p < 2 \<longleftrightarrow> \<not> t" "unat (2 - (flag_nibble t p AND 1)) = (if p then 1 else 2)"
  by (cases t; cases p; simp add: flag_nibble_def)+

lemma compactToHex_flag:
  assumes "\<forall>a. n = Some a \<longrightarrow> a < 16"
  shows "compactToHex (compact_flag t n # str) =
    (case n of None \<Rightarrow> [] | Some a \<Rightarrow> [a]) @ byte_nibbles str @ (if t then [16] else [])"
  using compact_flag_halves [where n = n and t = t, OF assms]
  by (cases n; cases t) (simp_all add: compactToHex_def Let_def keybytesToHex_eq flag_nibble_tests butlast_append)

text \<open>Every key is an optional odd nibble, the nibbles of some bytes, and an optional terminator.\<close>

lemma hex_key_parts:
  assumes "hex_key k"
  obtains n str t where "k = (case n of None \<Rightarrow> [] | Some a \<Rightarrow> [a]) @ byte_nibbles str @ (if t then [16] else [])"
    and "\<forall>a. n = Some a \<longrightarrow> a < 16" and "t = hasTerm k"
proof -
  obtain ns where ns: "nibbles ns" "k = ns @ (if hasTerm k then [16] else [])"
    using assms nibbles_no_term by (auto simp: hex_key_def)
  show ?thesis
  proof (cases "even (length ns)")
    case True
    then show ?thesis using byte_nibbles_ex [OF ns(1)] ns(2) that [of None] by auto
  next
    case False
    then obtain a ms where ms: "ns = a # ms" "even (length ms)" by (cases ns) auto
    then obtain str where "ms = byte_nibbles str" using byte_nibbles_ex ns(1) by auto
    then show ?thesis using ns ms that [of "Some a" str "hasTerm k"] by auto
  qed
qed

lemma hexToCompact_parts:
  assumes "\<forall>a. n = Some a \<longrightarrow> a < 16"
  shows "hexToCompact ((case n of None \<Rightarrow> [] | Some a \<Rightarrow> [a]) @ byte_nibbles str @ (if t then [16] else [])) =
    Inr (compact_flag t n # str)"
  using assms hexToCompact_even [of str t] hexToCompact_odd [of _ str t] by (cases n) simp_all

lemma compact_roundtrip:
  assumes "hex_key k"
  shows "\<exists>c. hexToCompact k = Inr c \<and> compactToHex c = k \<and> length c = length (filter (\<lambda>n. n < 16) k) div 2 + 1"
proof -
  obtain n str t where k: "k = (case n of None \<Rightarrow> [] | Some a \<Rightarrow> [a]) @ byte_nibbles str @ (if t then [16] else [])"
    and n: "\<forall>a. n = Some a \<longrightarrow> a < 16" and "t = hasTerm k" by (rule hex_key_parts [OF assms])
  have f: "filter (\<lambda>n. n < 16) (byte_nibbles str) = byte_nibbles str"
    using nibbles_byte_nibbles by (simp add: nibbles_def)
  have "length (filter (\<lambda>n. n < 16) k) div 2 + 1 = length (compact_flag t n # str)"
    unfolding k using n f by (cases n) simp_all
  moreover have "hexToCompact k = Inr (compact_flag t n # str)" unfolding k using n by (rule hexToCompact_parts)
  moreover have "compactToHex (compact_flag t n # str) = k" unfolding k using n by (rule compactToHex_flag)
  ultimately show ?thesis by auto
qed

lemma hexToCompact_inj:
  assumes "hex_key k" and "hex_key l" and "hexToCompact k = hexToCompact l"
  shows "k = l"
  using compact_roundtrip [OF assms(1)] compact_roundtrip [OF assms(2)] assms(3) by auto

section \<open>Common prefixes\<close>

lemma prefixLen_le: "prefixLen a b \<le> length a" "prefixLen a b \<le> length b"
  by (induction a b rule: prefixLen.induct) auto

lemma prefixLen_take: "take (prefixLen a b) a = take (prefixLen a b) b"
  by (induction a b rule: prefixLen.induct) auto

lemma prefixLen_differ:
  "prefixLen a b < length a \<Longrightarrow> prefixLen a b < length b \<Longrightarrow> a ! prefixLen a b \<noteq> b ! prefixLen a b"
  by (induction a b rule: prefixLen.induct) auto

lemma prefixLen_append [simp]: "prefixLen (a @ b) (a @ c) = length a + prefixLen b c"
  by (induction a) auto

lemma prefixLen_full: "prefixLen a b = length b \<longleftrightarrow> (\<exists>c. a = b @ c)"
  by (induction a b rule: prefixLen.induct) auto

text \<open>
  C40: the compact encoding of a key is made without a panic, has one byte per two nibbles and one more,
  and gives the key back; two keys with the same encoding are the same; and the nibbles of a byte
  string give the bytes back.
\<close>

theorem key_encodings:
  assumes "hex_key k" and "hex_key l"
  shows "(\<exists>c. hexToCompact k = Inr c \<and> compactToHex c = k \<and> length c = length (filter (\<lambda>n. n < 16) k) div 2 + 1)
    \<and> (hexToCompact k = hexToCompact l \<longleftrightarrow> k = l)
    \<and> hexToKeybytes (keybytesToHex str) = Inr str \<and> hex_key (keybytesToHex str)"
  using compact_roundtrip [OF assms(1)] hexToCompact_inj [OF assms] keybytes_roundtrip
  by (auto simp: hex_key_def keybytesToHex_eq)

theorem key_encodings_witness:
  "hex_key [1, 2, 3, 16] \<and> hex_key [1, 2, 3] \<and> hexToCompact [1, 2, 3, 16] \<noteq> hexToCompact [1, 2, 3]
   \<and> (\<exists>c. hexToCompact [1, 2, 3, 16] = Inr c \<and> compactToHex c = [1, 2, 3, 16])"
proof -
  have k: "hex_key [1, 2, 3, 16]" "hex_key [1, 2, 3]" by (auto simp: hex_key_def intro!: exI [of _ "[1, 2, 3]"])
  show ?thesis using key_encodings [OF k] k by auto
qed

end
