(* ===== verification/Trie_Node.thy ===== *)
theory Trie_Node
  imports Trie_Encoding
begin

text \<open>
  The trie of \<^verbatim>\<open>src/trie/trie.go\<close> over the nodes of \<^verbatim>\<open>node.go\<close>: lookup, insertion and deletion, which load the
  nodes behind a hash from the database as they go, and the searches for the first and the last key
  and for the keys below a limit. The database is an argument: the method \<^verbatim>\<open>node\<close> of \<^verbatim>\<open>trie.Database\<close>.
  Recursion through the database is bounded by fuel.
\<close>

section \<open>Nodes\<close>

record NodeFlag =
  flag_hash :: "byte list option"
  flag_dirty :: bool

datatype Node =
    NilNode
  | FullNode "Node list" NodeFlag
  | ShortNode "byte list" Node NodeFlag
  | HashNode "byte list"
  | ValueNode "byte list"

datatype trie_error =
    MissingNodeError hash "byte list"
  | InvalidNode
  | TriePanic
  | TrieOutOfFuel

type_synonym node_db = "hash \<Rightarrow> Node option"

record Trie =
  Db :: node_db
  root :: Node
  unhashed :: nat

definition Node_Cache :: "Node \<Rightarrow> byte list option \<times> bool" where
  "Node_Cache n =
    (case n of FullNode _ f \<Rightarrow> (flag_hash f, flag_dirty f) | ShortNode _ _ f \<Rightarrow> (flag_hash f, flag_dirty f) | _ \<Rightarrow> (None, True))"

definition newFlag :: NodeFlag where
  "newFlag = \<lparr>flag_hash = None, flag_dirty = True\<rparr>"

definition BytesToHash :: "byte list \<Rightarrow> hash" where
  "BytesToHash b = of_nat (be_val (drop (length b - 32) b))"

definition resolveHash :: "node_db \<Rightarrow> byte list \<Rightarrow> byte list \<Rightarrow> trie_error + Node" where
  "resolveHash D n pre =
    (let h = BytesToHash n in case D h of Some node \<Rightarrow> Inr node | None \<Rightarrow> Inl (MissingNodeError h pre))"

definition resolve :: "node_db \<Rightarrow> Node \<Rightarrow> byte list \<Rightarrow> trie_error + Node" where
  "resolve D n pre = (case n of HashNode h \<Rightarrow> resolveHash D h pre | _ \<Rightarrow> Inr n)"

definition emptyRoot :: hash where
  "emptyRoot = 0x56e81f171bcc55a6ff8345e692c0f86e5b48e01b996cadc001622fb5e363b421"

definition Trie_New :: "hash \<Rightarrow> node_db \<Rightarrow> trie_error + Trie" where
  "Trie_New r D =
    (if r \<noteq> 0 \<and> r \<noteq> emptyRoot
     then (case resolveHash D (hash_bytes r) [] of Inl e \<Rightarrow> Inl e | Inr n \<Rightarrow> Inr \<lparr>Db = D, root = n, unhashed = 0\<rparr>)
     else Inr \<lparr>Db = D, root = NilNode, unhashed = 0\<rparr>)"

text \<open>Enough fuel for a key: every call uses up a nibble or loads a node.\<close>

definition trie_fuel :: "byte list \<Rightarrow> nat" where
  "trie_fuel key = 2 * length key + 2"

section \<open>Lookup\<close>

fun tryGet :: "nat \<Rightarrow> node_db \<Rightarrow> Node \<Rightarrow> byte list \<Rightarrow> nat \<Rightarrow> trie_error + byte list option \<times> Node \<times> bool" where
  "tryGet 0 D n key pos = Inl TrieOutOfFuel"
| "tryGet (Suc fuel) D n key pos =
    (case n of
       NilNode \<Rightarrow> Inr (None, NilNode, False)
     | ValueNode v \<Rightarrow> Inr (Some v, n, False)
     | ShortNode k val flags \<Rightarrow>
         if int (length key) - int pos < int (length k) \<or> k \<noteq> take (length k) (drop pos key) then Inr (None, n, False)
         else (case tryGet fuel D val key (pos + length k) of
                 Inl e \<Rightarrow> Inl e
               | Inr (v, newnode, didResolve) \<Rightarrow> Inr (v, if didResolve then ShortNode k newnode flags else n, didResolve))
     | FullNode children flags \<Rightarrow>
         if pos < length key \<and> unat (key ! pos) < length children
         then (case tryGet fuel D (children ! unat (key ! pos)) key (pos + 1) of
                 Inl e \<Rightarrow> Inl e
               | Inr (v, newnode, didResolve) \<Rightarrow>
                   Inr (v, if didResolve then FullNode (children[unat (key ! pos) := newnode]) flags else n, didResolve))
         else Inl TriePanic
     | HashNode h \<Rightarrow>
         (case resolveHash D h (take pos key) of
            Inl e \<Rightarrow> Inl e
          | Inr child \<Rightarrow>
              (case tryGet fuel D child key pos of
                 Inl e \<Rightarrow> Inl e | Inr (v, newnode, _) \<Rightarrow> Inr (v, newnode, True))))"

definition TryGet :: "byte list \<Rightarrow> Trie \<Rightarrow> Trie \<times> (trie_error + byte list option)" where
  "TryGet key t =
    (let key = keybytesToHex key
     in case tryGet (trie_fuel key) (Db t) (root t) key 0 of
          Inl e \<Rightarrow> (t, Inl e)
        | Inr (v, newroot, didResolve) \<Rightarrow> (if didResolve then t\<lparr>root := newroot\<rparr> else t, Inr v))"

section \<open>Insertion and deletion\<close>

fun trie_insert :: "nat \<Rightarrow> node_db \<Rightarrow> Node \<Rightarrow> byte list \<Rightarrow> byte list \<Rightarrow> Node \<Rightarrow> trie_error + bool \<times> Node" where
  "trie_insert 0 D n pre key v = Inl TrieOutOfFuel"
| "trie_insert (Suc fuel) D n pre key v =
    (if key = []
     then (case n of
             ValueNode w \<Rightarrow> (case v of ValueNode u \<Rightarrow> Inr (w \<noteq> u, v) | _ \<Rightarrow> Inl TriePanic)
           | _ \<Rightarrow> Inr (True, v))
     else (case n of
       ShortNode k val flags \<Rightarrow>
         let matchlen = prefixLen key k
         in if matchlen = length k
            then (case trie_insert fuel D val (pre @ take matchlen key) (drop matchlen key) v of
                    Inl e \<Rightarrow> Inl e
                  | Inr (dirty, nn) \<Rightarrow> if dirty then Inr (True, ShortNode k nn newFlag) else Inr (False, n))
            else (case trie_insert fuel D NilNode (pre @ take (matchlen + 1) k) (drop (matchlen + 1) k) val of
                    Inl e \<Rightarrow> Inl e
                  | Inr (_, c1) \<Rightarrow>
                      if length key \<le> matchlen then Inl TriePanic
                      else (case trie_insert fuel D NilNode (pre @ take (matchlen + 1) key) (drop (matchlen + 1) key) v of
                              Inl e \<Rightarrow> Inl e
                            | Inr (_, c2) \<Rightarrow>
                                if 17 \<le> unat (k ! matchlen) \<or> 17 \<le> unat (key ! matchlen) then Inl TriePanic
                                else let branch = FullNode ((replicate 17 NilNode)
                                           [unat (k ! matchlen) := c1, unat (key ! matchlen) := c2]) newFlag
                                     in Inr (True, if matchlen = 0 then branch else ShortNode (take matchlen key) branch newFlag)))
     | FullNode children flags \<Rightarrow>
         if length children \<le> unat (hd key) then Inl TriePanic
         else (case trie_insert fuel D (children ! unat (hd key)) (pre @ [hd key]) (tl key) v of
                 Inl e \<Rightarrow> Inl e
               | Inr (dirty, nn) \<Rightarrow>
                   if dirty then Inr (True, FullNode (children[unat (hd key) := nn]) newFlag) else Inr (False, n))
     | NilNode \<Rightarrow> Inr (True, ShortNode key v newFlag)
     | HashNode h \<Rightarrow>
         (case resolveHash D h pre of
            Inl e \<Rightarrow> Inl e
          | Inr rn \<Rightarrow>
              (case trie_insert fuel D rn pre key v of
                 Inl e \<Rightarrow> Inl e
               | Inr (dirty, nn) \<Rightarrow> if dirty then Inr (True, nn) else Inr (False, rn)))
     | ValueNode _ \<Rightarrow> Inl TriePanic))"

text \<open>The loop over the children: the index of the only child that is left, if there is only one.\<close>

definition single_child :: "Node list \<Rightarrow> nat option" where
  "single_child children =
    (case filter (\<lambda>i. children ! i \<noteq> NilNode) [0..<length children] of [i] \<Rightarrow> Some i | _ \<Rightarrow> None)"

fun trie_delete :: "nat \<Rightarrow> node_db \<Rightarrow> Node \<Rightarrow> byte list \<Rightarrow> byte list \<Rightarrow> trie_error + bool \<times> Node" where
  "trie_delete 0 D n pre key = Inl TrieOutOfFuel"
| "trie_delete (Suc fuel) D n pre key =
    (case n of
       ShortNode k val flags \<Rightarrow>
         let matchlen = prefixLen key k
         in if matchlen < length k then Inr (False, n)
            else if matchlen = length key then Inr (True, NilNode)
            else (case trie_delete fuel D val (pre @ take (length k) key) (drop (length k) key) of
                    Inl e \<Rightarrow> Inl e
                  | Inr (dirty, child) \<Rightarrow>
                      if \<not> dirty then Inr (False, n)
                      else (case child of
                              ShortNode ck cval _ \<Rightarrow> Inr (True, ShortNode (k @ ck) cval newFlag)
                            | _ \<Rightarrow> Inr (True, ShortNode k child newFlag)))
     | FullNode children flags \<Rightarrow>
         if key = [] \<or> length children \<le> unat (hd key) then Inl TriePanic
         else (case trie_delete fuel D (children ! unat (hd key)) (pre @ [hd key]) (tl key) of
                 Inl e \<Rightarrow> Inl e
               | Inr (dirty, nn) \<Rightarrow>
                   if \<not> dirty then Inr (False, n)
                   else let children = children[unat (hd key) := nn]
                        in (case single_child children of
                              None \<Rightarrow> Inr (True, FullNode children newFlag)
                            | Some pos \<Rightarrow>
                                if pos \<noteq> 16
                                then (case resolve D (children ! pos) pre of
                                        Inl e \<Rightarrow> Inl e
                                      | Inr (ShortNode ck cval _) \<Rightarrow> Inr (True, ShortNode (of_nat pos # ck) cval newFlag)
                                      | Inr _ \<Rightarrow> Inr (True, ShortNode [of_nat pos] (children ! pos) newFlag))
                                else Inr (True, ShortNode [of_nat pos] (children ! pos) newFlag)))
     | ValueNode _ \<Rightarrow> Inr (True, NilNode)
     | NilNode \<Rightarrow> Inr (False, NilNode)
     | HashNode h \<Rightarrow>
         (case resolveHash D h pre of
            Inl e \<Rightarrow> Inl e
          | Inr rn \<Rightarrow>
              (case trie_delete fuel D rn pre key of
                 Inl e \<Rightarrow> Inl e
               | Inr (dirty, nn) \<Rightarrow> if dirty then Inr (True, nn) else Inr (False, rn))))"

definition set_root :: "Trie \<Rightarrow> trie_error + bool \<times> Node \<Rightarrow> Trie \<times> trie_error option" where
  "set_root t r = (case r of Inl e \<Rightarrow> (t, Some e) | Inr (_, n) \<Rightarrow> (t\<lparr>root := n\<rparr>, None))"

definition TryUpdate :: "byte list \<Rightarrow> byte list \<Rightarrow> Trie \<Rightarrow> Trie \<times> trie_error option" where
  "TryUpdate key v t =
    (let t = t\<lparr>unhashed := unhashed t + 1\<rparr>; k = keybytesToHex key
     in if v \<noteq> [] then set_root t (trie_insert (trie_fuel k) (Db t) (root t) [] k (ValueNode v))
        else set_root t (trie_delete (trie_fuel k) (Db t) (root t) [] k))"

definition TryDelete :: "byte list \<Rightarrow> Trie \<Rightarrow> Trie \<times> trie_error option" where
  "TryDelete key t =
    (let t = t\<lparr>unhashed := unhashed t + 1\<rparr>; k = keybytesToHex key
     in set_root t (trie_delete (trie_fuel k) (Db t) (root t) [] k))"

declare tryGet.simps [simp del] trie_insert.simps [simp del] trie_delete.simps [simp del]

end
