(* ===== verification/Trie_Spec.thy ===== *)
theory Trie_Spec
  imports Trie_Encoding
begin

text \<open>
  What a trie is, without caches and database: a finite map from keys to values in the one shape that
  the operations of \<^verbatim>\<open>src/trie/trie.go\<close> keep. \<open>put\<close> and \<open>del\<close> are the reference for insertion and
  deletion, \<open>canon\<close> is the shape, and a canonical trie is determined by its content.
\<close>

section \<open>Tries\<close>

datatype ptrie = Empty | Leaf "byte list" | Ext "byte list" ptrie | Branch "ptrie list"

fun lookup :: "ptrie \<Rightarrow> byte list \<Rightarrow> byte list option" where
  "lookup Empty k = None"
| "lookup (Leaf v) k = (if k = [] then Some v else None)"
| "lookup (Ext p t) k = (if take (length p) k = p then lookup t (drop (length p) k) else None)"
| "lookup (Branch ts) [] = None"
| "lookup (Branch ts) (a # k) = (if unat a < length ts then lookup (ts ! unat a) k else None)"

definition graft :: "byte list \<Rightarrow> ptrie \<Rightarrow> ptrie" where
  "graft p t = (if p = [] then t else Ext p t)"

definition fork :: "byte list \<Rightarrow> ptrie \<Rightarrow> byte list \<Rightarrow> ptrie \<Rightarrow> ptrie" where
  "fork p t k u = Branch ((replicate 17 Empty)
     [unat (hd p) := graft (tl p) t, unat (hd k) := graft (tl k) u])"

fun put :: "ptrie \<Rightarrow> byte list \<Rightarrow> byte list \<Rightarrow> ptrie" where
  "put t [] v = Leaf v"
| "put Empty k v = Ext k (Leaf v)"
| "put (Leaf w) k v = Leaf w"
| "put (Ext p t) k v =
    (let m = prefixLen k p
     in if m = length p then Ext p (put t (drop m k) v)
        else graft (take m k) (fork (drop m p) t (drop m k) (Leaf v)))"
| "put (Branch ts) (a # k) v =
    (if unat a < length ts then Branch (ts[unat a := put (ts ! unat a) k v]) else Branch ts)"

fun join :: "byte list \<Rightarrow> ptrie \<Rightarrow> ptrie" where
  "join p (Ext q t) = Ext (p @ q) t"
| "join p t = Ext p t"

definition live :: "ptrie list \<Rightarrow> nat list" where
  "live ts = filter (\<lambda>i. ts ! i \<noteq> Empty) [0..<length ts]"

definition shrink :: "ptrie list \<Rightarrow> ptrie" where
  "shrink ts = (case live ts of [i] \<Rightarrow> join [of_nat i] (ts ! i) | _ \<Rightarrow> Branch ts)"

fun del :: "ptrie \<Rightarrow> byte list \<Rightarrow> ptrie" where
  "del Empty k = Empty"
| "del (Leaf v) k = Empty"
| "del (Ext p t) k =
    (let m = prefixLen k p
     in if m < length p then Ext p t
        else if m = length k then Empty
        else join p (del t (drop m k)))"
| "del (Branch ts) [] = Branch ts"
| "del (Branch ts) (a # k) =
    (if unat a < length ts then shrink (ts[unat a := del (ts ! unat a) k]) else Branch ts)"

section \<open>The canonical shape\<close>

definition term_key :: "byte list \<Rightarrow> bool" where
  "term_key k \<longleftrightarrow> (\<exists>ns. nibbles ns \<and> k = ns @ [16])"

fun is_Leaf :: "ptrie \<Rightarrow> bool" where
  "is_Leaf (Leaf v) = (v \<noteq> [])"
| "is_Leaf _ = False"

fun is_Branch :: "ptrie \<Rightarrow> bool" where
  "is_Branch (Branch ts) = True"
| "is_Branch _ = False"

lemma size_take [termination_simp]: "t \<in> set (take n ts) \<Longrightarrow> size t < Suc (size_list size ts)"
  by (meson in_set_takeD le_imp_less_Suc order.refl size_list_estimation')

fun ctrie :: "ptrie \<Rightarrow> bool" where
  "ctrie (Ext p t) = (p \<noteq> [] \<and> (nibbles p \<and> is_Branch t \<and> ctrie t \<or> term_key p \<and> is_Leaf t))"
| "ctrie (Branch ts) = (length ts = 17 \<and> (\<forall>t\<in>set (take 16 ts). t = Empty \<or> ctrie t)
     \<and> (ts ! 16 = Empty \<or> is_Leaf (ts ! 16)) \<and> 2 \<le> length (live ts))"
| "ctrie _ = False"

definition canon :: "ptrie \<Rightarrow> bool" where
  "canon t \<longleftrightarrow> t = Empty \<or> ctrie t"

text \<open>A subtrie and the rest of a key that leads into it: at a value the key is used up.\<close>

definition leads :: "ptrie \<Rightarrow> byte list \<Rightarrow> bool" where
  "leads t k \<longleftrightarrow> term_key k \<and> canon t \<or> k = [] \<and> (t = Empty \<or> is_Leaf t)"

section \<open>Keys\<close>

lemma term_key_simps [simp]:
  "\<not> term_key []" "term_key (a # k) \<longleftrightarrow> a < 16 \<and> term_key k \<or> a = 16 \<and> k = []"
proof -
  show "\<not> term_key []" by (simp add: term_key_def)
  show "term_key (a # k) \<longleftrightarrow> a < 16 \<and> term_key k \<or> a = 16 \<and> k = []"
  proof
    assume "term_key (a # k)"
    then obtain ns where "nibbles ns" "a # k = ns @ [16]" by (auto simp: term_key_def)
    then show "a < 16 \<and> term_key k \<or> a = 16 \<and> k = []" by (cases ns) (auto simp: term_key_def)
  next
    assume "a < 16 \<and> term_key k \<or> a = 16 \<and> k = []"
    then show "term_key (a # k)"
      by (auto simp: term_key_def intro: exI [of _ "[]"])
  qed
qed

lemma term_key_append: "nibbles p \<Longrightarrow> term_key (p @ k) \<longleftrightarrow> term_key k"
  by (induction p) auto

lemma term_key_prefix: "term_key p \<Longrightarrow> term_key (p @ r) \<Longrightarrow> r = []"
  by (induction p) auto

lemma term_key_hd: "term_key k \<Longrightarrow> unat (hd k) < 17"
  by (cases k) (auto simp: word_less_nat_alt)

lemma term_key_byte: "term_key (a # k) \<Longrightarrow> unat a < 17"
  by (auto simp: word_less_nat_alt)

lemma term_key_elem: "x \<in> set p \<Longrightarrow> nibbles p \<or> term_key p \<Longrightarrow> x < 16 \<or> x = 16"
  by (auto simp: nibbles_def term_key_def)

lemma keybytesToHex_term: "term_key (keybytesToHex str)"
  by (auto simp: term_key_def keybytesToHex_eq)

text \<open>A key that leaves a prefix does so before the end of both.\<close>

lemma prefixLen_inside:
  assumes "term_key k" and "nibbles p \<or> term_key p" and "prefixLen k p \<noteq> length p"
  shows "prefixLen k p < length p" and "prefixLen k p < length k" and "nibbles (take (prefixLen k p) k)"
proof -
  show lt: "prefixLen k p < length p" using assms(3) prefixLen_le(2) [of k p] by simp
  show "prefixLen k p < length k"
  proof (rule ccontr)
    assume "\<not> ?thesis"
    then have m: "prefixLen k p = length k" using prefixLen_le(1) [of k p] by simp
    then have "p = k @ drop (length k) p" using prefixLen_take [of k p] by (metis append_take_drop_id take_all order.refl)
    then have "nibbles k \<or> drop (length k) p = []" using assms(1,2) term_key_prefix by (metis nibbles_simps(3))
    then show False using assms(1) lt m by (auto simp: term_key_def)
  qed
  then have "take (prefixLen k p) k = take (prefixLen k p) (butlast k)" using assms(1) by (auto simp: term_key_def)
  then show "nibbles (take (prefixLen k p) k)" using assms(1) by (auto simp: term_key_def)
qed

section \<open>Children\<close>

lemma ctrie_child:
  assumes "ctrie (Branch ts)" and "unat a < 17" and "term_key (a # k)"
  shows "leads (ts ! unat a) k"
proof (cases "a = 16")
  case True
  then show ?thesis using assms by (auto simp: leads_def)
next
  case False
  then have a: "unat a < 16" "term_key k" using assms(3) by (auto simp: word_less_nat_alt)
  then have "ts ! unat a \<in> set (take 16 ts)" using assms(1) by (auto simp: in_set_conv_nth intro!: exI [of _ "unat a"])
  then show ?thesis using assms(1) a by (auto simp: leads_def canon_def)
qed

lemma leads_Branch: "leads (Branch ts) k \<Longrightarrow> \<exists>a r. k = a # r \<and> ctrie (Branch ts) \<and> unat a < 17 \<and> length ts = 17 \<and> leads (ts ! unat a) r"
proof -
  assume f: "leads (Branch ts) k"
  then have k: "term_key k" and c: "ctrie (Branch ts)" by (auto simp: leads_def canon_def)
  then obtain a r where r: "k = a # r" by (cases k) auto
  then have "unat a < 17" using k term_key_byte by blast
  then show ?thesis using ctrie_child [OF c _ k [unfolded r]] c r by auto
qed

lemma leads_Ext:
  assumes "leads (Ext p t) k" and "k = p @ r"
  shows "leads t r" and "nibbles p \<and> is_Branch t \<and> ctrie t \<and> term_key r \<or> term_key p \<and> is_Leaf t \<and> r = []"
  using assms term_key_append term_key_prefix by (auto simp: leads_def canon_def)

section \<open>Lookup after insertion\<close>

lemma lookup_graft: "lookup (graft p t) k = (if take (length p) k = p then lookup t (drop (length p) k) else None)"
  by (simp add: graft_def)

lemma lookup_fork:
  assumes "unat (hd p) < 17" and "unat (hd k) < 17"
  shows "lookup (fork p t k u) (c # r) =
    (if c = hd k then lookup (graft (tl k) u) r else if c = hd p then lookup (graft (tl p) t) r else None)"
  using assms by (auto simp: fork_def nth_list_update word_unat_eq_iff simp del: replicate.simps)

lemma lookup_fork_graft:
  assumes "p \<noteq> []" and "k \<noteq> []" and "unat (hd p) < 17" and "unat (hd k) < 17" and "hd p \<noteq> hd k"
  shows "lookup (fork p t k u) s = (if take (length k) s = k then lookup u (drop (length k) s) else lookup (Ext p t) s)"
proof (cases s)
  case Nil
  then show ?thesis using assms(1,2) by (simp add: fork_def)
next
  case (Cons c r)
  obtain a p' b k' where "p = a # p'" "k = b # k'" using assms(1,2) by (cases p; cases k) auto
  then show ?thesis using assms(3-5) unfolding Cons by (simp add: lookup_fork lookup_graft)
qed

lemma take_split:
  assumes "m \<le> length p"
  shows "take (length p) s = p \<longleftrightarrow> take m s = take m p \<and> take (length p - m) (drop m s) = drop m p"
proof
  assume "take (length p) s = p"
  then show "take m s = take m p \<and> take (length p - m) (drop m s) = drop m p"
    by (metis drop_take min.absorb1 take_take assms)
next
  assume "take m s = take m p \<and> take (length p - m) (drop m s) = drop m p"
  then show "take (length p) s = p" using assms by (metis append_take_drop_id le_add_diff_inverse take_add)
qed

lemma lookup_Ext_split:
  "m \<le> length p \<Longrightarrow> lookup (Ext p t) s = (if take m s = take m p then lookup (Ext (drop m p) t) (drop m s) else None)"
  using take_split [of m p s] by (simp add: add.commute)

lemma put_Ext:
  "p @ r \<noteq> [] \<Longrightarrow> put (Ext p t) (p @ r) v = Ext p (put t r v)"
  "k \<noteq> [] \<Longrightarrow> prefixLen k p \<noteq> length p \<Longrightarrow> put (Ext p t) k v =
    graft (take (prefixLen k p) k) (fork (drop (prefixLen k p) p) t (drop (prefixLen k p) k) (Leaf v))"
proof -
  assume "p @ r \<noteq> []"
  then obtain a k where k: "p @ r = a # k" by (cases "p @ r") auto
  have "prefixLen (p @ r) p = length p" using prefixLen_full by blast
  then show "put (Ext p t) (p @ r) v = Ext p (put t r v)" by (simp add: k) (metis append_eq_conv_conj k)
next
  assume "k \<noteq> []" "prefixLen k p \<noteq> length p"
  then show "put (Ext p t) k v = graft (take (prefixLen k p) k) (fork (drop (prefixLen k p) p) t (drop (prefixLen k p) k) (Leaf v))"
    by (cases k) (simp_all add: Let_def)
qed

lemma put_Ext_diverge:
  assumes k: "term_key k" and s: "term_key s" and p: "nibbles p \<or> term_key p" and d: "prefixLen k p \<noteq> length p"
  shows "lookup (graft (take (prefixLen k p) k) (fork (drop (prefixLen k p) p) t (drop (prefixLen k p) k) (Leaf v))) s =
    (if s = k then Some v else lookup (Ext p t) s)"
proof -
  let ?m = "prefixLen k p"
  note m = prefixLen_inside [OF k p d]
  have e: "take ?m p = take ?m k" using prefixLen_take [of k p] by simp
  have hk: "hd (drop ?m k) = k ! ?m" "hd (drop ?m p) = p ! ?m" using m by (simp_all add: hd_drop_conv_nth)
  have "term_key (drop ?m k)" using k m(3) term_key_append by (metis append_take_drop_id)
  then have u: "unat (hd (drop ?m k)) < 17" by (rule term_key_hd)
  have "p ! ?m < 16 \<or> p ! ?m = 16" by (rule term_key_elem [OF nth_mem [OF m(1)] p])
  then have w: "unat (hd (drop ?m p)) < 17" unfolding hk by (auto simp: word_less_nat_alt)
  have f: "lookup (fork (drop ?m p) t (drop ?m k) (Leaf v)) (drop ?m s) =
      (if take (length k - ?m) (drop ?m s) = drop ?m k then lookup (Leaf v) (drop (length k) s) else lookup (Ext (drop ?m p) t) (drop ?m s))"
    using lookup_fork_graft [OF _ _ w u] m prefixLen_differ [OF m(2,1)] hk by (simp add: add.commute)
  have sk: "take (length k) s = k \<longleftrightarrow> s = k" using k s term_key_prefix by (metis append_Nil2 append_take_drop_id order.refl take_all)
  have "take (length k) s = k \<longleftrightarrow> take ?m s = take ?m k \<and> take (length k - ?m) (drop ?m s) = drop ?m k"
    using m(2) by (intro take_split) simp
  then show ?thesis
    using f sk e lookup_Ext_split [of ?m p t s] m prefixLen_le(1) [of k p] by (auto simp: lookup_graft)
qed

lemma lookup_put:
  "leads t k \<Longrightarrow> leads t s \<Longrightarrow> lookup (put t k v) s = (if s = k then Some v else lookup t s)"
proof (induction t k v arbitrary: s rule: put.induct)
  case (1 t v)
  then show ?case by (cases t) (auto simp: leads_def canon_def)
next
  case (2 a k v)
  have "take (length (a # k)) s = a # k \<and> drop (length (a # k)) s = [] \<longleftrightarrow> s = a # k"
    by (metis append_Nil2 append_take_drop_id order.refl take_all drop_all)
  then show ?case by auto
next
  case (3 w a k v)
  then show ?case by (auto simp: leads_def canon_def)
next
  case (4 p t a k v)
  let ?k = "a # k"
  have c: "term_key ?k" "term_key s" "nibbles p \<or> term_key p" using 4(2,3) by (auto simp: leads_def canon_def)
  show ?case
  proof (cases "prefixLen ?k p = length p")
    case True
    then obtain r where r: "?k = p @ r" using prefixLen_full by blast
    have IH: "lookup (put t r v) s' = (if s' = r then Some v else lookup t s')" if "leads t s'" for s'
      using 4(1) [OF refl True] leads_Ext(1) [OF 4(2) r] that r True by auto
    have "put (Ext p t) ?k v = Ext p (put t r v)" unfolding r by (rule put_Ext) (simp flip: r)
    moreover have "lookup (Ext p (put t r v)) s = (if s = p @ r then Some v else lookup (Ext p t) s)"
    proof (cases "take (length p) s = p")
      case True
      then obtain s' where s': "s = p @ s'" by (metis append_take_drop_id)
      then show ?thesis using IH [OF leads_Ext(1) [OF 4(3) s']] by simp
    qed auto
    ultimately show ?thesis using r by simp
  next
    case False
    then show ?thesis using put_Ext_diverge [OF c False, of t v] put_Ext(2) [OF _ False] by simp
  qed
next
  case (5 ts a k v)
  then obtain b r where s: "s = b # r" and f: "ctrie (Branch ts)" "unat b < 17" "length ts = 17" "leads (ts ! unat b) r"
    using leads_Branch by blast
  have "unat a < 17" "leads (ts ! unat a) k" using leads_Branch [OF 5(2)] by auto
  then show ?case using 5(1) f s by (auto simp: nth_list_update word_unat_eq_iff)
qed

section \<open>Insertion keeps the shape\<close>

definition edge :: "byte list \<Rightarrow> ptrie \<Rightarrow> bool" where
  "edge p t \<longleftrightarrow> nibbles p \<and> is_Branch t \<and> ctrie t \<or> term_key p \<and> is_Leaf t"

lemma ctrie_Ext: "ctrie (Ext p t) \<longleftrightarrow> p \<noteq> [] \<and> edge p t"
  by (auto simp: edge_def)

lemma edge_Nil [simp]: "edge [] t \<longleftrightarrow> is_Branch t \<and> ctrie t"
  by (auto simp: edge_def)

text \<open>What is left of an edge after its first nibble is a child of a branch.\<close>

definition child_ok :: "byte \<Rightarrow> ptrie \<Rightarrow> bool" where
  "child_ok a t \<longleftrightarrow> (if a = 16 then is_Leaf t else a < 16 \<and> ctrie t)"

lemma child_ok_Empty: "child_ok a t \<Longrightarrow> t \<noteq> Empty"
  by (cases t) (auto simp: child_ok_def split: if_splits)

lemma edge_child: "edge (a # p) t \<Longrightarrow> child_ok a (graft p t)"
  by (auto simp: edge_def graft_def child_ok_def split: if_splits)

lemma edge_drop: "edge p t \<Longrightarrow> nibbles (take m p) \<Longrightarrow> m < length p \<Longrightarrow> edge (drop m p) t"
  unfolding edge_def by (metis append_take_drop_id nibbles_simps(3) term_key_append)

definition live_set :: "ptrie list \<Rightarrow> nat set" where
  "live_set ts = {i. i < length ts \<and> ts ! i \<noteq> Empty}"

lemma set_live: "set (live ts) = live_set ts"
  by (auto simp: live_def live_set_def)

lemma distinct_live: "distinct (live ts)"
  by (simp add: live_def)

lemma length_live: "length (live ts) = card (live_set ts)"
  using distinct_card [OF distinct_live] set_live by metis

lemma finite_live: "finite (live_set ts)"
  by (simp add: live_set_def)

text \<open>A branch, by the positions of its children.\<close>

lemma ctrie_Branch:
  "ctrie (Branch ts) \<longleftrightarrow> length ts = 17 \<and> (\<forall>a. unat a \<in> live_set ts \<longrightarrow> child_ok a (ts ! unat a)) \<and> 2 \<le> card (live_set ts)"
proof -
  have "(\<forall>t\<in>set (take 16 ts). t = Empty \<or> ctrie t) \<and> (ts ! 16 = Empty \<or> is_Leaf (ts ! 16)) \<longleftrightarrow>
      (\<forall>a. unat a \<in> live_set ts \<longrightarrow> child_ok a (ts ! unat a))" if l: "length ts = 17"
  proof (intro iffI conjI ballI allI impI)
    fix a :: byte assume *: "(\<forall>t\<in>set (take 16 ts). t = Empty \<or> ctrie t) \<and> (ts ! 16 = Empty \<or> is_Leaf (ts ! 16))" and a: "unat a \<in> live_set ts"
    show "child_ok a (ts ! unat a)"
    proof (cases "a = 16")
      case False
      then have "unat a \<noteq> 16" by (auto simp: word_unat_eq_iff)
      then have u: "unat a < 16" using a l by (simp add: live_set_def)
      then have "ts ! unat a \<in> set (take 16 ts)" using l by (auto simp: in_set_conv_nth intro!: exI [of _ "unat a"])
      then show ?thesis using * a u False by (auto simp: live_set_def child_ok_def word_less_nat_alt)
    qed (use * a in \<open>auto simp: live_set_def child_ok_def\<close>)
  next
    fix t assume *: "\<forall>a. unat a \<in> live_set ts \<longrightarrow> child_ok a (ts ! unat a)" and "t \<in> set (take 16 ts)"
    then obtain i where i: "i < 16" "t = ts ! i" by (auto simp: in_set_conv_nth)
    then have "unat (of_nat i :: byte) = i" by (simp add: unsigned_of_nat take_bit_nat_eq_self)
    moreover have "(of_nat i :: byte) \<noteq> 16" using calculation i by auto
    ultimately show "t = Empty \<or> ctrie t" using * [THEN spec, of "of_nat i"] i l by (auto simp: live_set_def child_ok_def)
  next
    assume *: "\<forall>a. unat a \<in> live_set ts \<longrightarrow> child_ok a (ts ! unat a)"
    show "ts ! 16 = Empty \<or> is_Leaf (ts ! 16)" using * [THEN spec, of 16] l by (auto simp: live_set_def child_ok_def)
  qed
  then show ?thesis by (auto simp: length_live)
qed

lemma ctrie_update:
  assumes "ctrie (Branch ts)" and "unat a < 17" and "child_ok a t"
  shows "ctrie (Branch (ts[unat a := t]))"
proof -
  have l: "length ts = 17" using assms(1) by simp
  have s: "live_set ts \<subseteq> live_set (ts[unat a := t])"
    using l assms(2) child_ok_Empty [OF assms(3)] by (auto simp: live_set_def nth_list_update)
  have "child_ok b (ts[unat a := t] ! unat b)" if "unat b \<in> live_set (ts[unat a := t])" for b
  proof (cases "b = a")
    case False
    then have "unat a \<noteq> unat b" by (simp add: word_unat_eq_iff)
    then show ?thesis using that assms(1) by (simp add: ctrie_Branch live_set_def del: ctrie.simps)
  qed (use assms l in simp)
  moreover have "2 \<le> card (live_set (ts[unat a := t]))"
    using card_mono [OF finite_live s] assms(1) by (simp add: length_live)
  ultimately show ?thesis using l by (simp add: ctrie_Branch del: ctrie.simps)
qed

lemma ctrie_fork:
  assumes "edge p t" and "edge k u" and "p \<noteq> []" and "k \<noteq> []" and "hd p \<noteq> hd k"
  shows "ctrie (fork p t k u)"
proof -
  obtain a p' b k' where pk: "p = a # p'" "k = b # k'" using assms(3,4) by (cases p; cases k) auto
  have c: "child_ok a (graft p' t)" "child_ok b (graft k' u)" using assms(1,2) edge_child pk by auto
  have n: "unat a < 17" "unat b < 17" "unat a \<noteq> unat b"
    using c assms(5) pk by (auto simp: child_ok_def word_less_nat_alt word_unat_eq_iff split: if_splits)
  let ?ts = "(replicate 17 Empty)[unat a := graft p' t, unat b := graft k' u]"
  have s: "live_set ?ts = {unat a, unat b}"
    using n child_ok_Empty [OF c(1)] child_ok_Empty [OF c(2)]
    by (auto simp: live_set_def nth_list_update simp del: replicate.simps split: if_splits)
  have "child_ok d (?ts ! unat d)" if "unat d \<in> live_set ?ts" for d
    using that c n unfolding s by (auto simp: nth_list_update word_unat_eq_iff [symmetric] simp del: replicate.simps)
  then show ?thesis using s n by (simp add: fork_def pk ctrie_Branch del: ctrie.simps replicate.simps)
qed

lemma is_Branch_fork [simp]: "is_Branch (fork p t k u)"
  by (simp add: fork_def)

lemma leads_edge: "leads (Ext p t) k \<Longrightarrow> p \<noteq> [] \<and> edge p t \<and> term_key k"
  by (auto simp: leads_def canon_def edge_def)

lemma put_shape:
  "leads t k \<Longrightarrow> v \<noteq> [] \<Longrightarrow> k \<noteq> [] \<Longrightarrow> ctrie (put t k v) \<and> (is_Branch t \<longrightarrow> is_Branch (put t k v))"
proof (induction t k v rule: put.induct)
  case (2 a k v)
  then show ?case by (simp add: leads_def)
next
  case (3 w a k v)
  then show ?case by (auto simp: leads_def canon_def)
next
  case (4 p t a k v)
  let ?k = "a # k" and ?m = "prefixLen (a # k) p"
  have e: "p \<noteq> []" "edge p t" "term_key ?k" using leads_edge [OF 4(2)] by auto
  show ?case
  proof (cases "?m = length p")
    case True
    then obtain r where r: "?k = p @ r" using prefixLen_full by blast
    have f: "leads t r" "nibbles p \<and> is_Branch t \<and> ctrie t \<and> term_key r \<or> term_key p \<and> is_Leaf t \<and> r = []"
      using leads_Ext [OF 4(2) r] .
    have "put (Ext p t) ?k v = Ext p (put t r v)" unfolding r by (rule put_Ext) (simp flip: r)
    moreover have "edge p (put t r v)"
      using f 4(1) [OF refl True] 4(3) r True by (cases "r = []") (auto simp: edge_def)
    ultimately show ?thesis using e by (simp add: ctrie_Ext del: ctrie.simps)
  next
    case False
    have p: "nibbles p \<or> term_key p" using e(2) by (auto simp: edge_def)
    note m = prefixLen_inside [OF e(3) p False]
    have n: "nibbles (take ?m p)" using m(3) prefixLen_take [of ?k p] by simp
    have "term_key (drop ?m ?k)" using e(3) m(3) term_key_append by (metis append_take_drop_id)
    then have "edge (drop ?m ?k) (Leaf v)" using 4(3) by (simp add: edge_def)
    moreover have "hd (drop ?m p) \<noteq> hd (drop ?m ?k)" using prefixLen_differ [OF m(2,1)] m by (simp add: hd_drop_conv_nth)
    ultimately have c: "ctrie (fork (drop ?m p) t (drop ?m ?k) (Leaf v))"
      using edge_drop [OF e(2) n m(1)] m by (intro ctrie_fork) auto
    show ?thesis unfolding put_Ext(2) [OF list.simps(3) False] using c m(3) by (cases "?m = 0") (simp_all add: graft_def)
  qed
next
  case (5 ts a k v)
  obtain f: "ctrie (Branch ts)" "unat a < 17" "length ts = 17" "leads (ts ! unat a) k" using leads_Branch [OF 5(2)] by auto
  have "term_key (a # k)" using 5(2) by (auto simp: leads_def)
  then have "child_ok a (put (ts ! unat a) k v)" using 5(1,3) f by (cases "k = []") (auto simp: child_ok_def)
  then show ?case using ctrie_update [OF f(1,2)] f by (simp del: ctrie.simps)
qed auto

section \<open>Lookup after deletion\<close>

lemma lookup_join: "lookup (join p t) s = lookup (Ext p t) s"
proof (cases t)
  case (Ext q u)
  have "take (length (p @ q)) s = p @ q \<longleftrightarrow> take (length p) s = p \<and> take (length q) (drop (length p) s) = q"
    using take_split [of "length p" "p @ q" s] by simp
  then show ?thesis using Ext by (simp add: add.commute)
qed simp_all

lemma live_single: "live ts = [i] \<Longrightarrow> i < length ts \<and> ts ! i \<noteq> Empty \<and> (\<forall>j<length ts. j \<noteq> i \<longrightarrow> ts ! j = Empty)"
  using set_live [of ts] by (auto simp: live_set_def)

lemma lookup_shrink:
  assumes "length ts = 17"
  shows "lookup (shrink ts) s = lookup (Branch ts) s"
proof (cases "\<exists>i. live ts = [i]")
  case True
  then obtain i where i: "live ts = [i]" by blast
  note l = live_single [OF i]
  then have u: "unat (of_nat i :: byte) = i" using assms by (simp add: unsigned_of_nat take_bit_nat_eq_self)
  show ?thesis
  proof (cases s)
    case (Cons c r)
    have "c = of_nat i \<longleftrightarrow> unat c = i" using u by (metis word_unat_eq_iff)
    then show ?thesis using l assms Cons i by (auto simp: shrink_def lookup_join)
  qed (use i in \<open>simp add: shrink_def lookup_join\<close>)
next
  case False
  then have "shrink ts = Branch ts" by (auto simp: shrink_def split: list.split)
  then show ?thesis by simp
qed

lemma lookup_del:
  "leads t k \<Longrightarrow> leads t s \<Longrightarrow> lookup (del t k) s = (if s = k then None else lookup t s)"
proof (induction t k arbitrary: s rule: del.induct)
  case (3 p t k)
  have e: "p \<noteq> []" "edge p t" "term_key k" "term_key s" using leads_edge 3(2,3) by blast+
  show ?case
  proof (cases "prefixLen k p < length p")
    case True
    then have "take (length p) k \<noteq> p" using prefixLen_full [of k p] by (metis append_take_drop_id nat_neq_iff)
    then show ?thesis using True by auto
  next
    case False
    then have m: "prefixLen k p = length p" using prefixLen_le(2) [of k p] by simp
    then obtain r where r: "k = p @ r" using prefixLen_full by blast
    show ?thesis
    proof (cases "r = []")
      case True
      then have "term_key p" "is_Leaf t" using e r by (auto simp: edge_def term_key_def)
      moreover have "del (Ext p t) k = Empty" using r True m by simp
      ultimately show ?thesis using True r e by (cases t) auto
    next
      case nil: False
      have IH: "lookup (del t r) s' = (if s' = r then None else lookup t s')" if "leads t s'" for s'
        using 3(1) [OF refl] leads_Ext(1) [OF 3(2) r] that r m nil by auto
      have d: "del (Ext p t) k = join p (del t r)" using r m nil by simp
      show ?thesis
      proof (cases "take (length p) s = p")
        case True
        then obtain s' where s': "s = p @ s'" by (metis append_take_drop_id)
        then show ?thesis using IH [OF leads_Ext(1) [OF 3(3) s']] d r by (simp add: lookup_join)
      qed (use d r in \<open>auto simp: lookup_join\<close>)
    qed
  qed
next
  case (5 ts a k)
  then obtain b r where s: "s = b # r" and f: "ctrie (Branch ts)" "unat b < 17" "length ts = 17" "leads (ts ! unat b) r"
    using leads_Branch by blast
  have "unat a < 17" "leads (ts ! unat a) k" using leads_Branch [OF 5(2)] by auto
  then show ?case using 5(1) f s by (auto simp: nth_list_update word_unat_eq_iff lookup_shrink)
qed (auto simp: leads_def canon_def)

section \<open>Deletion keeps the shape\<close>

lemma edge_join: "nibbles p \<Longrightarrow> p \<noteq> [] \<Longrightarrow> ctrie t \<Longrightarrow> ctrie (join p t)"
  by (cases t) (auto simp: term_key_append)

lemma ctrie_shrink:
  assumes "length ts = 17" and "\<forall>a. unat a \<in> live_set ts \<longrightarrow> child_ok a (ts ! unat a)" and "live_set ts \<noteq> {}"
  shows "ctrie (shrink ts)"
proof (cases "\<exists>i. live ts = [i]")
  case True
  then obtain i where i: "live ts = [i]" by blast
  note l = live_single [OF i]
  then have u: "unat (of_nat i :: byte) = i" using assms(1) by (simp add: unsigned_of_nat take_bit_nat_eq_self)
  then have "child_ok (of_nat i) (ts ! i)" using assms(2) [THEN spec, of "of_nat i"] l by (simp add: live_set_def)
  then show ?thesis using i edge_join [of "[of_nat i]" "ts ! i"]
    by (cases "ts ! i") (auto simp: shrink_def child_ok_def split: if_splits)
next
  case False
  then have "shrink ts = Branch ts" by (auto simp: shrink_def split: list.split)
  moreover have "2 \<le> card (live_set ts)"
  proof (rule ccontr)
    assume "\<not> ?thesis"
    then have "card (live_set ts) = 1" using assms(3) finite_live by (metis One_nat_def Suc_1 card_0_eq less_2_cases not_le)
    then have "length (live ts) = 1" by (simp add: length_live)
    then show False using False by (auto simp: length_Suc_conv)
  qed
  ultimately show ?thesis using assms(1,2) by (simp add: ctrie_Branch del: ctrie.simps)
qed

lemma del_shape:
  "leads t k \<Longrightarrow> (del t k = Empty \<or> ctrie (del t k)) \<and> (is_Branch t \<longrightarrow> del t k \<noteq> Empty) \<and> (k = [] \<longrightarrow> del t k = Empty)"
proof (induction t k rule: del.induct)
  case (3 p t k)
  have e: "p \<noteq> []" "edge p t" "term_key k" using leads_edge 3(2) by blast+
  show ?case
  proof (cases "prefixLen k p < length p")
    case True
    then show ?thesis using e by (auto simp: ctrie_Ext simp del: ctrie.simps)
  next
    case False
    then have m: "prefixLen k p = length p" using prefixLen_le(2) [of k p] by simp
    then obtain r where r: "k = p @ r" using prefixLen_full by blast
    show ?thesis
    proof (cases "r = []")
      case nil: False
      then have f: "leads t r" "nibbles p" "is_Branch t" using leads_Ext [OF 3(2) r] by auto
      have "del (Ext p t) k = join p (del t r)" using r m nil by simp
      moreover have "ctrie (del t r)" using 3(1) [OF refl] f r m nil by auto
      ultimately show ?thesis using edge_join [OF f(2) e(1)] e by auto
    qed (use r m e in auto)
  qed
next
  case (5 ts a k)
  obtain f: "ctrie (Branch ts)" "unat a < 17" "length ts = 17" "leads (ts ! unat a) k" using leads_Branch [OF 5(2)] by auto
  let ?ts = "ts[unat a := del (ts ! unat a) k]"
  have b: "2 \<le> card (live_set ts)" and ch: "\<And>b. unat b \<in> live_set ts \<Longrightarrow> child_ok b (ts ! unat b)"
    using f(1) unfolding ctrie_Branch by auto
  have "live_set ts - {unat a} \<subseteq> live_set ?ts" by (auto simp: live_set_def)
  moreover have "\<not> live_set ts \<subseteq> {unat a}" using b card_mono [of "{unat a}" "live_set ts"] by auto
  ultimately have ne: "live_set ?ts \<noteq> {}" by blast
  have k: "a < 16 \<and> term_key k \<or> a = 16 \<and> k = []" using 5(2) by (auto simp: leads_def)
  have "child_ok c (?ts ! unat c)" if "unat c \<in> live_set ?ts" for c
  proof (cases "c = a")
    case True
    then have "del (ts ! unat a) k \<noteq> Empty" using that f by (simp add: live_set_def)
    then show ?thesis using 5(1) [OF f(2) [folded f(3)] f(4)] k True f by (auto simp: child_ok_def)
  next
    case False
    then have "unat a \<noteq> unat c" by (simp add: word_unat_eq_iff)
    then show ?thesis using that ch [of c] by (simp add: live_set_def)
  qed
  then have c: "ctrie (shrink ?ts)" using f ne by (intro ctrie_shrink) auto
  then have "shrink ?ts \<noteq> Empty" by auto
  then show ?case using c f by simp
qed (auto simp: leads_def canon_def)

section \<open>The content determines a canonical trie\<close>

lemma ctrie_nonempty: "ctrie t \<or> is_Leaf t \<Longrightarrow> \<exists>k. lookup t k \<noteq> None"
proof (induction t)
  case (Leaf v)
  then show ?case by auto
next
  case (Ext p t)
  then obtain k where "lookup t k \<noteq> None" by auto
  then show ?case by (intro exI [of _ "p @ k"]) simp
next
  case (Branch ts)
  then have c: "length ts = 17" "2 \<le> card (live_set ts)" "\<And>a. unat a \<in> live_set ts \<Longrightarrow> child_ok a (ts ! unat a)"
    by (auto simp: ctrie_Branch simp del: ctrie.simps)
  then obtain i where i: "i \<in> live_set ts" by fastforce
  then have l: "i < 17" using c(1) by (simp add: live_set_def)
  then have u: "unat (of_nat i :: byte) = i" by (simp add: unsigned_of_nat take_bit_nat_eq_self)
  then have "ctrie (ts ! i) \<or> is_Leaf (ts ! i)" using c(3) [of "of_nat i"] i by (auto simp: child_ok_def split: if_splits)
  then obtain k where "lookup (ts ! i) k \<noteq> None" using Branch.IH [of "ts ! i"] l c(1) by auto
  then show ?case using l u c(1) by (intro exI [of _ "of_nat i # k"]) simp
qed simp

lemma Branch_diverges:
  assumes "ctrie (Branch ts)"
  shows "\<exists>a b r s. a \<noteq> b \<and> lookup (Branch ts) (a # r) \<noteq> None \<and> lookup (Branch ts) (b # s) \<noteq> None"
proof -
  have c: "length ts = 17" "2 \<le> card (live_set ts)" "\<And>a. unat a \<in> live_set ts \<Longrightarrow> child_ok a (ts ! unat a)"
    using assms by (auto simp: ctrie_Branch simp del: ctrie.simps)
  obtain i j where ij: "i \<in> live_set ts" "j \<in> live_set ts" "i \<noteq> j" using c(2) by (auto simp: card_le_Suc_iff numeral_2_eq_2)
  have *: "\<exists>k. lookup (Branch ts) ((of_nat n :: byte) # k) \<noteq> None" "unat (of_nat n :: byte) = n" if "n \<in> live_set ts" for n
  proof -
    have l: "n < 17" using that c(1) by (simp add: live_set_def)
    then show u: "unat (of_nat n :: byte) = n" by (simp add: unsigned_of_nat take_bit_nat_eq_self)
    then have "ctrie (ts ! n) \<or> is_Leaf (ts ! n)" using c(3) [of "of_nat n"] that by (auto simp: child_ok_def split: if_splits)
    then show "\<exists>k. lookup (Branch ts) ((of_nat n :: byte) # k) \<noteq> None" using ctrie_nonempty u l c(1) by simp
  qed
  have "(of_nat i :: byte) \<noteq> of_nat j" using *(2) ij by metis
  then show ?thesis using *(1) [OF ij(1)] *(1) [OF ij(2)] by blast
qed

lemma Ext_keys: "lookup (Ext p t) k \<noteq> None \<Longrightarrow> \<exists>r. k = p @ r \<and> lookup t r \<noteq> None"
  by (metis append_take_drop_id lookup.simps(3))

lemma Ext_at: "lookup (Ext p t) (p @ r) = lookup t r"
  by simp

text \<open>Above a branch, the key of an extension is the longest common prefix of the keys below.\<close>

lemma is_Branch_diverges:
  "is_Branch t \<Longrightarrow> ctrie t \<Longrightarrow> \<exists>a b r s. a \<noteq> b \<and> lookup t (a # r) \<noteq> None \<and> lookup t (b # s) \<noteq> None"
  by (cases t) (use Branch_diverges in \<open>auto simp del: ctrie.simps lookup.simps\<close>)

lemma Ext_prefix_le:
  assumes "is_Branch t" and "ctrie t" and "lookup (Ext p t) = lookup (Ext q u)"
  shows "\<exists>d. p = q @ d"
proof -
  obtain a b r s where d: "a \<noteq> b" "lookup t (a # r) \<noteq> None" "lookup t (b # s) \<noteq> None"
    using is_Branch_diverges [OF assms(1,2)] by blast
  have "lookup (Ext p t) (p @ a # r) \<noteq> None" "lookup (Ext p t) (p @ b # s) \<noteq> None" using d(2,3) by simp_all
  then obtain r' s' where k: "p @ a # r = q @ r'" "p @ b # s = q @ s'" using Ext_keys assms(3) by metis
  show ?thesis
  proof (rule ccontr)
    assume "\<not> ?thesis"
    then obtain c d where "q = p @ c # d"
      using k(1) by (metis append_eq_append_conv2 append_Nil2 neq_Nil_conv)
    then show False using k d(1) by simp
  qed
qed

lemma Ext_single: "is_Leaf t \<Longrightarrow> lookup (Ext p t) k \<noteq> None \<longleftrightarrow> k = p"
  by (cases t) (auto dest: Ext_keys)

lemma Ext_many: "is_Branch t \<Longrightarrow> ctrie t \<Longrightarrow> \<exists>k l. k \<noteq> l \<and> lookup (Ext p t) k \<noteq> None \<and> lookup (Ext p t) l \<noteq> None"
proof -
  assume "is_Branch t" "ctrie t"
  then obtain a b r s where "a \<noteq> b" "lookup t (a # r) \<noteq> None" "lookup t (b # s) \<noteq> None"
    using is_Branch_diverges by blast
  then show ?thesis by (intro exI [of _ "p @ a # r"] exI [of _ "p @ b # s"]) simp
qed

lemma Ext_same_key:
  assumes "edge p t" and "edge q w" and eq: "lookup (Ext p t) = lookup (Ext q w)"
  shows "p = q \<and> (ctrie t \<and> ctrie w \<or> is_Leaf t \<and> is_Leaf w)"
proof -
  consider "is_Branch t" "ctrie t" "is_Branch w" "ctrie w" | "is_Leaf t" "is_Leaf w"
    | "is_Branch t" "ctrie t" "is_Leaf w" | "is_Leaf t" "is_Branch w" "ctrie w"
    using assms(1,2) by (auto simp: edge_def)
  then show ?thesis
  proof cases
    case 1
    obtain d d' where "p = q @ d" "q = p @ d'" using Ext_prefix_le [OF 1(1,2) eq] Ext_prefix_le [OF 1(3,4) eq [symmetric]] by blast
    then show ?thesis using 1 by auto
  next
    case 2
    then show ?thesis using Ext_single [OF 2(1), of p p] Ext_single [OF 2(2), of q p] eq by simp
  next
    case 3
    then show ?thesis using Ext_many [OF 3(1,2), of p] Ext_single [OF 3(3), of q] eq by metis
  next
    case 4
    then show ?thesis using Ext_many [OF 4(2,3), of q] Ext_single [OF 4(1), of p] eq by metis
  qed
qed

lemma Branch_not_Ext: "ctrie (Branch ts) \<Longrightarrow> p \<noteq> [] \<Longrightarrow> lookup (Branch ts) \<noteq> lookup (Ext p t)"
proof
  assume c: "ctrie (Branch ts)" and p: "p \<noteq> []" and eq: "lookup (Branch ts) = lookup (Ext p t)"
  obtain a b r s where d: "a \<noteq> b" "lookup (Branch ts) (a # r) \<noteq> None" "lookup (Branch ts) (b # s) \<noteq> None"
    using Branch_diverges [OF c] by blast
  then obtain r' s' where "a # r = p @ r'" "b # s = p @ s'" using Ext_keys eq by metis
  then show False using p d(1) by (cases p) auto
qed

lemma child_ok_lookup: "child_ok a t \<Longrightarrow> lookup t \<noteq> lookup Empty"
  using ctrie_nonempty [of t] by (auto simp: child_ok_def split: if_splits)

lemma trie_unique:
  "ctrie t \<and> ctrie u \<or> is_Leaf t \<and> is_Leaf u \<Longrightarrow> lookup t = lookup u \<Longrightarrow> t = u"
proof (induction t arbitrary: u)
  case (Leaf v)
  then have "is_Leaf u" by auto
  then show ?case using fun_cong [OF Leaf.prems(2), of "[]"] by (cases u) auto
next
  case (Ext p t)
  then have c: "ctrie (Ext p t)" "ctrie u" by auto
  note eq = Ext.prems(2)
  show ?case
  proof (cases u)
    case u: (Ext q w)
    have e: "edge p t" "edge q w" using c u by (auto simp: edge_def)
    note s = Ext_same_key [OF e eq [unfolded u]]
    have "lookup t = lookup w" using Ext_at [of p t] Ext_at [of p w] eq u s by (metis ext)
    then show ?thesis using u s Ext.IH by blast
  next
    case (Branch us)
    then show ?thesis using Branch_not_Ext [of us p t] c eq by auto
  qed (use c in auto)
next
  case (Branch ts)
  then have c: "ctrie (Branch ts)" "ctrie u" by auto
  note eq = Branch.prems(2)
  show ?case
  proof (cases u)
    case (Ext q w)
    then show ?thesis using Branch_not_Ext [of ts q w] c eq by auto
  next
    case u: (Branch us)
    have l: "length ts = 17" "length us = 17" using c u by auto
    have "ts ! i = us ! i" if i: "i < 17" for i
    proof -
      have n: "unat (of_nat i :: byte) = i" using i by (simp add: unsigned_of_nat take_bit_nat_eq_self)
      have same: "lookup (ts ! i) = lookup (us ! i)"
        using fun_cong [OF eq, of "of_nat i # _"] n i l u by (intro ext) simp
      have ok: "child_ok (of_nat i) (ts ! i)" if "ts ! i \<noteq> Empty"
        using c(1) that n i unfolding ctrie_Branch by (auto simp: live_set_def dest: spec [of _ "of_nat i"])
      have ok': "child_ok (of_nat i) (us ! i)" if "us ! i \<noteq> Empty"
        using c(2) that n i unfolding u ctrie_Branch by (auto simp: live_set_def dest: spec [of _ "of_nat i"])
      have "ts ! i = Empty \<longleftrightarrow> us ! i = Empty"
        using same ok ok' child_ok_lookup by metis
      then show ?thesis using Branch.IH [of "ts ! i" "us ! i"] same ok ok' i l by (auto simp: child_ok_def split: if_splits)
    qed
    then show ?thesis using u l by (simp add: nth_equalityI)
  qed (use c in auto)
qed simp

lemma lookup_term: "ctrie t \<or> is_Leaf t \<Longrightarrow> lookup t k \<noteq> None \<Longrightarrow> (if is_Leaf t then k = [] else term_key k)"
proof (induction t arbitrary: k)
  case (Ext p t)
  then obtain r where r: "k = p @ r" "lookup t r \<noteq> None" using Ext_keys by blast
  have e: "edge p t" using Ext.prems(1) by (auto simp: edge_def)
  then have "if is_Leaf t then r = [] else term_key r" using Ext.IH [OF _ r(2)] by (auto simp: edge_def)
  then show ?case using e r(1) term_key_append by (cases t) (auto simp: edge_def)
next
  case (Branch ts)
  then obtain a r where r: "k = a # r" "unat a < length ts" "lookup (ts ! unat a) r \<noteq> None" by (cases k) (auto split: if_splits)
  then have "unat a \<in> live_set ts" by (auto simp: live_set_def)
  then have "child_ok a (ts ! unat a)" using Branch.prems(1) by (auto simp: ctrie_Branch simp del: ctrie.simps)
  moreover from this have "if is_Leaf (ts ! unat a) then r = [] else term_key r"
    using Branch.IH [OF nth_mem [OF r(2)] _ r(3)] by (auto simp: child_ok_def split: if_splits)
  moreover have "is_Leaf (ts ! unat a) \<Longrightarrow> \<not> ctrie (ts ! unat a)" by (cases "ts ! unat a") auto
  ultimately show ?case using r(1) by (auto simp: child_ok_def split: if_splits)
qed (auto split: if_splits)

lemma canon_lookup: "canon t \<Longrightarrow> lookup t k \<noteq> None \<Longrightarrow> term_key k"
  using lookup_term [of t k] by (cases t) (auto simp: canon_def)

lemma canon_put: "canon t \<Longrightarrow> term_key k \<Longrightarrow> v \<noteq> [] \<Longrightarrow> canon (put t k v)"
  using put_shape [of t k v] by (cases k) (auto simp: leads_def canon_def)

lemma canon_del: "canon t \<Longrightarrow> term_key k \<Longrightarrow> canon (del t k)"
  using del_shape [of t k] by (auto simp: leads_def canon_def)

lemma lookup_put_map: "canon t \<Longrightarrow> term_key k \<Longrightarrow> v \<noteq> [] \<Longrightarrow> lookup (put t k v) = (lookup t)(k \<mapsto> v)"
proof
  fix s assume a: "canon t" "term_key k" "v \<noteq> []"
  show "lookup (put t k v) s = ((lookup t)(k \<mapsto> v)) s"
  proof (cases "term_key s")
    case True
    then show ?thesis using lookup_put [of t k s v] a by (simp add: leads_def)
  next
    case False
    then have "lookup (put t k v) s = None" "lookup t s = None" "s \<noteq> k"
      using canon_lookup [of "put t k v" s] canon_lookup [of t s] canon_put [OF a] a by blast+
    then show ?thesis by simp
  qed
qed

lemma lookup_del_map: "canon t \<Longrightarrow> term_key k \<Longrightarrow> lookup (del t k) = (lookup t)(k := None)"
proof
  fix s assume a: "canon t" "term_key k"
  show "lookup (del t k) s = ((lookup t)(k := None)) s"
  proof (cases "term_key s")
    case True
    then show ?thesis using lookup_del [of t k s] a by (simp add: leads_def)
  next
    case False
    then have "lookup (del t k) s = None" "lookup t s = None"
      using canon_lookup [of "del t k" s] canon_lookup [of t s] canon_del [OF a] a by blast+
    then show ?thesis by simp
  qed
qed

lemma canon_unique: "canon t \<Longrightarrow> canon u \<Longrightarrow> lookup t = lookup u \<Longrightarrow> t = u"
  unfolding canon_def using trie_unique [of t u] ctrie_nonempty [of t] ctrie_nonempty [of u] by (metis lookup.simps(1))

end
