(* ===== verification/Trie_Refine.thy ===== *)
theory Trie_Refine
  imports Trie_Node Trie_Spec
begin

text \<open>
  The operations on nodes implement the reference tries: a node with the database behind it stands for a
  trie, and lookup, insertion and deletion follow \<open>lookup\<close>, \<open>put\<close> and \<open>del\<close>.
\<close>

section \<open>Nodes that stand for tries\<close>

fun inner_node :: "Node \<Rightarrow> bool" where
  "inner_node (ShortNode k n f) = True"
| "inner_node (FullNode cs f) = True"
| "inner_node _ = False"

text \<open>
  \<open>Q atop h t\<close> says which hashes may stand for a trie, as a reference or in the flags of a node; \<open>atop\<close> is true at the
  root.
\<close>

definition flag_ok :: "(bool \<Rightarrow> byte list \<Rightarrow> ptrie \<Rightarrow> bool) \<Rightarrow> bool \<Rightarrow> NodeFlag \<Rightarrow> ptrie \<Rightarrow> bool" where
  "flag_ok Q atop f t \<longleftrightarrow> (case flag_hash f of None \<Rightarrow> True | Some h \<Rightarrow> Q atop h t)"

lemma flag_ok_new [simp]: "flag_ok Q atop newFlag t"
  by (simp add: flag_ok_def newFlag_def)

inductive repr :: "(bool \<Rightarrow> byte list \<Rightarrow> ptrie \<Rightarrow> bool) \<Rightarrow> node_db \<Rightarrow> bool \<Rightarrow> Node \<Rightarrow> ptrie \<Rightarrow> bool" for Q D where
  rNil: "repr Q D atop NilNode Empty"
| rValue: "repr Q D atop (ValueNode v) (Leaf v)"
| rShort: "repr Q D False n t \<Longrightarrow> flag_ok Q atop f (Ext k t) \<Longrightarrow> repr Q D atop (ShortNode k n f) (Ext k t)"
| rFull: "list_all2 (repr Q D False) cs ts \<Longrightarrow> flag_ok Q atop f (Branch ts) \<Longrightarrow> repr Q D atop (FullNode cs f) (Branch ts)"
| rHash: "D (BytesToHash h) = Some n \<Longrightarrow> inner_node n \<Longrightarrow> Q atop h t \<Longrightarrow> repr Q D atop n t \<Longrightarrow> repr Q D atop (HashNode h) t"

inductive_simps repr_simps [simp]:
  "repr Q D atop NilNode t" "repr Q D atop (ValueNode v) t" "repr Q D atop (ShortNode k n f) t" "repr Q D atop (FullNode cs f) t"

inductive_cases repr_HashE: "repr Q D atop (HashNode h) t"

lemma repr_HashD:
  assumes "repr Q D atop (HashNode h) t"
  obtains n where "resolveHash D h pre = Inr n" and "inner_node n" and "repr Q D atop n t"
  using assms by (auto elim!: repr_HashE simp: resolveHash_def)

lemma repr_Empty: "repr Q D atop n Empty \<longleftrightarrow> n = NilNode"
proof
  assume "repr Q D atop n Empty"
  then show "n = NilNode"
  proof (cases n)
    case (HashNode h)
    then obtain m where "inner_node m" "repr Q D atop m Empty" using \<open>repr Q D atop n Empty\<close> repr_HashD by metis
    then show ?thesis by (cases m) auto
  qed auto
qed simp

lemma inner_not_Hash: "inner_node n \<Longrightarrow> n \<noteq> HashNode h"
  by auto

text \<open>The fuel a call needs for a node and the rest of the key.\<close>

definition need :: "Node \<Rightarrow> byte list \<Rightarrow> nat" where
  "need n k = 2 * length k + (case n of HashNode _ \<Rightarrow> 2 | _ \<Rightarrow> 1)"

lemma need_le: "need n k \<le> 2 * length k + 2"
  by (cases n) (simp_all add: need_def)

lemma need_inner: "inner_node n \<Longrightarrow> need n k = 2 * length k + 1"
  by (cases n) (simp_all add: need_def)

lemma fuel_Suc: "need n k \<le> fuel \<Longrightarrow> \<exists>f. fuel = Suc f"
  by (cases fuel; cases n) (simp_all add: need_def)

section \<open>Lookup\<close>

lemma tryGet_refines:
  "repr Q D atop n t \<Longrightarrow> leads t (drop pos key) \<Longrightarrow> pos \<le> length key \<Longrightarrow> need n (drop pos key) \<le> fuel \<Longrightarrow>
    \<exists>n' b. tryGet fuel D n key pos = Inr (lookup t (drop pos key), n', b) \<and> repr Q D atop n' t"
proof (induction fuel arbitrary: atop n t pos)
  case 0
  then show ?case using fuel_Suc by fastforce
next
  case (Suc fuel)
  note IH = Suc.IH
  show ?case
  proof (cases n)
    case NilNode
    then show ?thesis using Suc.prems by (simp add: tryGet.simps ex_bool_eq)
  next
    case (ValueNode v)
    then show ?thesis using Suc.prems by (auto simp: tryGet.simps leads_def canon_def ex_bool_eq)
  next
    case (ShortNode k val f)
    then obtain u where t: "t = Ext k u" "repr Q D False val u" "flag_ok Q atop f t" using Suc.prems(1) by auto
    show ?thesis
    proof (cases "take (length k) (drop pos key) = k")
      case False
      then show ?thesis using Suc.prems ShortNode t by (auto simp: tryGet.simps ex_bool_eq)
    next
      case True
      let ?r = "drop (pos + length k) key"
      have l: "pos + length k \<le> length key" using True Suc.prems(3) by (metis add.commute diff_diff_cancel length_drop length_take min_def nat_le_linear le_diff_conv2 trans_le_add2)
      have r: "drop pos key = k @ ?r" using True by (metis append_take_drop_id drop_drop add.commute)
      have "k \<noteq> []" using leads_edge Suc.prems(2) t(1) by blast
      then have "length ?r < length (drop pos key)" using arg_cong [OF r, of length] by (simp add: neq_Nil_conv)
      then have n: "need val ?r \<le> fuel"
        using Suc.prems(4) need_le [of val ?r] unfolding ShortNode need_def Node.case by linarith
      have "leads u ?r" using leads_Ext(1) Suc.prems(2) t(1) r by blast
      then obtain n' b where "tryGet fuel D val key (pos + length k) = Inr (lookup u ?r, n', b)" "repr Q D False n' u"
        using IH [OF t(2) _ l n] by blast
      moreover have "\<not> int (length key) - int pos < int (length k)" using l by simp
      ultimately show ?thesis using True ShortNode t r by (auto simp: tryGet.simps add.commute)
    qed
  next
    case (FullNode cs f)
    then obtain ts where t: "t = Branch ts" "list_all2 (repr Q D False) cs ts" "flag_ok Q atop f t" using Suc.prems(1) by auto
    obtain a r where r: "drop pos key = a # r" "unat a < 17" "length ts = 17" "leads (ts ! unat a) r"
      using leads_Branch Suc.prems(2) t(1) by blast
    have l: "pos < length key" "key ! pos = a" "drop (pos + 1) key = r"
      using r(1) Suc.prems(3) by (auto simp: drop_eq_Nil nth_via_drop) (metis drop_eq_Nil list.distinct(1) not_le, metis list.sel(3) drop_Suc tl_drop)
    have c: "length cs = 17" "repr Q D False (cs ! unat a) (ts ! unat a)" using t(2) r by (auto simp: list_all2_conv_all_nth)
    have n: "need (cs ! unat a) (drop (pos + 1) key) \<le> fuel"
      using Suc.prems(4) need_le [of "cs ! unat a" r] r(1) l FullNode by (auto simp: need_def)
    obtain n' b where g: "tryGet fuel D (cs ! unat a) key (pos + 1) = Inr (lookup (ts ! unat a) r, n', b)" "repr Q D False n' (ts ! unat a)"
      using IH [OF c(2), of "pos + 1"] n l r(4) by auto
    have "repr Q D atop (FullNode (cs[unat a := n']) f) t"
      using t g(2) list_all2_update_cong [of "repr Q D False" cs ts n' "ts ! unat a" "unat a"] by simp
    then show ?thesis using g l c r FullNode t by (auto simp: tryGet.simps)
  next
    case (HashNode h)
    then obtain m where m: "resolveHash D h (take pos key) = Inr m" "inner_node m" "repr Q D atop m t"
      using Suc.prems(1) repr_HashD by metis
    then have "need m (drop pos key) \<le> fuel" using Suc.prems(4) HashNode need_inner by (simp add: need_def)
    then obtain n' b where "tryGet fuel D m key pos = Inr (lookup t (drop pos key), n', b)" "repr Q D atop n' t"
      using IH [OF m(3) Suc.prems(2,3)] by blast
    then show ?thesis using HashNode m by (auto simp: tryGet.simps)
  qed
qed

section \<open>Insertion\<close>

lemma insert_Nil:
  "0 < fuel \<Longrightarrow> trie_insert fuel D NilNode pre q v = Inr (True, if q = [] then v else ShortNode q v newFlag)"
  by (cases fuel) (simp_all add: trie_insert.simps)

lemma repr_graft: "repr Q D False v t \<Longrightarrow> repr Q D False (if q = [] then v else ShortNode q v newFlag) (graft q t)"
  by (simp add: graft_def)

lemma repr_fork:
  assumes "repr Q D False n t" and "repr Q D False m u"
  shows "repr Q D atop (FullNode ((replicate 17 NilNode)[unat (hd p) := (if tl p = [] then n else ShortNode (tl p) n newFlag),
      unat (hd k) := (if tl k = [] then m else ShortNode (tl k) m newFlag)]) newFlag) (fork p t k u)"
proof -
  have z: "list_all2 (repr Q D False) (replicate 17 NilNode) (replicate 17 Empty)" by (simp add: list_all2_conv_all_nth)
  show ?thesis unfolding fork_def by (intro rFull list_all2_update_cong repr_graft assms z) simp
qed

lemma insert_diverge:
  assumes "prefixLen k p \<noteq> length p" and m: "prefixLen k p < length p" "prefixLen k p < length k" and "0 < fuel"
    and n: "unat (p ! prefixLen k p) < 17" "unat (k ! prefixLen k p) < 17" and "repr Q D False val u"
  shows "\<exists>n'. trie_insert (Suc fuel) D (ShortNode p val f) pre k (ValueNode v) = Inr (True, n') \<and> repr Q D atop n' (put (Ext p u) k v)"
proof -
  let ?m = "prefixLen k p"
  define branch where "branch = FullNode ((replicate 17 NilNode)
    [unat (p ! ?m) := (if drop (?m + 1) p = [] then val else ShortNode (drop (?m + 1) p) val newFlag),
     unat (k ! ?m) := (if drop (?m + 1) k = [] then ValueNode v else ShortNode (drop (?m + 1) k) (ValueNode v) newFlag)]) newFlag"
  have k: "k \<noteq> []" using m by auto
  have "trie_insert (Suc fuel) D (ShortNode p val f) pre k (ValueNode v)
      = Inr (True, if ?m = 0 then branch else ShortNode (take ?m k) branch newFlag)"
    using assms(1) m n k insert_Nil [OF \<open>0 < fuel\<close>]
    by (simp add: trie_insert.simps(2) [of fuel D "ShortNode p val f"] branch_def Let_def del: replicate.simps)
  moreover have h: "hd (drop ?m p) = p ! ?m" "hd (drop ?m k) = k ! ?m" "tl (drop ?m p) = drop (?m + 1) p" "tl (drop ?m k) = drop (?m + 1) k"
    using m by (simp_all add: hd_drop_conv_nth tl_drop flip: drop_Suc)
  have "repr Q D a branch (fork (drop ?m p) u (drop ?m k) (Leaf v))" for a
    unfolding branch_def by (rule repr_fork [OF assms(7) rValue, where p = "drop ?m p" and k = "drop ?m k", unfolded h])
  then have "repr Q D atop (if ?m = 0 then branch else ShortNode (take ?m k) branch newFlag) (put (Ext p u) k v)"
    unfolding put_Ext(2) [OF k assms(1)] using k by (auto simp: graft_def)
  ultimately show ?thesis by blast
qed

lemma insert_refines:
  "repr Q D atop n t \<Longrightarrow> leads t k \<Longrightarrow> need n k \<le> fuel \<Longrightarrow>
    \<exists>d n'. trie_insert fuel D n pre k (ValueNode v) = Inr (d, n') \<and> repr Q D atop n' (put t k v) \<and> (\<not> d \<longrightarrow> put t k v = t)"
proof (induction fuel arbitrary: atop n t k pre)
  case 0
  then show ?case using fuel_Suc by fastforce
next
  case (Suc fuel)
  note IH = Suc.IH
  show ?case
  proof (cases "k = []")
    case True
    then have "t = Empty \<or> is_Leaf t" using Suc.prems(2) by (auto simp: leads_def)
    then show ?thesis
      using True Suc.prems(1) repr_Empty by (cases t) (auto simp: trie_insert.simps elim: repr.cases split: Node.split)
  next
    case k: False
    then have tk: "term_key k" using Suc.prems(2) by (auto simp: leads_def)
    show ?thesis
    proof (cases n)
      case NilNode
      then show ?thesis using Suc.prems(1) k insert_Nil [of "Suc fuel"] by (cases k) auto
    next
      case (ValueNode w)
      then show ?thesis using Suc.prems(1,2) k by (auto simp: leads_def canon_def)
    next
      case (ShortNode p val f)
      then obtain u where t: "t = Ext p u" "repr Q D False val u" "flag_ok Q atop f t" using Suc.prems(1) by auto
      have e: "p \<noteq> []" "edge p u" using leads_edge Suc.prems(2) t(1) by blast+
      show ?thesis
      proof (cases "prefixLen k p = length p")
        case True
        then obtain r where r: "k = p @ r" using prefixLen_full by blast
        have "need val r \<le> fuel"
          using Suc.prems(3) need_le [of val r] e(1) r unfolding ShortNode need_def Node.case by (cases p) auto
        then obtain d n' where "trie_insert fuel D val (pre @ p) r (ValueNode v) = Inr (d, n')" "repr Q D False n' (put u r v)"
            "\<not> d \<longrightarrow> put u r v = u"
          using IH [OF t(2) leads_Ext(1)] Suc.prems(2) t(1) r by blast
        moreover have "put t k v = Ext p (put u r v)" unfolding t(1) r using k r by (intro put_Ext) simp
        ultimately show ?thesis using True r ShortNode t k by (auto simp: trie_insert.simps)
      next
        case False
        let ?m = "prefixLen k p"
        have p: "nibbles p \<or> term_key p" using e(2) by (auto simp: edge_def)
        note m = prefixLen_inside [OF tk p False]
        have w: "unat (p ! ?m) < 17" "unat (k ! ?m) < 17"
          using term_key_elem [OF nth_mem [OF m(1)] p] term_key_elem [OF nth_mem [OF m(2)]] tk by (auto simp: word_less_nat_alt)
        have "0 < fuel" using Suc.prems(3) ShortNode k by (cases k) (auto simp: need_def)
        from insert_diverge [OF False m(1,2) this w t(2)] show ?thesis unfolding t(1) ShortNode by blast
      qed
    next
      case (FullNode cs f)
      then obtain ts where t: "t = Branch ts" "list_all2 (repr Q D False) cs ts" "flag_ok Q atop f t" using Suc.prems(1) by auto
      obtain a r where r: "k = a # r" "unat a < 17" "length ts = 17" "leads (ts ! unat a) r"
        using leads_Branch Suc.prems(2) t(1) by blast
      have c: "length cs = 17" "repr Q D False (cs ! unat a) (ts ! unat a)" using t(2) r by (auto simp: list_all2_conv_all_nth)
      have "need (cs ! unat a) r \<le> fuel"
        using Suc.prems(3) need_le [of "cs ! unat a" r] r(1) unfolding FullNode need_def Node.case by auto
      then obtain d n' where g: "trie_insert fuel D (cs ! unat a) (pre @ [a]) r (ValueNode v) = Inr (d, n')"
          "repr Q D False n' (put (ts ! unat a) r v)" "\<not> d \<longrightarrow> put (ts ! unat a) r v = ts ! unat a"
        using IH [OF c(2) r(4)] by blast
      have "list_all2 (repr Q D False) (cs[unat a := n']) (ts[unat a := put (ts ! unat a) r v])"
        using t(2) g(2) by (rule list_all2_update_cong)
      then show ?thesis using g c r FullNode t by (auto simp: trie_insert.simps)
    next
      case (HashNode h)
      then obtain m where m: "resolveHash D h pre = Inr m" "inner_node m" "repr Q D atop m t"
        using Suc.prems(1) repr_HashD by metis
      then have "need m k \<le> fuel" using Suc.prems(3) HashNode need_inner by (simp add: need_def)
      then obtain d n' where "trie_insert fuel D m pre k (ValueNode v) = Inr (d, n')" "repr Q D atop n' (put t k v)" "\<not> d \<longrightarrow> put t k v = t"
        using IH [OF m(3) Suc.prems(2)] by blast
      then show ?thesis using HashNode m k by (auto simp: trie_insert.simps)
    qed
  qed
qed

section \<open>Deletion\<close>

lemma repr_NilNode: "repr Q D atop n t \<Longrightarrow> n = NilNode \<longleftrightarrow> t = Empty"
  using repr_Empty by auto

lemma single_child_live:
  assumes "list_all2 (repr Q D False) cs ts"
  shows "single_child cs = (case live ts of [i] \<Rightarrow> Some i | _ \<Rightarrow> None)"
proof -
  have "filter (\<lambda>i. cs ! i \<noteq> NilNode) [0..<length cs] = live ts"
    unfolding live_def list_all2_lengthD [OF assms]
    using repr_NilNode [OF list_all2_nthD2 [OF assms]] by (intro filter_cong) auto
  then show ?thesis by (simp add: single_child_def)
qed

lemma resolve_repr:
  assumes "repr Q D atop n t"
  obtains c where "resolve D n pre = Inr c" and "repr Q D atop c t" and "\<And>h. c \<noteq> HashNode h"
proof (cases n)
  case (HashNode h)
  then obtain m where "resolveHash D h pre = Inr m" "inner_node m" "repr Q D atop m t" using assms repr_HashD by metis
  then show ?thesis using that [of m] HashNode by (cases m) (auto simp: resolve_def)
qed (use assms that [of n] in \<open>auto simp: resolve_def\<close>)

lemma repr_not_Ext: "repr Q D atop c t \<Longrightarrow> (\<And>h. c \<noteq> HashNode h) \<Longrightarrow> (\<And>k n f. c \<noteq> ShortNode k n f) \<Longrightarrow> join p t = Ext p t"
  by (cases c) auto

text \<open>The last step of a deletion in a full node.\<close>

definition shrink_node :: "node_db \<Rightarrow> byte list \<Rightarrow> Node list \<Rightarrow> trie_error + bool \<times> Node" where
  "shrink_node D pre children =
    (case single_child children of
       None \<Rightarrow> Inr (True, FullNode children newFlag)
     | Some pos \<Rightarrow>
         if pos \<noteq> 16
         then (case resolve D (children ! pos) pre of
                 Inl e \<Rightarrow> Inl e
               | Inr (ShortNode ck cval _) \<Rightarrow> Inr (True, ShortNode (of_nat pos # ck) cval newFlag)
               | Inr _ \<Rightarrow> Inr (True, ShortNode [of_nat pos] (children ! pos) newFlag))
         else Inr (True, ShortNode [of_nat pos] (children ! pos) newFlag))"

lemma shrink_refines:
  assumes r: "list_all2 (repr Q D False) cs ts" and l: "ts ! 16 = Empty \<or> is_Leaf (ts ! 16)"
  shows "\<exists>n'. shrink_node D pre cs = Inr (True, n') \<and> repr Q D atop n' (shrink ts) \<and> (\<forall>h. n' \<noteq> HashNode h)"
proof (cases "single_child cs")
  case None
  then have "shrink ts = Branch ts" using single_child_live [OF r] by (auto simp: shrink_def split: list.splits)
  then show ?thesis using None r by (simp add: shrink_node_def)
next
  case (Some i)
  then have i: "live ts = [i]" using single_child_live [OF r] by (auto split: list.splits)
  then have t: "shrink ts = join [of_nat i] (ts ! i)" "i < length ts" using live_single by (auto simp: shrink_def)
  have c: "repr Q D False (cs ! i) (ts ! i)" using list_all2_nthD2 [OF r t(2)] .
  show ?thesis
  proof (cases "i = 16")
    case True
    then have "is_Leaf (ts ! 16)" using l live_single [OF i] by auto
    then have "join [of_nat i] (ts ! i) = Ext [of_nat i] (ts ! i)" using True by (cases "ts ! 16") auto
    then show ?thesis using True Some t c by (simp add: shrink_node_def)
  next
    case False
    obtain d where d: "resolve D (cs ! i) pre = Inr d" "repr Q D False d (ts ! i)" "\<And>h. d \<noteq> HashNode h" by (rule resolve_repr [OF c, of pre]) blast
    show ?thesis
    proof (cases "\<exists>k n f. d = ShortNode k n f")
      case True
      then show ?thesis using False Some t d by (auto simp: shrink_node_def)
    next
      case no: False
      then have "join [of_nat i] (ts ! i) = Ext [of_nat i] (ts ! i)" using repr_not_Ext [OF d(2,3)] by blast
      moreover have "shrink_node D pre cs = Inr (True, ShortNode [of_nat i] (cs ! i) newFlag)"
        using False Some d no by (auto simp: shrink_node_def split: Node.split)
      ultimately show ?thesis using t c by simp
    qed
  qed
qed

lemma shrink_id: "ctrie (Branch ts) \<Longrightarrow> shrink ts = Branch ts"
  by (auto simp: shrink_def split: list.split)

lemma delete_Full:
  "trie_delete (Suc fuel) D (FullNode cs f) pre (a # k) =
    (if length cs \<le> unat a then Inl TriePanic
     else (case trie_delete fuel D (cs ! unat a) (pre @ [a]) k of
             Inl e \<Rightarrow> Inl e
           | Inr (dirty, nn) \<Rightarrow> if \<not> dirty then Inr (False, FullNode cs f) else shrink_node D pre (cs[unat a := nn])))"
  by (auto simp: trie_delete.simps shrink_node_def Let_def split: sum.split)

lemma delete_refines:
  "repr Q D atop n t \<Longrightarrow> leads t k \<Longrightarrow> need n k \<le> fuel \<Longrightarrow>
    \<exists>d n'. trie_delete fuel D n pre k = Inr (d, n') \<and> repr Q D atop n' (del t k) \<and> (if d then \<forall>h. n' \<noteq> HashNode h else del t k = t)"
proof (induction fuel arbitrary: atop n t k pre)
  case 0
  then show ?case using fuel_Suc [of n k 0] by simp
next
  case (Suc fuel)
  note IH = Suc.IH
  show ?case
  proof (cases n)
    case NilNode
    then show ?thesis using Suc.prems(1) by (simp add: trie_delete.simps ex_bool_eq)
  next
    case (ValueNode w)
    then show ?thesis using Suc.prems(1) by (simp add: trie_delete.simps ex_bool_eq)
  next
    case (ShortNode p val f)
    then obtain u where t: "t = Ext p u" "repr Q D False val u" "flag_ok Q atop f t" using Suc.prems(1) by auto
    have e: "p \<noteq> []" "edge p u" "term_key k" using leads_edge Suc.prems(2) t(1) by blast+
    show ?thesis
    proof (cases "prefixLen k p = length p \<and> length p \<noteq> length k")
      case False
      then show ?thesis
        using t ShortNode prefixLen_le(2) [of k p]
        by (cases "prefixLen k p < length p") (simp_all add: trie_delete.simps Let_def ex_bool_eq)
    next
      case True
      then obtain r where r: "k = p @ r" using prefixLen_full by blast
      then have nil: "r \<noteq> []" using True by auto
      then have b: "is_Branch u" "leads u r" using leads_Ext [OF Suc.prems(2) [unfolded t(1)] r] by auto
      have "need val r \<le> fuel"
        using Suc.prems(3) need_le [of val r] e(1) r unfolding ShortNode need_def Node.case by (cases p) auto
      then obtain d n' where g: "trie_delete fuel D val (pre @ p) r = Inr (d, n')" "repr Q D False n' (del u r)"
          "if d then \<forall>h. n' \<noteq> HashNode h else del u r = u"
        using IH [OF t(2) b(2)] by blast
      have "del t k = join p (del u r)" using t r True by simp
      moreover have "join p u = Ext p u" using b(1) by (cases u) auto
      moreover have "trie_delete (Suc fuel) D n pre k =
          Inr (if d then (True, case n' of ShortNode ck cval _ \<Rightarrow> ShortNode (p @ ck) cval newFlag | _ \<Rightarrow> ShortNode p n' newFlag) else (False, n))"
        using True r nil g(1) ShortNode by (simp add: trie_delete.simps Let_def split: Node.split)
      moreover have "repr Q D atop (case n' of ShortNode ck cval _ \<Rightarrow> ShortNode (p @ ck) cval newFlag | _ \<Rightarrow> ShortNode p n' newFlag) (join p (del u r))" if d
        using that g(2,3) by (cases n') auto
      moreover have "(case n' of ShortNode ck cval _ \<Rightarrow> ShortNode (p @ ck) cval newFlag | _ \<Rightarrow> ShortNode p n' newFlag) \<noteq> HashNode h" for h
        by (simp split: Node.split)
      ultimately show ?thesis using g(3) t Suc.prems(1) by (cases d) (simp_all add: ex_bool_eq)
    qed
  next
    case (FullNode cs f)
    then obtain ts where t: "t = Branch ts" "list_all2 (repr Q D False) cs ts" "flag_ok Q atop f t" using Suc.prems(1) by auto
    obtain a r where r: "k = a # r" "ctrie (Branch ts)" "unat a < 17" "length ts = 17" "leads (ts ! unat a) r"
      using leads_Branch Suc.prems(2) t(1) by blast
    have c: "length cs = 17" "repr Q D False (cs ! unat a) (ts ! unat a)" using t(2) r by (auto simp: list_all2_conv_all_nth)
    have "need (cs ! unat a) r \<le> fuel"
      using Suc.prems(3) need_le [of "cs ! unat a" r] r(1) unfolding FullNode need_def Node.case by auto
    then obtain d n' where g: "trie_delete fuel D (cs ! unat a) (pre @ [a]) r = Inr (d, n')"
        "repr Q D False n' (del (ts ! unat a) r)" "if d then \<forall>h. n' \<noteq> HashNode h else del (ts ! unat a) r = ts ! unat a"
      using IH [OF c(2) r(5)] by blast
    let ?ts = "ts[unat a := del (ts ! unat a) r]"
    have u: "list_all2 (repr Q D False) (cs[unat a := n']) ?ts" using t(2) g(2) by (rule list_all2_update_cong)
    have "?ts ! 16 = Empty \<or> is_Leaf (?ts ! 16)"
    proof (cases "unat a = 16")
      case True
      then have "r = []" using Suc.prems(2) r(1) by (auto simp: leads_def word_less_nat_alt)
      then show ?thesis using del_shape [OF r(5)] True r(4) by simp
    qed (use r(2) in simp)
    then obtain m where m: "shrink_node D pre (cs[unat a := n']) = Inr (True, m)" "repr Q D atop m (shrink ?ts)" "\<forall>h. m \<noteq> HashNode h"
      using shrink_refines [OF u, of pre] by blast
    have dl: "del t k = shrink ?ts" using t(1) r(1,3,4) by simp
    have td: "trie_delete (Suc fuel) D n pre k = (if d then Inr (True, m) else Inr (False, n))"
      unfolding FullNode r(1) delete_Full g(1) using c(1) r(3) m(1) by simp
    show ?thesis
    proof (cases d)
      case True
      then show ?thesis using td m dl by (simp add: ex_bool_eq)
    next
      case False
      then have "?ts = ts" using g(3) by simp
      then show ?thesis using td False dl shrink_id [OF r(2)] t(1) Suc.prems(1) by (simp add: ex_bool_eq)
    qed
  next
    case (HashNode h)
    then obtain m where m: "resolveHash D h pre = Inr m" "inner_node m" "repr Q D atop m t"
      using Suc.prems(1) repr_HashD by metis
    then have "need m k \<le> fuel" using Suc.prems(3) HashNode need_inner by (simp add: need_def)
    then obtain d n' where "trie_delete fuel D m pre k = Inr (d, n')" "repr Q D atop n' (del t k)"
        "if d then \<forall>h. n' \<noteq> HashNode h else del t k = t"
      using IH [OF m(3) Suc.prems(2)] by blast
    then show ?thesis using HashNode m by (cases d) (simp_all add: trie_delete.simps ex_bool_eq)
  qed
qed

section \<open>The trie as a map\<close>

text \<open>What a key holds after a write: nothing when the value is the one that erases.\<close>

definition written :: "'v \<Rightarrow> 'v \<Rightarrow> 'v option" where
  "written nul v = (if v = nul then None else Some v)"

text \<open>
  A trie holds a map when its root stands for a canonical trie whose keys are the hex forms of the
  keys of the map.
\<close>

definition holds :: "ptrie \<Rightarrow> (byte list \<rightharpoonup> byte list) \<Rightarrow> bool" where
  "holds t m \<longleftrightarrow> canon t \<and> (\<forall>key. lookup t (keybytesToHex key) = m key)
     \<and> (\<forall>k. lookup t k \<noteq> None \<longrightarrow> k \<in> range keybytesToHex)"

definition trie_map :: "(bool \<Rightarrow> byte list \<Rightarrow> ptrie \<Rightarrow> bool) \<Rightarrow> Trie \<Rightarrow> (byte list \<rightharpoonup> byte list) \<Rightarrow> bool" where
  "trie_map Q T m \<longleftrightarrow> (\<exists>t. repr Q (Db T) True (root T) t \<and> holds t m)"

lemma holds_Empty: "holds Empty Map.empty"
  by (simp add: holds_def canon_def)

lemma keybytesToHex_eq_iff: "keybytesToHex a = keybytesToHex b \<longleftrightarrow> a = b"
  by (metis keybytes_roundtrip sum.inject(2))

lemma holds_leads: "holds t m \<Longrightarrow> leads t (keybytesToHex key)"
  by (simp add: holds_def leads_def keybytesToHex_term)

lemma holds_put: "holds t m \<Longrightarrow> v \<noteq> [] \<Longrightarrow> holds (put t (keybytesToHex key) v) (m(key \<mapsto> v))"
  by (auto simp: holds_def canon_put lookup_put_map keybytesToHex_term keybytesToHex_eq_iff split: if_splits)

lemma holds_del: "holds t m \<Longrightarrow> holds (del t (keybytesToHex key)) (m(key := None))"
  by (auto simp: holds_def canon_del lookup_del_map keybytesToHex_term keybytesToHex_eq_iff split: if_splits)

lemma holds_unique:
  assumes "holds t m" and "holds u m"
  shows "t = u"
proof (rule canon_unique)
  show "lookup t = lookup u"
  proof
    fix k show "lookup t k = lookup u k"
    proof (cases "k \<in> range keybytesToHex")
      case False
      then have "lookup t k = None" "lookup u k = None" using assms unfolding holds_def by blast+
      then show ?thesis by simp
    qed (use assms in \<open>auto simp: holds_def\<close>)
  qed
qed (use assms in \<open>auto simp: holds_def\<close>)

lemma root_fuel: "need n k \<le> trie_fuel k"
  using need_le by (simp add: trie_fuel_def)

lemma TryGet_map:
  assumes "trie_map Q T m"
  shows "\<exists>T'. TryGet key T = (T', Inr (m key)) \<and> trie_map Q T' m"
proof -
  obtain t where t: "repr Q (Db T) True (root T) t" "holds t m" using assms by (auto simp: trie_map_def)
  let ?k = "keybytesToHex key"
  obtain n b where "tryGet (trie_fuel ?k) (Db T) (root T) ?k 0 = Inr (lookup t ?k, n, b)" "repr Q (Db T) True n t"
    using tryGet_refines [of Q "Db T" True "root T" t 0 ?k "trie_fuel ?k"] t holds_leads root_fuel by auto
  then show ?thesis using t by (auto simp: TryGet_def trie_map_def holds_def)
qed

lemma delete_map:
  assumes "trie_map Q T m"
  shows "\<exists>T'. set_root T (trie_delete (trie_fuel (keybytesToHex key)) (Db T) (root T) [] (keybytesToHex key)) = (T', None)
    \<and> trie_map Q T' (m(key := None))"
proof -
  obtain t where t: "repr Q (Db T) True (root T) t" "holds t m" using assms by (auto simp: trie_map_def)
  obtain d n where "trie_delete (trie_fuel (keybytesToHex key)) (Db T) (root T) [] (keybytesToHex key) = Inr (d, n)"
      "repr Q (Db T) True n (del t (keybytesToHex key))"
    using delete_refines [OF t(1) holds_leads [OF t(2)] root_fuel] by blast
  then show ?thesis using holds_del [OF t(2)] by (auto simp: set_root_def trie_map_def)
qed

lemma insert_map:
  assumes "trie_map Q T m" and "v \<noteq> []"
  shows "\<exists>T'. set_root T (trie_insert (trie_fuel (keybytesToHex key)) (Db T) (root T) [] (keybytesToHex key) (ValueNode v)) = (T', None)
    \<and> trie_map Q T' (m(key \<mapsto> v))"
proof -
  obtain t where t: "repr Q (Db T) True (root T) t" "holds t m" using assms by (auto simp: trie_map_def)
  obtain d n where "trie_insert (trie_fuel (keybytesToHex key)) (Db T) (root T) [] (keybytesToHex key) (ValueNode v) = Inr (d, n)"
      "repr Q (Db T) True n (put t (keybytesToHex key) v)"
    using insert_refines [OF t(1) holds_leads [OF t(2)] root_fuel] by blast
  then show ?thesis using holds_put [OF t(2) assms(2)] by (auto simp: set_root_def trie_map_def)
qed

lemma trie_map_unhashed: "trie_map Q (T\<lparr>unhashed := n\<rparr>) m = trie_map Q T m"
  by (simp add: trie_map_def)

lemma TryUpdate_map:
  assumes "trie_map Q T m"
  shows "\<exists>T'. TryUpdate key v T = (T', None) \<and> trie_map Q T' (m(key := written [] v))"
  using insert_map [of Q "T\<lparr>unhashed := unhashed T + 1\<rparr>" m v key] delete_map [of Q "T\<lparr>unhashed := unhashed T + 1\<rparr>" m key] assms
  by (auto simp: TryUpdate_def trie_map_unhashed Let_def written_def)

lemma TryDelete_map:
  assumes "trie_map Q T m"
  shows "\<exists>T'. TryDelete key T = (T', None) \<and> trie_map Q T' (m(key := None))"
  using delete_map [of Q "T\<lparr>unhashed := unhashed T + 1\<rparr>" m key] assms
  by (auto simp: TryDelete_def trie_map_unhashed Let_def)

section \<open>Sequences of operations\<close>

datatype ('k, 'v) map_op = Read 'k | Write 'k 'v | Erase 'k

text \<open>What a map does for a sequence of operations: its answers to the reads, and the map at the end.\<close>

fun answers :: "'v \<Rightarrow> ('k \<rightharpoonup> 'v) \<Rightarrow> ('k, 'v) map_op list \<Rightarrow> 'v option list" where
  "answers nul m [] = []"
| "answers nul m (Read k # ops) = m k # answers nul m ops"
| "answers nul m (Write k v # ops) = answers nul (m(k := written nul v)) ops"
| "answers nul m (Erase k # ops) = answers nul (m(k := None)) ops"

fun outcome :: "'v \<Rightarrow> ('k \<rightharpoonup> 'v) \<Rightarrow> ('k, 'v) map_op list \<Rightarrow> ('k \<rightharpoonup> 'v)" where
  "outcome nul m [] = m"
| "outcome nul m (Read k # ops) = outcome nul m ops"
| "outcome nul m (Write k v # ops) = outcome nul (m(k := written nul v)) ops"
| "outcome nul m (Erase k # ops) = outcome nul (m(k := None)) ops"

text \<open>The operations of a store run one after the other; the first error ends the run.\<close>

fun run_ops :: "('k \<Rightarrow> 's \<Rightarrow> 's \<times> ('e + 'v option)) \<Rightarrow> ('k \<Rightarrow> 'v \<Rightarrow> 's \<Rightarrow> 's \<times> 'e option) \<Rightarrow> ('k \<Rightarrow> 's \<Rightarrow> 's \<times> 'e option)
    \<Rightarrow> ('k, 'v) map_op list \<Rightarrow> 's \<Rightarrow> 'e + 's \<times> 'v option list" where
  "run_ops get upd era [] s = Inr (s, [])"
| "run_ops get upd era (Read k # ops) s =
    (case get k s of
       (_, Inl e) \<Rightarrow> Inl e
     | (s', Inr v) \<Rightarrow> (case run_ops get upd era ops s' of Inl e \<Rightarrow> Inl e | Inr (s'', vs) \<Rightarrow> Inr (s'', v # vs)))"
| "run_ops get upd era (Write k v # ops) s = (case upd k v s of (_, Some e) \<Rightarrow> Inl e | (s', None) \<Rightarrow> run_ops get upd era ops s')"
| "run_ops get upd era (Erase k # ops) s = (case era k s of (_, Some e) \<Rightarrow> Inl e | (s', None) \<Rightarrow> run_ops get upd era ops s')"

text \<open>The contract of a store of keys and values, in which writing \<open>nul\<close> erases.\<close>

locale kv_store =
  fixes R :: "'s \<Rightarrow> ('k \<rightharpoonup> 'v) \<Rightarrow> bool"
    and get :: "'k \<Rightarrow> 's \<Rightarrow> 's \<times> ('e + 'v option)"
    and upd :: "'k \<Rightarrow> 'v \<Rightarrow> 's \<Rightarrow> 's \<times> 'e option"
    and era :: "'k \<Rightarrow> 's \<Rightarrow> 's \<times> 'e option"
    and nul :: 'v
  assumes get_law: "R s m \<Longrightarrow> \<exists>s'. get k s = (s', Inr (m k)) \<and> R s' m"
    and upd_law: "R s m \<Longrightarrow> \<exists>s'. upd k v s = (s', None) \<and> R s' (m(k := written nul v))"
    and era_law: "R s m \<Longrightarrow> \<exists>s'. era k s = (s', None) \<and> R s' (m(k := None))"
begin

lemma run_as_map:
  "R s m \<Longrightarrow> \<exists>s'. run_ops get upd era ops s = Inr (s', answers nul m ops) \<and> R s' (outcome nul m ops)"
proof (induction ops arbitrary: s m)
  case (Cons op ops)
  show ?case
  proof (cases op)
    case (Read k)
    obtain s' where s: "get k s = (s', Inr (m k))" "R s' m" using get_law Cons.prems by blast
    then show ?thesis using Cons.IH [OF s(2)] Read by force
  next
    case (Write k v)
    obtain s' where s: "upd k v s = (s', None)" "R s' (m(k := written nul v))" using upd_law Cons.prems by blast
    obtain s'' where "run_ops get upd era ops s' = Inr (s'', answers nul (m(k := written nul v)) ops)"
        "R s'' (outcome nul (m(k := written nul v)) ops)" using Cons.IH [OF s(2)] by blast
    then show ?thesis unfolding Write using s(1) by (simp del: fun_upd_apply)
  next
    case (Erase k)
    obtain s' where s: "era k s = (s', None)" "R s' (m(k := None))" using era_law Cons.prems by blast
    obtain s'' where "run_ops get upd era ops s' = Inr (s'', answers nul (m(k := None)) ops)"
        "R s'' (outcome nul (m(k := None)) ops)" using Cons.IH [OF s(2)] by blast
    then show ?thesis unfolding Erase using s(1) by (simp del: fun_upd_apply)
  qed
qed simp

end

interpretation trie_store: kv_store "trie_map Q" TryGet TryUpdate TryDelete "[]" for Q
  by unfold_locales (rule TryGet_map TryUpdate_map TryDelete_map; assumption)+

lemma Trie_New_empty: "r = 0 \<or> r = emptyRoot \<Longrightarrow> \<exists>T. Trie_New r D = Inr T \<and> trie_map Q T Map.empty"
  using holds_Empty by (auto simp: Trie_New_def trie_map_def repr_Empty)

text \<open>
  C3: The trie implements a map from keys to values on atop of its database. From a trie that holds a
  map, every sequence of lookups, updates and deletions runs without error, answers the lookups as the
  map does after the preceding updates, and leaves a trie that holds the resulting map; an update with an empty
  value deletes. Nodes that were written to the database are loaded on the way. A trie opened at the
  empty root holds the empty map.
\<close>

theorem trie_implements_map:
  assumes "trie_map Q T m"
  shows "(\<exists>T'. run_ops TryGet TryUpdate TryDelete ops T = Inr (T', answers [] m ops) \<and> trie_map Q T' (outcome [] m ops))
    \<and> (\<exists>T0. Trie_New emptyRoot D = Inr T0 \<and> trie_map Q T0 Map.empty)"
  using trie_store.run_as_map [OF assms] Trie_New_empty by blast

definition one_node_db :: node_db where
  "one_node_db h = (if h = 7 then Some (ShortNode [1, 2, 16] (ValueNode [42]) \<lparr>flag_hash = Some [7], flag_dirty = False\<rparr>) else None)"

definition stored_trie :: Trie where
  "stored_trie = \<lparr>Db = one_node_db, root = HashNode [7], unhashed = 0\<rparr>"

lemma keybytesToHex_sample: "keybytesToHex [0x12] = [1, 2, 16]"
  by code_simp

lemma stored_trie_map: "trie_map (\<lambda>_ _ _. True) stored_trie [[0x12] \<mapsto> [42]]"
proof -
  have "BytesToHash [7] = 7" by code_simp
  then have "repr (\<lambda>_ _ _. True) one_node_db True (HashNode [7]) (Ext [1, 2, 16] (Leaf [42]))"
    by (intro rHash [where n = "ShortNode [1, 2, 16] (ValueNode [42]) \<lparr>flag_hash = Some [7], flag_dirty = False\<rparr>"])
      (simp_all add: one_node_db_def flag_ok_def)
  moreover have "holds (Ext [1, 2, 16] (Leaf [42])) [[0x12] \<mapsto> [42]]"
    using holds_put [OF holds_Empty, of "[42]" "[0x12]"] by (simp add: keybytesToHex_sample)
  ultimately show ?thesis by (auto simp: trie_map_def stored_trie_def)
qed

theorem trie_implements_map_witness:
  "trie_map (\<lambda>_ _ _. True) stored_trie [[0x12] \<mapsto> [42]] \<and>
   (\<exists>T'. run_ops TryGet TryUpdate TryDelete [Read [0x12], Write [0x13] [1], Erase [0x12], Read [0x12], Read [0x13], Write [0x13] [], Read [0x13]] stored_trie
      = Inr (T', [Some [42], None, Some [1], None]) \<and> trie_map (\<lambda>_ _ _. True) T' Map.empty)"
  using trie_implements_map [OF stored_trie_map, of "[Read [0x12], Write [0x13] [1], Erase [0x12], Read [0x12], Read [0x13], Write [0x13] [], Read [0x13]]"]
    stored_trie_map by (simp add: written_def)

end
