(* ===== verification/Trie_Hasher.thy ===== *)
theory Trie_Hasher
  imports Trie_Refine Rlp_Unique
begin

text \<open>
  The hasher of \<^verbatim>\<open>src/trie/hasher.go\<close> and the encoding of nodes of \<^verbatim>\<open>node.go\<close>: every node whose encoding has 32
  bytes or more is replaced by the hash of the encoding in its parent, and the hashes are kept in the
  nodes. The hash function is an argument. The theorems relate the hash of the root to the content of the trie.
\<close>

section \<open>Encoding of nodes\<close>

text \<open>
  A node is an interface value: it is written as the value of its own type, and a nil one as the empty
  list. A full node is written as an array of 17 such values, in which a missing child is an empty value.
\<close>

fun node_rtype :: "Node \<Rightarrow> rtype" where
  "node_rtype NilNode = TPtr (TStruct [])"
| "node_rtype (FullNode children _) = TStruct (map (\<lambda>c. (if c = NilNode then TByteSlice else node_rtype c, False)) children)"
| "node_rtype (ShortNode k v _) = TStruct [(TByteSlice, False), (node_rtype v, False)]"
| "node_rtype (HashNode h) = TByteSlice"
| "node_rtype (ValueNode v) = TByteSlice"

fun node_val :: "Node \<Rightarrow> rval" where
  "node_val NilNode = VNil"
| "node_val (FullNode children _) = VList (map (\<lambda>c. if c = NilNode then VBytes [] else node_val c) children)"
| "node_val (ShortNode k v _) = VList [VBytes k, node_val v]"
| "node_val (HashNode h) = VBytes h"
| "node_val (ValueNode v) = VBytes v"

definition node_rlp :: "Node \<Rightarrow> trie_error + byte list" where
  "node_rlp n = (case EncodeToBytes (node_rtype n) (node_val n) of Inl _ \<Rightarrow> Inl TriePanic | Inr b \<Rightarrow> Inr b)"

section \<open>The hasher\<close>

definition nodeToHash :: "(byte list \<Rightarrow> byte list) \<Rightarrow> Node \<Rightarrow> bool \<Rightarrow> trie_error + Node" where
  "nodeToHash K n force =
    (case node_rlp n of
       Inl e \<Rightarrow> Inl e
     | Inr tmp \<Rightarrow> Inr (if length tmp < 32 \<and> \<not> force then n else HashNode (K tmp)))"

text \<open>The flags of the cached copy take the hash, or lose it when the node is too small for one.\<close>

definition cache_hash :: "Node \<Rightarrow> NodeFlag \<Rightarrow> NodeFlag" where
  "cache_hash hashed f = f\<lparr>flag_hash := (case hashed of HashNode hn \<Rightarrow> Some hn | _ \<Rightarrow> None)\<rparr>"

fun hasher_hash :: "(byte list \<Rightarrow> byte list) \<Rightarrow> Node \<Rightarrow> bool \<Rightarrow> trie_error + Node \<times> Node"
and hash_children :: "(byte list \<Rightarrow> byte list) \<Rightarrow> nat \<Rightarrow> Node list \<Rightarrow> trie_error + Node list \<times> Node list"
where
  "hasher_hash K NilNode force = Inl TriePanic"
| "hasher_hash K (HashNode h) force = Inr (HashNode h, HashNode h)"
| "hasher_hash K (ValueNode v) force = Inr (ValueNode v, ValueNode v)"
| "hasher_hash K (ShortNode k val f) force =
    (case flag_hash f of
       Some h \<Rightarrow> Inr (HashNode h, ShortNode k val f)
     | None \<Rightarrow>
         (case hexToCompact k of
            Inl _ \<Rightarrow> Inl TriePanic
          | Inr compact \<Rightarrow>
              (case (if inner_node val then hasher_hash K val False else Inr (val, val)) of
                 Inl e \<Rightarrow> Inl e
               | Inr (cval, caval) \<Rightarrow>
                   (case nodeToHash K (ShortNode compact cval f) force of
                      Inl e \<Rightarrow> Inl e
                    | Inr hashed \<Rightarrow> Inr (hashed, ShortNode k caval (cache_hash hashed f))))))"
| "hasher_hash K (FullNode children f) force =
    (case flag_hash f of
       Some h \<Rightarrow> Inr (HashNode h, FullNode children f)
     | None \<Rightarrow>
         (case hash_children K 16 children of
            Inl e \<Rightarrow> Inl e
          | Inr (collapsed, cached) \<Rightarrow>
              (case nodeToHash K (FullNode collapsed f) force of
                 Inl e \<Rightarrow> Inl e
               | Inr hashed \<Rightarrow> Inr (hashed, FullNode cached (cache_hash hashed f)))))"
| "hash_children K 0 children = Inr (children, children)"
| "hash_children K (Suc i) [] = Inl TriePanic"
| "hash_children K (Suc i) (child # children) =
    (case (if child = NilNode then Inr (ValueNode [], NilNode) else hasher_hash K child False) of
       Inl e \<Rightarrow> Inl e
     | Inr (c, d) \<Rightarrow> (case hash_children K i children of Inl e \<Rightarrow> Inl e | Inr (cs, ds) \<Rightarrow> Inr (c # cs, d # ds)))"

definition hashRoot :: "(byte list \<Rightarrow> byte list) \<Rightarrow> Trie \<Rightarrow> Trie \<times> (trie_error + Node \<times> Node)" where
  "hashRoot K t =
    (if root t = NilNode then (t, Inr (HashNode (hash_bytes emptyRoot), NilNode))
     else (t\<lparr>unhashed := 0\<rparr>, hasher_hash K (root t) True))"

definition Trie_Hash :: "(byte list \<Rightarrow> byte list) \<Rightarrow> Trie \<Rightarrow> Trie \<times> (trie_error + hash)" where
  "Trie_Hash K t =
    (case hashRoot K t of
       (t, Inl e) \<Rightarrow> (t, Inl e)
     | (t, Inr (h, cached)) \<Rightarrow>
         (t\<lparr>root := cached\<rparr>, case h of HashNode b \<Rightarrow> Inr (BytesToHash b) | _ \<Rightarrow> Inl TriePanic))"

declare hasher_hash.simps [simp del] hash_children.simps [simp del]

section \<open>The hash of a trie\<close>

text \<open>
  What the hash of a trie is: a node is the list of its compact key and its child, or of its children, and
  a child whose encoding has 32 bytes or more is represented by the hash of its encoding.
\<close>

fun inner_trie :: "ptrie \<Rightarrow> bool" where
  "inner_trie (Ext p t) = True"
| "inner_trie (Branch ts) = True"
| "inner_trie _ = False"

definition compact_key :: "byte list \<Rightarrow> byte list" where
  "compact_key p = (case hexToCompact p of Inl _ \<Rightarrow> [] | Inr c \<Rightarrow> c)"

definition shorten :: "(byte list \<Rightarrow> byte list) \<Rightarrow> bool \<Rightarrow> item \<Rightarrow> item" where
  "shorten K inner x = (if inner \<and> 32 \<le> length (rlp_enc x) then Str (K (rlp_enc x)) else x)"

fun trie_item :: "(byte list \<Rightarrow> byte list) \<Rightarrow> ptrie \<Rightarrow> item" where
  "trie_item K Empty = Str []"
| "trie_item K (Leaf v) = Str v"
| "trie_item K (Ext p t) = Lst [Str (compact_key p), shorten K (inner_trie t) (trie_item K t)]"
| "trie_item K (Branch ts) = Lst (map (\<lambda>t. shorten K (inner_trie t) (trie_item K t)) ts)"

definition trie_enc :: "(byte list \<Rightarrow> byte list) \<Rightarrow> ptrie \<Rightarrow> byte list" where
  "trie_enc K t = rlp_enc (trie_item K t)"

definition trie_root :: "(byte list \<Rightarrow> byte list) \<Rightarrow> ptrie \<Rightarrow> byte list" where
  "trie_root K t = (if t = Empty then hash_bytes emptyRoot else K (trie_enc K t))"

text \<open>The sizes of the encodings fit the 64 bits of the encoder.\<close>

fun encodable :: "(byte list \<Rightarrow> byte list) \<Rightarrow> ptrie \<Rightarrow> bool" where
  "encodable K (Ext p t) = (length (trie_enc K (Ext p t)) < 2 ^ 64 \<and> encodable K t)"
| "encodable K (Branch ts) = (length (trie_enc K (Branch ts)) < 2 ^ 64 \<and> (\<forall>t\<in>set ts. encodable K t))"
| "encodable K _ = True"

text \<open>Which hashes stand for a trie; below the root only large ones are hashed.\<close>

definition refers :: "(byte list \<Rightarrow> byte list) \<Rightarrow> bool \<Rightarrow> byte list \<Rightarrow> ptrie \<Rightarrow> bool" where
  "refers K atop h t \<longleftrightarrow> inner_trie t \<and> h = K (trie_enc K t) \<and> (atop \<or> 32 \<le> length (trie_enc K t))"

lemma flag_refers:
  "flag_ok (refers K) atop f t \<Longrightarrow> flag_hash f = Some h \<Longrightarrow> inner_trie t \<and> h = K (trie_enc K t) \<and> (atop \<or> 32 \<le> length (trie_enc K t))"
  by (simp add: flag_ok_def refers_def)

section \<open>The items of nodes\<close>

fun node_item :: "Node \<Rightarrow> item" where
  "node_item NilNode = Lst []"
| "node_item (FullNode cs _) = Lst (map (\<lambda>c. if c = NilNode then Str [] else node_item c) cs)"
| "node_item (ShortNode k v _) = Lst [Str k, node_item v]"
| "node_item (HashNode h) = Str h"
| "node_item (ValueNode v) = Str v"

lemma lastField_required: "length fs = length vs \<Longrightarrow> list_all (\<lambda>f. \<not> snd f) fs \<Longrightarrow> lastField fs vs = length fs"
proof -
  assume a: "length fs = length vs" "list_all (\<lambda>f. \<not> snd f) fs"
  have "\<not> snd (fst p)" if "p \<in> set (rev (zip fs vs))" for p
    using that a(2) set_zip_leftD [of "fst p" "snd p" fs vs] by (simp add: list_all_iff)
  then have "dropWhile (\<lambda>(f, v). snd f \<and> v = VNil) (rev (zip fs vs)) = rev (zip fs vs)"
    using hd_in_set [of "rev (zip fs vs)"] by (fastforce simp: dropWhile_eq_self_iff split: prod.splits)
  then show ?thesis using a(1) by (simp add: lastField.simps)
qed

lemma wts_map: "wts (map (\<lambda>c. (f c, False)) cs) (map g cs) \<longleftrightarrow> (\<forall>c\<in>set cs. wt (f c) (g c))"
  by (induction cs) auto

lemma items_of_map: "items_of (map (\<lambda>c. (f c, False)) cs) (map g cs) = map (\<lambda>c. item_of (f c) (g c)) cs"
  by (induction cs) auto

lemma node_typed: "wt (node_rtype n) (node_val n) \<and> item_of (node_rtype n) (node_val n) = node_item n"
proof (induction n)
  case (FullNode cs f)
  have "lastField (map (\<lambda>c. (if c = NilNode then TByteSlice else node_rtype c, False)) cs)
      (map (\<lambda>c. if c = NilNode then VBytes [] else node_val c) cs) = length cs"
    by (subst lastField_required) (simp_all add: list_all_iff)
  moreover have "length (map (\<lambda>c. item_of (if c = NilNode then TByteSlice else node_rtype c) (if c = NilNode then VBytes [] else node_val c)) cs) = length cs"
    by simp
  ultimately show ?case using FullNode by (auto simp: wts_map items_of_map)
qed (auto simp: lastField_required)

lemma node_rlp_item: "length (rlp_enc (node_item n)) < 2 ^ 64 \<Longrightarrow> node_rlp n = Inr (rlp_enc (node_item n))"
  using node_typed [of n] EncodeToBytes_spec [of "node_rtype n" "node_val n"] by (simp add: node_rlp_def)

section \<open>The hasher computes the hash of the trie\<close>

definition item_at :: "Node \<Rightarrow> item" where
  "item_at c = (if c = NilNode then Str [] else node_item c)"

lemma item_at_simps [simp]: "item_at NilNode = Str []" "item_at (ValueNode v) = Str v"
  by (simp_all add: item_at_def)

lemma shorten_simps [simp]: "shorten K False x = x"
  by (simp add: shorten_def)

lemma node_item_FullNode: "node_item (FullNode cs f) = Lst (map item_at cs)"
  by (simp add: item_at_def)

text \<open>The result of hashing a node that stands for \<open>t\<close>.\<close>

definition hashes_to :: "(byte list \<Rightarrow> byte list) \<Rightarrow> node_db \<Rightarrow> bool \<Rightarrow> ptrie \<Rightarrow> Node \<Rightarrow> Node \<Rightarrow> bool" where
  "hashes_to K D atop t hashed cached \<longleftrightarrow> hashed \<noteq> NilNode \<and> repr (refers K) D atop cached t
     \<and> (if inner_trie t \<and> (atop \<or> 32 \<le> length (trie_enc K t)) then hashed = HashNode (K (trie_enc K t)) else node_item hashed = trie_item K t)"

lemma hashes_to_item: "hashes_to K D False t h c \<Longrightarrow> item_at h = shorten K (inner_trie t) (trie_item K t)"
  by (auto simp: hashes_to_def item_at_def shorten_def trie_enc_def split: if_splits)

lemma nodeToHash_item:
  assumes "node_item n = trie_item K t" and "length (trie_enc K t) < 2 ^ 64"
  shows "nodeToHash K n atop = Inr (if length (trie_enc K t) < 32 \<and> \<not> atop then n else HashNode (K (trie_enc K t)))"
  using node_rlp_item [of n] assms by (simp add: nodeToHash_def trie_enc_def)

text \<open>Hashing the collapsed node and caching the result, at a node without a cached hash.\<close>

lemma cache_ok:
  assumes "node_item n = trie_item K t" and "length (trie_enc K t) < 2 ^ 64" and "inner_trie t" and "inner_node n"
  shows "\<exists>h. nodeToHash K n atop = Inr h \<and> flag_ok (refers K) atop (cache_hash h f) t
    \<and> h \<noteq> NilNode \<and> (if atop \<or> 32 \<le> length (trie_enc K t) then h = HashNode (K (trie_enc K t)) else node_item h = trie_item K t)"
  using assms nodeToHash_item [OF assms(1,2), of atop] by (cases n) (auto simp: cache_hash_def flag_ok_def refers_def)

lemma value_item:
  "repr (refers K) D False x y \<Longrightarrow> y = Empty \<or> is_Leaf y \<Longrightarrow> item_at x = shorten K (inner_trie y) (trie_item K y)"
  by (cases x; cases y) (auto simp: item_at_def shorten_def refers_def elim!: repr_HashE)

lemma value_items:
  "list_all2 (repr (refers K) D False) cs ts \<Longrightarrow> \<forall>t\<in>set ts. t = Empty \<or> is_Leaf t
    \<Longrightarrow> map item_at cs = map (\<lambda>t. shorten K (inner_trie t) (trie_item K t)) ts"
  by (induction rule: list_all2_induct) (simp_all add: value_item)

lemma hash_children_ok:
  assumes "list_all2 (\<lambda>c t. t \<noteq> Empty \<longrightarrow> (\<exists>h d. hasher_hash K c False = Inr (h, d) \<and> hashes_to K D False t h d)) cs ts"
    and "list_all2 (repr (refers K) D False) cs ts" and "i \<le> length cs" and "\<forall>t\<in>set (drop i ts). t = Empty \<or> is_Leaf t"
  shows "\<exists>hs ds. hash_children K i cs = Inr (hs, ds) \<and> list_all2 (repr (refers K) D False) ds ts
    \<and> map item_at hs = map (\<lambda>t. shorten K (inner_trie t) (trie_item K t)) ts"
  using assms
proof (induction cs ts arbitrary: i rule: list_all2_induct)
  case Nil
  then show ?case by (simp add: hash_children.simps)
next
  case (Cons c cs t ts)
  show ?case
  proof (cases i)
    case 0
    then show ?thesis using value_items [OF Cons.prems(1)] Cons.prems by (simp add: hash_children.simps)
  next
    case (Suc j)
    obtain hs ds where g: "hash_children K j cs = Inr (hs, ds)" "list_all2 (repr (refers K) D False) ds ts"
        "map item_at hs = map (\<lambda>t. shorten K (inner_trie t) (trie_item K t)) ts"
      using Cons.IH [of j] Cons.prems Suc by auto
    show ?thesis
    proof (cases "c = NilNode")
      case True
      then show ?thesis using Suc g Cons.prems(1) by (simp add: hash_children.simps)
    next
      case False
      then have "t \<noteq> Empty" using Cons.prems(1) repr_NilNode by auto
      then obtain h d where "hasher_hash K c False = Inr (h, d)" "hashes_to K D False t h d" using Cons.hyps by blast
      then show ?thesis using Suc g False hashes_to_item by (auto simp: hash_children.simps hashes_to_def)
    qed
  qed
qed

lemma ctrie_key: "ctrie (Ext p t) \<Longrightarrow> hexToCompact p = Inr (compact_key p) \<and> compactToHex (compact_key p) = p"
  using compact_roundtrip [of p] by (auto simp: compact_key_def hex_key_def term_key_def)

lemma ctrie_children:
  assumes "ctrie (Branch ts)"
  shows "length ts = 17" and "\<forall>t\<in>set ts. t = Empty \<or> ctrie t \<or> is_Leaf t" and "\<forall>t\<in>set (drop 16 ts). t = Empty \<or> is_Leaf t"
proof -
  show l: "length ts = 17" using assms by simp
  then have d: "drop 16 ts = [ts ! 16]" by (simp add: Cons_nth_drop_Suc [symmetric])
  then show "\<forall>t\<in>set (drop 16 ts). t = Empty \<or> is_Leaf t" using assms by simp
  then show "\<forall>t\<in>set ts. t = Empty \<or> ctrie t \<or> is_Leaf t"
    using assms by (metis Un_iff append_take_drop_id ctrie.simps(2) set_append)
qed

lemma hash_refines:
  "repr (refers K) D atop n t \<Longrightarrow> ctrie t \<or> is_Leaf t \<Longrightarrow> encodable K t \<Longrightarrow>
    \<exists>h c. hasher_hash K n atop = Inr (h, c) \<and> hashes_to K D atop t h c"
proof (induction rule: repr.induct)
  case (rNil atop)
  then show ?case by simp
next
  case (rValue atop v)
  then show ?case by (simp add: hasher_hash.simps hashes_to_def)
next
  case (rHash h n atop t)
  then have "repr (refers K) D atop (HashNode h) t" by (intro repr.rHash) auto
  moreover have "inner_trie t" "h = K (trie_enc K t)" "atop \<or> 32 \<le> length (trie_enc K t)"
    using rHash.hyps by (simp_all add: refers_def)
  ultimately show ?case by (auto simp: hasher_hash.simps hashes_to_def)
next
  case (rShort n t atop f k)
  have c: "ctrie (Ext k t)" "ctrie t \<or> is_Leaf t" using rShort.prems(1) by auto
  obtain h d where g: "hasher_hash K n False = Inr (h, d)" "hashes_to K D False t h d"
    using rShort.IH c(2) rShort.prems(2) by auto
  have n: "(if inner_node n then hasher_hash K n False else Inr (n, n)) = Inr (h, d)"
    using g by (cases n) (auto simp: hasher_hash.simps)
  show ?case
  proof (cases "flag_hash f")
    case (Some h)
    then show ?thesis using rShort.hyps flag_refers [OF rShort.hyps(2) Some] by (simp add: hasher_hash.simps hashes_to_def)
  next
    case None
    have i: "node_item (ShortNode (compact_key k) h f) = trie_item K (Ext k t)"
      using hashes_to_item [OF g(2)] g(2) by (simp add: item_at_def hashes_to_def)
    obtain x where x: "nodeToHash K (ShortNode (compact_key k) h f) atop = Inr x" "flag_ok (refers K) atop (cache_hash x f) (Ext k t)"
        "x \<noteq> NilNode" "if atop \<or> 32 \<le> length (trie_enc K (Ext k t)) then x = HashNode (K (trie_enc K (Ext k t))) else node_item x = trie_item K (Ext k t)"
      using cache_ok [OF i, of atop f] rShort.prems(2) by auto
    then show ?thesis using None n ctrie_key [OF c(1)] g(2) by (simp add: hasher_hash.simps hashes_to_def)
  qed
next
  case (rFull cs ts atop f)
  note c = ctrie_children [OF rFull.prems(1) [simplified is_Leaf.simps simp_thms]]
  have r: "list_all2 (repr (refers K) D False) cs ts" using rFull.IH by (auto elim: list_all2_mono)
  show ?case
  proof (cases "flag_hash f")
    case (Some h)
    then show ?thesis using rFull.hyps r flag_refers [OF rFull.hyps Some] by (simp add: hasher_hash.simps hashes_to_def)
  next
    case None
    have "list_all2 (\<lambda>c t. t \<noteq> Empty \<longrightarrow> (\<exists>h d. hasher_hash K c False = Inr (h, d) \<and> hashes_to K D False t h d)) cs ts"
      using rFull.IH rFull.prems(2) c(2) by (auto simp: list_all2_conv_all_nth)
    then obtain hs ds where g: "hash_children K 16 cs = Inr (hs, ds)" "list_all2 (repr (refers K) D False) ds ts"
        "map item_at hs = map (\<lambda>t. shorten K (inner_trie t) (trie_item K t)) ts"
      using hash_children_ok [of K D cs ts 16] r c list_all2_lengthD [OF r] by auto
    have i: "node_item (FullNode hs f) = trie_item K (Branch ts)" unfolding node_item_FullNode g(3) by simp
    obtain x where x: "nodeToHash K (FullNode hs f) atop = Inr x" "flag_ok (refers K) atop (cache_hash x f) (Branch ts)"
        "x \<noteq> NilNode" "if atop \<or> 32 \<le> length (trie_enc K (Branch ts)) then x = HashNode (K (trie_enc K (Branch ts))) else node_item x = trie_item K (Branch ts)"
      using cache_ok [OF i, of atop f] rFull.prems(2) by auto
    then show ?thesis using None g by (simp add: hasher_hash.simps hashes_to_def)
  qed
qed

section \<open>Sizes\<close>

definition hash_fun :: "(byte list \<Rightarrow> byte list) \<Rightarrow> bool" where
  "hash_fun K \<longleftrightarrow> (\<forall>x. length (K x) = 32)"

definition small_map :: "(byte list \<rightharpoonup> byte list) \<Rightarrow> bool" where
  "small_map m \<longleftrightarrow> (\<forall>k v. m k = Some v \<longrightarrow> length k < 2 ^ 32 \<and> length v < 2 ^ 32)"

lemma enc_str_le: "length s < 2 ^ 64 \<Longrightarrow> length (enc_str s) \<le> 9 + length s"
  using length_rhead_le [of "length s" "0x80" "0xB7"] by (simp add: enc_str_def)

lemma enc_list_le:
  assumes "\<And>x. x \<in> set xs \<Longrightarrow> length (rlp_enc x) \<le> n" and "length xs * n < 2 ^ 63"
  shows "length (rlp_enc (Lst xs)) < 2 ^ 64"
proof -
  have "length (concat (map rlp_enc xs)) \<le> length xs * n"
    using sum_list_bound [of xs "\<lambda>x. length (rlp_enc x)" n] assms(1) by (simp add: length_concat comp_def)
  then have "length (concat (map rlp_enc xs)) < 2 ^ 63" using assms(2) by linarith
  then show ?thesis
    using length_rhead_le [of "length (concat (map rlp_enc xs))" "0xC0" "0xF7"] by (simp add: Let_def)
qed

lemma compact_key_length: "ctrie (Ext p t) \<Longrightarrow> length (compact_key p) \<le> length p + 1"
proof -
  assume "ctrie (Ext p t)"
  then obtain c where "hexToCompact p = Inr c" "length c = length (filter (\<lambda>n. n < 16) p) div 2 + 1"
    using compact_roundtrip [of p] by (auto simp: hex_key_def term_key_def)
  moreover have "length (filter (\<lambda>n. n < 16) p) div 2 \<le> length p"
    by (rule le_trans [OF div_le_dividend length_filter_le])
  ultimately show ?thesis by (simp add: compact_key_def)
qed

lemma shorten_inner:
  assumes "hash_fun K"
  shows "length (rlp_enc (shorten K True x)) \<le> 41"
proof (cases "32 \<le> length (rlp_enc x)")
  case True
  then show ?thesis using assms enc_str_le [of "K (rlp_enc x)"] by (simp add: shorten_def hash_fun_def)
qed (simp add: shorten_def)

lemma shorten_length:
  assumes "hash_fun K" and "\<And>v. lookup t [] = Some v \<Longrightarrow> length v < 2 ^ 34"
  shows "length (rlp_enc (shorten K (inner_trie t) (trie_item K t))) \<le> 2 ^ 34 + 9"
proof (cases "inner_trie t")
  case True
  then show ?thesis using shorten_inner [OF assms(1), of "trie_item K t"] by simp
next
  case False
  then consider "t = Empty" | v where "t = Leaf v" by (cases t) auto
  then show ?thesis
  proof cases
    case 2
    then show ?thesis using assms(2) enc_str_le [of v] by simp
  qed simp
qed

lemma small_encodable:
  assumes "hash_fun K"
  shows "ctrie t \<or> is_Leaf t \<or> t = Empty \<Longrightarrow> (\<And>k v. lookup t k = Some v \<Longrightarrow> length k < 2 ^ 34 \<and> length v < 2 ^ 34) \<Longrightarrow> encodable K t"
proof (induction t)
  case (Ext p t)
  have c: "ctrie (Ext p t)" "ctrie t \<or> is_Leaf t" using Ext.prems(1) by auto
  have l: "length (p @ k) < 2 ^ 34 \<and> length v < 2 ^ 34" if "lookup t k = Some v" for k v
    using Ext.prems(2) [of "p @ k" v] that by simp
  obtain k v where "lookup t k = Some v" using ctrie_nonempty [OF c(2)] by blast
  then have "length (compact_key p) < 2 ^ 34 + 1" using l [of k v] compact_key_length [OF c(1)] by simp
  then have "length (rlp_enc (Str (compact_key p))) \<le> 2 ^ 34 + 10" using enc_str_le [of "compact_key p"] by simp
  moreover have "length (rlp_enc (shorten K (inner_trie t) (trie_item K t))) \<le> 2 ^ 34 + 9"
    using shorten_length [OF assms, of t] l by blast
  ultimately have "length (trie_enc K (Ext p t)) < 2 ^ 64"
    unfolding trie_enc_def trie_item.simps by (intro enc_list_le [where n = "2 ^ 34 + 10"]) auto
  moreover have "encodable K t" using Ext.IH c(2) l by force
  ultimately show ?case by simp
next
  case (Branch ts)
  then have b: "ctrie (Branch ts)" by simp
  note c = ctrie_children [OF b]
  have l: "length k < 2 ^ 34 \<and> length v < 2 ^ 34" if "t \<in> set ts" "lookup t k = Some v" for t k v
  proof -
    note s = that
    obtain i where "i < 17" "t = ts ! i" using s(1) c(1) by (auto simp: in_set_conv_nth)
    then show ?thesis using Branch.prems(2) [of "of_nat i # k" v] s(2) c(1)
      by (simp add: unsigned_of_nat take_bit_nat_eq_self)
  qed
  have "length (rlp_enc (shorten K (inner_trie t) (trie_item K t))) \<le> 2 ^ 34 + 9" if "t \<in> set ts" for t
    using shorten_length [OF assms, of t] l [OF that] by blast
  then have "length (trie_enc K (Branch ts)) < 2 ^ 64"
    unfolding trie_enc_def trie_item.simps using c(1) by (intro enc_list_le [where n = "2 ^ 34 + 9"]) auto
  moreover have "encodable K t" if "t \<in> set ts" for t using Branch.IH [OF that] c(2) l that by auto
  ultimately show ?case by simp
qed auto

lemma holds_encodable:
  assumes "holds t m" and "small_map m" and "hash_fun K"
  shows "encodable K t"
proof (rule small_encodable [OF assms(3)])
  show "ctrie t \<or> is_Leaf t \<or> t = Empty" using assms(1) by (auto simp: holds_def canon_def)
  fix k v assume l: "lookup t k = Some v"
  then obtain key where k: "k = keybytesToHex key" using assms(1) unfolding holds_def by blast
  then have "m key = Some v" using l assms(1) by (simp add: holds_def)
  then show "length k < 2 ^ 34 \<and> length v < 2 ^ 34"
    using assms(2) k by (fastforce simp: small_map_def keybytesToHex_eq)
qed

section \<open>The root hash\<close>

lemma Trie_Hash_root:
  assumes "trie_map (refers K) T m" and "small_map m" and "hash_fun K" and "holds t m"
  shows "\<exists>T'. Trie_Hash K T = (T', Inr (BytesToHash (trie_root K t))) \<and> trie_map (refers K) T' m"
proof -
  have r: "repr (refers K) (Db T) True (root T) t" using assms(1,4) holds_unique by (auto simp: trie_map_def)
  show ?thesis
  proof (cases "t = Empty")
    case True
    then have "root T = NilNode" using r repr_Empty by simp
    then show ?thesis using True assms(1) by (simp add: Trie_Hash_def hashRoot_def trie_root_def trie_map_def)
  next
    case False
    then have c: "ctrie t" "inner_trie t" "root T \<noteq> NilNode" using assms(4) r by (auto simp: holds_def canon_def elim: ctrie.elims)
    obtain h n where "hasher_hash K (root T) True = Inr (h, n)" "hashes_to K (Db T) True t h n"
      using hash_refines [OF r] c holds_encodable [OF assms(4,2,3)] by blast
    then show ?thesis
      using c False assms(4) by (auto simp: Trie_Hash_def hashRoot_def hashes_to_def trie_root_def trie_map_def)
  qed
qed

section \<open>The root hash determines the content\<close>

text \<open>The encodings a hash of the trie is computed from.\<close>

fun encodings :: "(byte list \<Rightarrow> byte list) \<Rightarrow> ptrie \<Rightarrow> byte list list" where
  "encodings K (Ext p t) = trie_enc K (Ext p t) # encodings K t"
| "encodings K (Branch ts) = trie_enc K (Branch ts) # concat (map (encodings K) ts)"
| "encodings K _ = []"

definition root_encodings :: "(byte list \<Rightarrow> byte list) \<Rightarrow> ptrie \<Rightarrow> byte list list" where
  "root_encodings K t = (if t = Empty then [[0x80]] else encodings K t)"

definition distinguished :: "(byte list \<Rightarrow> byte list) \<Rightarrow> byte list list \<Rightarrow> byte list list \<Rightarrow> bool" where
  "distinguished K xs ys \<longleftrightarrow> (\<forall>x\<in>set xs. \<forall>y\<in>set ys. K x = K y \<longrightarrow> x = y)"

lemma encodings_inner: "inner_trie t \<Longrightarrow> trie_enc K t \<in> set (encodings K t)"
  by (cases t) auto

lemma encodable_bound: "inner_trie t \<Longrightarrow> encodable K t \<Longrightarrow> length (trie_enc K t) < 2 ^ 64"
  by (cases t) auto

lemma inner_item: "inner_trie t \<Longrightarrow> \<exists>xs. trie_item K t = Lst xs"
  by (cases t) auto

lemma shorten_inj:
  assumes e: "shorten K True (trie_item K t) = shorten K True (trie_item K u)"
    and "inner_trie t" and "inner_trie u" and "encodable K t" and "distinguished K (encodings K t) (encodings K u)"
  shows "trie_item K t = trie_item K u"
proof -
  have b: "length (rlp_enc (trie_item K t)) < 2 ^ 64" using encodable_bound [OF assms(2,4)] by (simp add: trie_enc_def)
  have d: "rlp_enc (trie_item K t) = rlp_enc (trie_item K u)" if "K (rlp_enc (trie_item K t)) = K (rlp_enc (trie_item K u))"
    using that assms(5) encodings_inner [OF assms(2), of K] encodings_inner [OF assms(3), of K] by (simp add: distinguished_def trie_enc_def)
  show ?thesis
    using e d rlp_enc_inj [OF _ b, of "trie_item K u"] inner_item [OF assms(2), of K] inner_item [OF assms(3), of K]
    by (auto simp: shorten_def simp del: rlp_enc.simps split: if_splits)
qed

text \<open>A reference to a node, an empty place or a value: equal ones stand for the same trie.\<close>

lemma reference_inj:
  assumes e: "shorten K (inner_trie t) (trie_item K t) = shorten K (inner_trie u) (trie_item K u)"
    and "(t = Empty \<or> inner_trie t) \<and> (u = Empty \<or> inner_trie u) \<or> (t = Empty \<or> is_Leaf t) \<and> (u = Empty \<or> is_Leaf u)"
    and "encodable K t" and "distinguished K (encodings K t) (encodings K u)" and "hash_fun K"
    and IH: "inner_trie t \<Longrightarrow> inner_trie u \<Longrightarrow> trie_item K t = trie_item K u \<Longrightarrow> t = u"
  shows "t = u"
proof -
  have n: "shorten K True (trie_item K x) \<noteq> Str []" if "inner_trie x" for x
    using inner_item [OF that, of K] assms(5) by (auto simp: shorten_def hash_fun_def simp del: rlp_enc.simps dest: arg_cong [of _ _ length])
  consider "inner_trie t" "inner_trie u" | "t = Empty" "inner_trie u" | "inner_trie t" "u = Empty" | "\<not> inner_trie t" "\<not> inner_trie u"
    using assms(2) by (cases t; cases u) auto
  then show ?thesis
  proof cases
    case 1
    then show ?thesis using shorten_inj [of K t u] e assms(3,4) IH by simp
  next
    case 2
    then show ?thesis using e n [of u] by simp
  next
    case 3
    then show ?thesis using e n [of t] by simp
  next
    case 4
    then show ?thesis using e assms(2) by (cases t; cases u) auto
  qed
qed

lemma term_key_not_nibbles: "term_key p \<Longrightarrow> \<not> nibbles p"
  by (auto simp: term_key_def)

lemma ctrie_inner: "ctrie t \<Longrightarrow> inner_trie t"
  by (cases t) auto

lemma inner_ctrie: "t = Empty \<or> ctrie t \<or> is_Leaf t \<Longrightarrow> inner_trie t \<Longrightarrow> ctrie t"
  by (cases t) auto

lemma ctrie_slot:
  assumes "ctrie (Branch ts)" and "i < 17"
  shows "if i < 16 then ts ! i = Empty \<or> inner_trie (ts ! i) else ts ! i = Empty \<or> is_Leaf (ts ! i)"
proof (cases "i < 16")
  case True
  then have "ts ! i \<in> set (take 16 ts)" using assms(1) by (auto simp: in_set_conv_nth intro!: exI [of _ i])
  then show ?thesis using True assms(1) ctrie_inner by auto
next
  case False
  then have "i = 16" using assms(2) by simp
  then show ?thesis using assms(1) by simp
qed

lemma item_same_form:
  assumes "trie_item K t = trie_item K u" and "ctrie t" and "ctrie u"
  shows "is_Branch t \<longleftrightarrow> is_Branch u"
proof -
  have "length xs = (if is_Branch x then 17 else 2)" if "trie_item K x = Lst xs" "ctrie x" for x xs
    using that by (cases x) auto
  moreover obtain xs where "trie_item K t = Lst xs" using inner_item ctrie_inner assms(2) by blast
  ultimately have "(if is_Branch t then 17 else 2 :: nat) = (if is_Branch u then 17 else 2)" using assms by metis
  then show ?thesis by (simp split: if_splits)
qed

lemma trie_item_inj:
  assumes "hash_fun K"
  shows "ctrie t \<Longrightarrow> ctrie u \<Longrightarrow> encodable K t \<Longrightarrow> distinguished K (encodings K t) (encodings K u) \<Longrightarrow>
    trie_item K t = trie_item K u \<Longrightarrow> t = u"
proof (induction t arbitrary: u)
  case (Ext p t)
  obtain q w where u: "u = Ext q w" using item_same_form [OF Ext.prems(5,1,2)] Ext.prems(2) by (cases u) auto
  have pq: "p = q" using Ext.prems ctrie_key u by (metis item.inject list.inject trie_item.simps(3))
  have k: "inner_trie t \<and> inner_trie w \<or> is_Leaf t \<and> is_Leaf w"
    using Ext.prems(1,2) u pq term_key_not_nibbles by (cases t; cases w) auto
  have "t = w"
  proof (rule reference_inj [OF _ _ _ _ assms])
    show "shorten K (inner_trie t) (trie_item K t) = shorten K (inner_trie w) (trie_item K w)" using Ext.prems(5) u by simp
    show "distinguished K (encodings K t) (encodings K w)" using Ext.prems(4) u by (auto simp: distinguished_def)
    then show "t = w" if "inner_trie t" "inner_trie w" "trie_item K t = trie_item K w"
      using Ext.IH [of w] that Ext.prems u by (cases t; cases w) auto
  qed (use Ext.prems k in auto)
  then show ?case using u pq by simp
next
  case (Branch ts)
  obtain us where u: "u = Branch us" using item_same_form [OF Branch.prems(5,1,2)] by (cases u) auto
  note c = ctrie_children [OF Branch.prems(1)] ctrie_children [OF Branch.prems(2) [unfolded u]]
  have m: "map (\<lambda>t. shorten K (inner_trie t) (trie_item K t)) ts = map (\<lambda>t. shorten K (inner_trie t) (trie_item K t)) us"
    using Branch.prems(5) u by simp
  have "ts = us"
  proof (rule nth_equalityI)
    fix i assume i: "i < length ts"
    have s: "ts ! i \<in> set ts" "us ! i \<in> set us" using i c(1,4) by auto
    show "ts ! i = us ! i"
    proof (rule reference_inj [OF _ _ _ _ assms])
      show "shorten K (inner_trie (ts ! i)) (trie_item K (ts ! i)) = shorten K (inner_trie (us ! i)) (trie_item K (us ! i))"
        using arg_cong [OF m, of "\<lambda>xs. xs ! i"] i c(1,4) by simp
      show "distinguished K (encodings K (ts ! i)) (encodings K (us ! i))"
        using Branch.prems(4) u s by (auto simp: distinguished_def)
      then show "ts ! i = us ! i" if "inner_trie (ts ! i)" "inner_trie (us ! i)" "trie_item K (ts ! i) = trie_item K (us ! i)"
        using Branch.IH [OF s(1), of "us ! i"] that inner_ctrie c(2,5) s Branch.prems(3) unfolding encodable.simps by blast
      show "(ts ! i = Empty \<or> inner_trie (ts ! i)) \<and> (us ! i = Empty \<or> inner_trie (us ! i))
          \<or> (ts ! i = Empty \<or> is_Leaf (ts ! i)) \<and> (us ! i = Empty \<or> is_Leaf (us ! i))"
        using ctrie_slot [OF Branch.prems(1), of i] ctrie_slot [OF Branch.prems(2) [unfolded u], of i] i c(1) by (cases "i < 16") auto
    qed (use Branch.prems(3) s in auto)
  qed (use c in simp)
  then show ?case using u by simp
qed auto

lemma hash_bytes_BytesToHash:
  assumes "length b = 32"
  shows "hash_bytes (BytesToHash b) = b"
proof -
  have "be_val b < 2 ^ 256" using be_val_less [of b] assms by simp
  then have "unat (BytesToHash b) = be_val b"
    using assms by (simp add: BytesToHash_def unsigned_of_nat take_bit_nat_eq_self)
  then show ?thesis using be_bytes_be_val [of b] assms by (simp add: hash_bytes_def)
qed

lemma trie_root_length: "hash_fun K \<Longrightarrow> length (trie_root K t) = 32"
  by (simp add: trie_root_def hash_fun_def)

lemma trie_root_encoding:
  assumes "K [0x80] = hash_bytes emptyRoot" and "holds t m"
  shows "\<exists>x\<in>set (root_encodings K t). trie_root K t = K x \<and> x = rlp_enc (trie_item K t)"
proof (cases "t = Empty")
  case True
  then show ?thesis using assms(1) by (simp add: root_encodings_def trie_root_def)
next
  case False
  then have "inner_trie t" using assms(2) ctrie_inner by (auto simp: holds_def canon_def)
  then show ?thesis using False encodings_inner [of t K] by (auto simp: root_encodings_def trie_root_def trie_enc_def simp del: rlp_enc.simps)
qed

lemma trie_root_inj:
  assumes "hash_fun K" and "K [0x80] = hash_bytes emptyRoot" and "holds t m" and "holds u m'" and "small_map m"
    and "distinguished K (root_encodings K t) (root_encodings K u)" and "trie_root K t = trie_root K u"
  shows "t = u"
proof -
  have e: "encodable K t" by (rule holds_encodable [OF assms(3,5,1)])
  obtain x y where xy: "x \<in> set (root_encodings K t)" "trie_root K t = K x" "x = rlp_enc (trie_item K t)"
      "y \<in> set (root_encodings K u)" "trie_root K u = K y" "y = rlp_enc (trie_item K u)"
    using trie_root_encoding [of K t m] trie_root_encoding [of K u m'] assms(2-4) by blast
  then have "x = y" using assms(6,7) unfolding distinguished_def by metis
  moreover have "length (rlp_enc (trie_item K t)) < 2 ^ 64"
    using encodable_bound [OF _ e] ctrie_inner assms(3) by (cases "t = Empty") (auto simp: holds_def canon_def trie_enc_def)
  ultimately have i: "trie_item K t = trie_item K u" using rlp_enc_inj xy(3,6) by blast
  have c: "t = Empty \<or> ctrie t" "u = Empty \<or> ctrie u" using assms(3,4) by (auto simp: holds_def canon_def)
  show ?thesis
  proof (cases "t = Empty \<or> u = Empty")
    case True
    then show ?thesis using i c inner_item [OF ctrie_inner, of t K] inner_item [OF ctrie_inner, of u K] by auto
  next
    case False
    then show ?thesis using trie_item_inj [OF assms(1) _ _ e _ i] c assms(6) by (simp add: root_encodings_def)
  qed
qed

lemma TryUpdate_keeps: "trie_map Q T m \<Longrightarrow> trie_map Q (fst (TryUpdate key v T)) (m(key := written [] v))"
  using TryUpdate_map [of Q T m key v] by auto

definition sample_hash :: "byte list \<Rightarrow> byte list" where
  "sample_hash x = (if x = [0x80] then hash_bytes emptyRoot else be_bytes 32 (be_val x))"

definition empty_trie :: Trie where
  "empty_trie = \<lparr>Db = Map.empty, root = NilNode, unhashed = 0\<rparr>"

definition sample_trie1 :: Trie where
  "sample_trie1 = fst (TryUpdate [0x12, 0x35] [2] (fst (TryUpdate [0x12] [1] empty_trie)))"

definition sample_trie2 :: Trie where
  "sample_trie2 = fst (TryUpdate [0x77] [] (fst (TryUpdate [0x12] [1] (fst (TryUpdate [0x12, 0x35] [2] (fst (TryUpdate [0x77] [3] empty_trie)))))))"

lemma sample_hash_props: "hash_fun sample_hash" "sample_hash [0x80] = hash_bytes emptyRoot"
  by (simp_all add: hash_fun_def sample_hash_def)

lemma sample_tries:
  "trie_map (refers sample_hash) sample_trie1 [[0x12] \<mapsto> [1], [0x12, 0x35] \<mapsto> [2]]"
  "trie_map (refers sample_hash) sample_trie2 [[0x12] \<mapsto> [1], [0x12, 0x35] \<mapsto> [2]]"
  "small_map [[0x12] \<mapsto> [1], [0x12, 0x35] \<mapsto> [2 :: byte]]"
proof -
  have e: "trie_map (refers sample_hash) empty_trie Map.empty"
    using holds_Empty by (auto simp: trie_map_def empty_trie_def)
  show "trie_map (refers sample_hash) sample_trie1 [[0x12] \<mapsto> [1], [0x12, 0x35] \<mapsto> [2]]"
    using TryUpdate_keeps [OF TryUpdate_keeps [OF e, of "[0x12]" "[1]"], of "[0x12, 0x35]" "[2]"]
    by (simp add: sample_trie1_def written_def)
  have "Map.empty([0x77] \<mapsto> [3], [0x12, 0x35] \<mapsto> [2], [0x12] \<mapsto> [1], [0x77] := None) = [[0x12 :: byte] \<mapsto> [1 :: byte], [0x12, 0x35] \<mapsto> [2]]"
    by (rule ext) simp
  then show "trie_map (refers sample_hash) sample_trie2 [[0x12] \<mapsto> [1], [0x12, 0x35] \<mapsto> [2]]"
    using TryUpdate_keeps [OF TryUpdate_keeps [OF TryUpdate_keeps [OF TryUpdate_keeps [OF e, of "[0x77]" "[3]"],
      of "[0x12, 0x35]" "[2]"], of "[0x12]" "[1]"], of "[0x77]" "[]"]
    by (simp add: sample_trie2_def written_def)
  show "small_map [[0x12] \<mapsto> [1], [0x12, 0x35] \<mapsto> [2 :: byte]]" by (auto simp: small_map_def)
qed

text \<open>
  C5: The root hash of a trie is a function of its content: hashing succeeds, keeps the content, and two tries that hold
  the same map have the same root hash, whatever sequences of operations, reloads and earlier hash
  computations led to them. The cached hashes and the references into the database are assumed to be
  hashes of the subtries they stand for, and are so again afterwards.
\<close>

theorem root_hash_of_content:
  assumes "trie_map (refers K) T m" and "trie_map (refers K) U m" and "small_map m" and "hash_fun K"
  shows "\<exists>T' U' h. Trie_Hash K T = (T', Inr h) \<and> Trie_Hash K U = (U', Inr h)
    \<and> trie_map (refers K) T' m \<and> trie_map (refers K) U' m"
proof -
  obtain t where "holds t m" using assms(1) by (auto simp: trie_map_def)
  then show ?thesis using Trie_Hash_root [OF assms(1,3,4)] Trie_Hash_root [OF assms(2,3,4)] by blast
qed

text \<open>
  C4: The root hash determines the content: when two tries have the same root hash, they hold the same map,
  or the hash function has a collision between two of the encodings the two hashes were computed from.
  The empty root is the hash of the encoding of the empty string.
\<close>

theorem root_hash_binds:
  assumes "trie_map (refers K) T m" and "trie_map (refers K) U m'" and "small_map m" and "small_map m'"
    and "hash_fun K" and "K [0x80] = hash_bytes emptyRoot"
    and "snd (Trie_Hash K T) = snd (Trie_Hash K U)"
  shows "m = m' \<or> (\<exists>t u. holds t m \<and> holds u m' \<and> \<not> distinguished K (root_encodings K t) (root_encodings K u))"
proof (rule disjCI)
  assume n: "\<nexists>t u. holds t m \<and> holds u m' \<and> \<not> distinguished K (root_encodings K t) (root_encodings K u)"
  obtain t u where h: "holds t m" "holds u m'" using assms(1,2) by (auto simp: trie_map_def)
  have "BytesToHash (trie_root K t) = BytesToHash (trie_root K u)"
    using Trie_Hash_root [OF assms(1,3,5) h(1)] Trie_Hash_root [OF assms(2,4,5) h(2)] assms(7) by auto
  then have "trie_root K t = trie_root K u" using hash_bytes_BytesToHash trie_root_length [OF assms(5)] by metis
  then have "t = u" using trie_root_inj [of K t m u m'] n h assms(3,5,6) by blast
  then show "m = m'" using h by (auto simp: holds_def fun_eq_iff)
qed

theorem root_hash_of_content_witness:
  "trie_map (refers sample_hash) sample_trie1 [[0x12] \<mapsto> [1], [0x12, 0x35] \<mapsto> [2]]
   \<and> trie_map (refers sample_hash) sample_trie2 [[0x12] \<mapsto> [1], [0x12, 0x35] \<mapsto> [2]]
   \<and> snd (Trie_Hash sample_hash sample_trie1) = snd (Trie_Hash sample_hash sample_trie2)"
  using root_hash_of_content [OF sample_tries sample_hash_props(1)] sample_tries by auto

theorem root_hash_binds_witness:
  "snd (Trie_Hash sample_hash sample_trie1) = snd (Trie_Hash sample_hash sample_trie2)
   \<and> ([[0x12] \<mapsto> [1], [0x12, 0x35] \<mapsto> [2]] = [[0x12 :: byte] \<mapsto> [1 :: byte], [0x12, 0x35] \<mapsto> [2]]
      \<or> (\<exists>t u. holds t [[0x12] \<mapsto> [1], [0x12, 0x35] \<mapsto> [2]] \<and> holds u [[0x12] \<mapsto> [1], [0x12, 0x35] \<mapsto> [2]]
           \<and> \<not> distinguished sample_hash (root_encodings sample_hash t) (root_encodings sample_hash u)))"
proof -
  obtain t where t: "holds t [[0x12] \<mapsto> [1], [0x12, 0x35] \<mapsto> [2]]" using sample_tries(1) by (auto simp: trie_map_def)
  have "snd (Trie_Hash sample_hash sample_trie1) = snd (Trie_Hash sample_hash sample_trie2)"
    using Trie_Hash_root [OF sample_tries(1,3) sample_hash_props(1) t] Trie_Hash_root [OF sample_tries(2,3) sample_hash_props(1) t] by auto
  then show ?thesis
    using root_hash_binds [OF sample_tries(1,2,3,3) sample_hash_props] by blast
qed

end
