(* ===== verification/Contract_Storage.thy ===== *)
theory Contract_Storage
  imports Prelude
begin

text \<open>
  Reading the storage of the system contracts from the state (\<^verbatim>\<open>src/core/state/state_reader.go\<close> and
  \<^verbatim>\<open>statedb_utils.go\<close>): the places the Solidity compiler gives to variables, mappings and dynamic
  arrays, and the candidates, owners, voters, signers and random secrets that are kept there. The state is the function
  that \<^verbatim>\<open>GetState\<close> computes; \<open>K\<close> is Keccak-256.
\<close>

type_synonym storage = "address \<Rightarrow> hash \<Rightarrow> hash"

section \<open>Conversions\<close>

definition BigToHash :: "int \<Rightarrow> hash" where
  "BigToHash b = of_nat (nat \<bar>b\<bar>)"

definition Hash_Big :: "hash \<Rightarrow> int" where
  "Hash_Big h = int (unat h)"

definition Address_Hash :: "address \<Rightarrow> hash" where
  "Address_Hash a = ucast a"

text \<open>\<^verbatim>\<open>common.HexToAddress(ret.Hex())\<close>: the hex text of a hash is read back and its last 20 bytes are kept.\<close>

definition hash_address :: "hash \<Rightarrow> address" where
  "hash_address h = ucast h"

section \<open>Places in the storage\<close>

definition GetLocSimpleVariable :: "u64 \<Rightarrow> hash" where
  "GetLocSimpleVariable slot = BigToHash (uint slot)"

definition GetLocMappingAtKey :: "(byte list \<Rightarrow> hash) \<Rightarrow> hash \<Rightarrow> u64 \<Rightarrow> int" where
  "GetLocMappingAtKey K key slot = Hash_Big (K (hash_bytes key @ hash_bytes (BigToHash (uint slot))))"

definition GetLocDynamicArrAtElement :: "(byte list \<Rightarrow> hash) \<Rightarrow> hash \<Rightarrow> u64 \<Rightarrow> u64 \<Rightarrow> hash" where
  "GetLocDynamicArrAtElement K slotHash index elementSize =
    BigToHash (Hash_Big (K (hash_bytes slotHash)) + uint (index * elementSize))"

definition GetLocFixedArrAtElement :: "u64 \<Rightarrow> u64 \<Rightarrow> u64 \<Rightarrow> hash" where
  "GetLocFixedArrAtElement slot index elementSize = BigToHash (uint slot + uint (index * elementSize))"

definition GetLocOfStructElement :: "int \<Rightarrow> int \<Rightarrow> hash" where
  "GetLocOfStructElement locOfStruct elementSlotInstruct = BigToHash (locOfStruct + elementSlotInstruct)"

section \<open>The system contracts\<close>

definition MasternodeVotingSMCBinary :: address where
  "MasternodeVotingSMCBinary = 0x88"

definition BlockSignersBinary :: address where
  "BlockSignersBinary = 0x89"

definition RandomizeSMCBinary :: address where
  "RandomizeSMCBinary = 0x90"

text \<open>The words of a dynamic array of one-word elements whose length is kept at \<open>loc\<close>.\<close>

definition array_words :: "(byte list \<Rightarrow> hash) \<Rightarrow> storage \<Rightarrow> address \<Rightarrow> hash \<Rightarrow> hash list" where
  "array_words K st c loc =
    map (\<lambda>i. st c (GetLocDynamicArrAtElement K loc (of_nat i) 1)) [0..<unat (big_Uint64 (Hash_Big (st c loc)))]"

definition slot_blockSigners :: u64 where "slot_blockSigners = 0"
definition slot_randomSecret :: u64 where "slot_randomSecret = 0"
definition slot_randomOpening :: u64 where "slot_randomOpening = 1"
definition slot_validatorsState :: u64 where "slot_validatorsState = 1"
definition slot_voters :: u64 where "slot_voters = 2"
definition slot_candidates :: u64 where "slot_candidates = 8"

definition GetSigners :: "(byte list \<Rightarrow> hash) \<Rightarrow> storage \<Rightarrow> hash \<Rightarrow> address list" where
  "GetSigners K st blockHash =
    (let keyArrSlot = GetLocMappingAtKey K blockHash slot_blockSigners
     in map hash_address (array_words K st BlockSignersBinary (BigToHash keyArrSlot)))"

definition GetSecret :: "(byte list \<Rightarrow> hash) \<Rightarrow> storage \<Rightarrow> address \<Rightarrow> hash list" where
  "GetSecret K st addr =
    (let locSecret = GetLocMappingAtKey K (Address_Hash addr) slot_randomSecret
     in array_words K st RandomizeSMCBinary (BigToHash locSecret))"

definition GetOpening :: "(byte list \<Rightarrow> hash) \<Rightarrow> storage \<Rightarrow> address \<Rightarrow> hash" where
  "GetOpening K st addr =
    st RandomizeSMCBinary (BigToHash (GetLocMappingAtKey K (Address_Hash addr) slot_randomOpening))"

definition GetCandidates :: "(byte list \<Rightarrow> hash) \<Rightarrow> storage \<Rightarrow> address list" where
  "GetCandidates K st =
    map hash_address (filter (\<lambda>ret. ret \<noteq> 0) (array_words K st MasternodeVotingSMCBinary (BigToHash (uint slot_candidates))))"

definition GetCandidateOwner :: "(byte list \<Rightarrow> hash) \<Rightarrow> storage \<Rightarrow> address \<Rightarrow> address" where
  "GetCandidateOwner K st candidate =
    (let locValidatorsState = GetLocMappingAtKey K (Address_Hash candidate) slot_validatorsState
     in hash_address (st MasternodeVotingSMCBinary (BigToHash (locValidatorsState + 0))))"

definition GetCandidateCap :: "(byte list \<Rightarrow> hash) \<Rightarrow> storage \<Rightarrow> address \<Rightarrow> int" where
  "GetCandidateCap K st candidate =
    (let locValidatorsState = GetLocMappingAtKey K (Address_Hash candidate) slot_validatorsState
     in Hash_Big (st MasternodeVotingSMCBinary (BigToHash (locValidatorsState + 1))))"

definition GetVoters :: "(byte list \<Rightarrow> hash) \<Rightarrow> storage \<Rightarrow> address \<Rightarrow> address list" where
  "GetVoters K st candidate =
    (let locVoters = GetLocMappingAtKey K (Address_Hash candidate) slot_voters
     in map hash_address (array_words K st MasternodeVotingSMCBinary (BigToHash locVoters)))"

definition GetVoterCap :: "(byte list \<Rightarrow> hash) \<Rightarrow> storage \<Rightarrow> address \<Rightarrow> address \<Rightarrow> int" where
  "GetVoterCap K st candidate voter =
    (let locValidatorsState = GetLocMappingAtKey K (Address_Hash candidate) slot_validatorsState;
         locCandidateVoters = locValidatorsState + 2;
         ret = K (hash_bytes (Address_Hash voter) @ hash_bytes (BigToHash locCandidateVoters))
     in Hash_Big (st MasternodeVotingSMCBinary ret))"

section \<open>Arrays in the storage\<close>

lemma hash_address_inverse [simp]: "hash_address (Address_Hash a) = a"
  unfolding hash_address_def Address_Hash_def by (rule bit_word_eqI) (simp add: bit_simps)

lemma BigToHash_nat: "0 \<le> b \<Longrightarrow> BigToHash b = of_int b"
  by (simp add: BigToHash_def)

lemma element_places:
  "GetLocDynamicArrAtElement K loc i 1 = K (hash_bytes loc) + ucast i"
proof -
  let ?h = "K (hash_bytes loc)"
  have "BigToHash (int (unat ?h) + uint i) = word_of_int (int (unat ?h)) + word_of_int (uint i)"
    by (simp add: BigToHash_nat)
  also have "\<dots> = ?h + ucast i" by simp
  finally show ?thesis by (simp add: GetLocDynamicArrAtElement_def Hash_Big_def)
qed

text \<open>Different elements of an array have different places.\<close>

lemma element_places_inj: "GetLocDynamicArrAtElement K loc i 1 = GetLocDynamicArrAtElement K loc j 1 \<Longrightarrow> i = j"
proof -
  assume "GetLocDynamicArrAtElement K loc i 1 = GetLocDynamicArrAtElement K loc j 1"
  then have "(ucast i :: hash) = ucast j" by (simp add: element_places)
  then have "unat (ucast i :: hash) = unat (ucast j :: hash)" by simp
  moreover have "take_bit 256 (unat x) = unat x" for x :: u64
    using unsigned_less [of x, where ?'a = nat] by (simp add: take_bit_nat_eq_self)
  ultimately show "i = j" by (simp add: unsigned_ucast_eq word_unat_eq_iff)
qed

lemma array_words_length: "length (array_words K st c loc) = unat (big_Uint64 (Hash_Big (st c loc)))"
  by (simp add: array_words_def)

text \<open>
  The state after the contract has written an array: its length at \<open>loc\<close> and its elements from the hash of \<open>loc\<close> on.
\<close>

definition stores_array :: "(byte list \<Rightarrow> hash) \<Rightarrow> storage \<Rightarrow> address \<Rightarrow> hash \<Rightarrow> hash list \<Rightarrow> bool" where
  "stores_array K st c loc ws \<longleftrightarrow> st c loc = of_nat (length ws) \<and> (\<forall>i<length ws. st c (K (hash_bytes loc) + of_nat i) = ws ! i)"

lemma array_words_stored:
  assumes "stores_array K st c loc ws" and "length ws < 2 ^ 64"
  shows "array_words K st c loc = ws"
proof -
  have l: "length (array_words K st c loc) = length ws"
    using assms by (simp add: array_words_length stores_array_def Hash_Big_def big_Uint64_def unsigned_of_nat take_bit_nat_eq_self)
  show ?thesis
  proof (rule nth_equalityI [OF l])
    fix i assume "i < length (array_words K st c loc)"
    then show "array_words K st c loc ! i = ws ! i"
      using assms l by (simp add: array_words_def element_places stores_array_def unsigned_of_nat take_bit_nat_eq_self)
  qed
qed

end
