(* ===== verification/Rewards.thy ===== *)
theory Rewards
  imports Contract_Storage "HOL-Library.AList" "HOL-Library.Multiset"
begin

text \<open>
  How the reward of an epoch is shared (\<^verbatim>\<open>src/eth/util\<close> and \<^verbatim>\<open>src/contracts/utils.go\<close>): halving over the years,
  the parts of the signers by the blocks they signed, and the parts of the owner, the voters and the foundation
  in the reward of a masternode. A Go map is a list of entries with different keys; the order in which a
  loop visits a map is given by the argument \<open>rng\<close>.
\<close>

section \<open>Maps\<close>

definition range_map :: "(address list \<Rightarrow> address list) \<Rightarrow> (address \<times> 'v) list \<Rightarrow> (address \<times> 'v) list" where
  "range_map rng m = map (\<lambda>k. (k, the (map_of m k))) (rng (map fst m))"

definition rng_ok :: "(address list \<Rightarrow> address list) \<Rightarrow> bool" where
  "rng_ok rng \<longleftrightarrow> (\<forall>ks. distinct ks \<longrightarrow> mset (rng ks) = mset ks)"

definition map_total :: "(address \<times> int) list \<Rightarrow> int" where
  "map_total m = sum_list (map snd m)"

section \<open>Operations\<close>

definition RewardMasterPercent :: int where "RewardMasterPercent = 90"
definition RewardVoterPercent :: int where "RewardVoterPercent = 0"
definition RewardFoundationPercent :: int where "RewardFoundationPercent = 10"

record RewardLog =
  Sign :: u64
  RL_Reward :: int

definition isForked :: "int option \<Rightarrow> int \<Rightarrow> bool" where
  "isForked s head = (case s of None \<Rightarrow> False | Some n \<Rightarrow> n \<le> head)"

definition RewardInflation :: "int option \<Rightarrow> int \<Rightarrow> u64 \<Rightarrow> u64 \<Rightarrow> int" where
  "RewardInflation TIPNoHalvingMNReward chainReward number blockPerYear =
    (if isForked TIPNoHalvingMNReward (uint number) then chainReward
     else let chainReward = (if blockPerYear * 2 \<le> number \<and> number < blockPerYear * 5 then chainReward div 2 else chainReward)
          in if blockPerYear * 5 \<le> number then chainReward div 4 else chainReward)"

definition signer_reward :: "int \<Rightarrow> u64 \<Rightarrow> RewardLog \<Rightarrow> int" where
  "signer_reward chainReward totalSigner rLog = chainReward div uint totalSigner * uint (Sign rLog)"

text \<open>\<^verbatim>\<open>CalculateRewardForSigner\<close> also notes the reward in the log of the signer.\<close>

definition CalculateRewardForSigner ::
  "int \<Rightarrow> (address \<times> RewardLog) list \<Rightarrow> u64 \<Rightarrow> (address \<times> RewardLog) list \<times> (address \<times> int) list" where
  "CalculateRewardForSigner chainReward signers totalSigner =
    (if 0 < totalSigner
     then (map (\<lambda>(signer, rLog). (signer, rLog\<lparr>RL_Reward := signer_reward chainReward totalSigner rLog\<rparr>)) signers,
           map (\<lambda>(signer, rLog). (signer, signer_reward chainReward totalSigner rLog)) signers)
     else (signers, []))"

fun voter_caps :: "bool \<Rightarrow> (address \<Rightarrow> int) \<Rightarrow> address list \<Rightarrow> int \<times> (address \<times> int) list \<Rightarrow> int \<times> (address \<times> int) list" where
  "voter_caps once voterCap [] (totalCap, voterCaps) = (totalCap, voterCaps)"
| "voter_caps once voterCap (voteAddr # voters) (totalCap, voterCaps) =
    (if map_of voterCaps voteAddr \<noteq> None \<and> once then voter_caps once voterCap voters (totalCap, voterCaps)
     else voter_caps once voterCap voters (totalCap + voterCap voteAddr, AList.update voteAddr (voterCap voteAddr) voterCaps))"

fun share_caps :: "int \<Rightarrow> int \<Rightarrow> (address \<times> int) list \<Rightarrow> (address \<times> int) list \<Rightarrow> (address \<times> int) list" where
  "share_caps totalVoterReward totalCap [] balances = balances"
| "share_caps totalVoterReward totalCap ((addr, voteCap) # caps) balances =
    share_caps totalVoterReward totalCap caps
      (if 0 < voteCap
       then let rcap = totalVoterReward * voteCap div totalCap
            in (case map_of balances addr of
                  Some b \<Rightarrow> AList.update addr (b + rcap) balances
                | None \<Rightarrow> AList.update addr rcap balances)
       else balances)"

definition GetRewardBalancesRate ::
  "(address list \<Rightarrow> address list) \<Rightarrow> int \<Rightarrow> (byte list \<Rightarrow> hash) \<Rightarrow> address \<Rightarrow> storage \<Rightarrow> address \<Rightarrow> int \<Rightarrow> u64 \<Rightarrow> (address \<times> int) list" where
  "GetRewardBalancesRate rng TIP2019Block K foundationWalletAddr st masterAddr totalReward blockNumber =
    (let owner = GetCandidateOwner K st masterAddr;
         rewardMaster = totalReward * RewardMasterPercent div 100;
         balances = [(owner, rewardMaster)];
         voters = GetVoters K st masterAddr;
         balances =
           (if voters = [] then balances
            else let totalVoterReward = totalReward * RewardVoterPercent div 100;
                     (totalCap, voterCaps) = voter_caps (big_Uint64 TIP2019Block \<le> blockNumber) (GetVoterCap K st masterAddr) voters (0, [])
                 in if 0 < totalCap then share_caps totalVoterReward totalCap (range_map rng voterCaps) balances else balances);
         foundationReward = totalReward * RewardFoundationPercent div 100
     in AList.update foundationWalletAddr foundationReward balances)"

text \<open>The rewards of the holders are added to their balances in the state.\<close>

fun add_rewards :: "(address \<times> int) list \<Rightarrow> (address \<Rightarrow> int) \<Rightarrow> (address \<Rightarrow> int)" where
  "add_rewards [] balance = balance"
| "add_rewards ((holder, reward) # rewards) balance = add_rewards rewards (balance(holder := balance holder + reward))"

fun reward_signers ::
  "(address list \<Rightarrow> address list) \<Rightarrow> int \<Rightarrow> (byte list \<Rightarrow> hash) \<Rightarrow> address \<Rightarrow> storage \<Rightarrow> u64 \<Rightarrow> (address \<times> int) list
     \<Rightarrow> (address \<Rightarrow> int) \<Rightarrow> (address \<Rightarrow> int) \<times> (address \<times> (address \<times> int) list) list" where
  "reward_signers rng tip K foundation st number [] balance = (balance, [])"
| "reward_signers rng tip K foundation st number ((signer, calcReward) # rest) balance =
    (let rewards = GetRewardBalancesRate rng tip K foundation st signer calcReward number;
         (balance, results) = reward_signers rng tip K foundation st number rest (add_rewards (range_map rng rewards) balance)
     in (balance, (signer, rewards) # results))"

section \<open>Totals of maps\<close>

lemma map_total_simps [simp]: "map_total [] = 0" "map_total ((k, v) # m) = v + map_total m"
  by (simp_all add: map_total_def)

lemma range_map_mset:
  assumes "rng_ok rng" and "distinct (map fst m)"
  shows "mset (range_map rng m) = mset m"
proof -
  have "mset (range_map rng m) = image_mset (\<lambda>k. (k, the (map_of m k))) (mset (map fst m))"
    using assms by (simp add: range_map_def rng_ok_def)
  also have "\<dots> = mset (map (\<lambda>p. (fst p, the (map_of m (fst p)))) m)" by (simp add: multiset.map_comp comp_def)
  also have "map (\<lambda>p. (fst p, the (map_of m (fst p)))) m = m"
    using assms(2) by (intro map_idI) (auto simp: map_of_eq_Some_iff)
  finally show ?thesis .
qed

lemma range_map_total: "rng_ok rng \<Longrightarrow> distinct (map fst m) \<Longrightarrow> map_total (range_map rng m) = map_total m"
  unfolding map_total_def by (metis mset_map range_map_mset sum_mset_sum_list)

lemma update_total:
  "distinct (map fst m) \<Longrightarrow> map_total (AList.update k v m) = map_total m - (case map_of m k of None \<Rightarrow> 0 | Some w \<Rightarrow> w) + v"
  by (induction m) auto

lemma update_nonneg: "(\<forall>(a, x)\<in>set m. 0 \<le> x) \<Longrightarrow> 0 \<le> v \<Longrightarrow> \<forall>(a, x)\<in>set (AList.update k v m). 0 \<le> (x :: int)"
  by (induction m) auto

lemma map_of_nonneg: "(\<forall>(a, x)\<in>set m. 0 \<le> x) \<Longrightarrow> map_of m k = Some w \<Longrightarrow> 0 \<le> (w :: int)"
  by (auto dest: map_of_SomeD)

lemma add_rewards_total: "(\<Sum>a\<in>UNIV. add_rewards rs bal a) = (\<Sum>a\<in>UNIV. bal a) + map_total rs"
proof (induction rs arbitrary: bal)
  case (Cons r rs)
  have "(\<Sum>a\<in>UNIV. (bal(fst r := bal (fst r) + snd r)) a) = (\<Sum>a\<in>UNIV. bal a) + snd r"
    using sum.remove [of UNIV "fst r" bal] sum.remove [of UNIV "fst r" "bal(fst r := bal (fst r) + snd r)"] by simp
  then show ?case using Cons.IH by (cases r) simp
qed simp

section \<open>The parts never exceed the whole\<close>

definition nonneg_map :: "(address \<times> int) list \<Rightarrow> bool" where
  "nonneg_map m \<longleftrightarrow> distinct (map fst m) \<and> (\<forall>(a, x)\<in>set m. 0 \<le> x)"

lemma nonneg_update: "nonneg_map m \<Longrightarrow> 0 \<le> v \<Longrightarrow> nonneg_map (AList.update k v m)"
  using update_nonneg [of m v k] by (auto simp: nonneg_map_def AList.distinct_update)

lemma nonneg_total: "(\<forall>(a, x)\<in>set m. 0 \<le> x) \<Longrightarrow> 0 \<le> map_total m"
  by (induction m) auto

lemma nonneg_lookup: "nonneg_map m \<Longrightarrow> 0 \<le> (case map_of m k of None \<Rightarrow> 0 | Some w \<Rightarrow> w)"
  by (auto simp: nonneg_map_def split: option.split dest: map_of_SomeD)

lemma voter_caps_bound:
  "(\<And>a. 0 \<le> voterCap a) \<Longrightarrow> nonneg_map caps \<Longrightarrow> map_total caps \<le> totalCap \<Longrightarrow> voter_caps once voterCap voters (totalCap, caps) = (totalCap', caps') \<Longrightarrow>
    nonneg_map caps' \<and> map_total caps' \<le> totalCap'"
proof (induction voters arbitrary: totalCap caps)
  case (Cons v voters)
  have "map_total (AList.update v (voterCap v) caps) \<le> totalCap + voterCap v"
    using update_total [of caps v "voterCap v"] Cons.prems(2,3) nonneg_lookup [of caps v] by (simp add: nonneg_map_def)
  then show ?case
    using Cons.prems Cons.IH [of caps totalCap] Cons.IH [of "AList.update v (voterCap v) caps" "totalCap + voterCap v"] nonneg_update
    by (auto split: if_splits)
qed simp

lemma share_caps_bound:
  "nonneg_map bal \<Longrightarrow> 0 \<le> T \<Longrightarrow> 0 < C \<Longrightarrow> (\<forall>(a, c)\<in>set caps. 0 \<le> c) \<Longrightarrow>
    nonneg_map (share_caps T C caps bal) \<and> C * (map_total (share_caps T C caps bal) - map_total bal) \<le> T * map_total caps"
proof (induction caps arbitrary: bal)
  case (Cons p caps)
  obtain a c where p: "p = (a, c)" by (cases p)
  let ?r = "T * c div C"
  define bal' where "bal' = (if 0 < c then AList.update a ((case map_of bal a of None \<Rightarrow> 0 | Some w \<Rightarrow> w) + ?r) bal else bal)"
  have c: "0 \<le> c" "0 \<le> ?r" using Cons.prems p by (auto simp: pos_imp_zdiv_nonneg_iff)
  have n: "nonneg_map bal'"
    using Cons.prems(1) c nonneg_lookup [OF Cons.prems(1), of a] nonneg_update by (simp add: bal'_def)
  have "map_total bal' - map_total bal = (if 0 < c then ?r else 0)"
    using Cons.prems(1) by (simp add: bal'_def update_total nonneg_map_def)
  moreover have "C * ?r \<le> T * c" using mult_div_mod_eq [of C "T * c"] pos_mod_sign [OF Cons.prems(3), of "T * c"] by linarith
  ultimately have "C * (map_total bal' - map_total bal) \<le> T * c" using c Cons.prems(2) by auto
  moreover have "share_caps T C (p # caps) bal = share_caps T C caps bal'"
    by (simp add: p bal'_def Let_def split: option.split)
  ultimately show ?case
    using Cons.IH [OF n Cons.prems(2,3)] Cons.prems(4) p by (auto simp: algebra_simps)
qed simp

lemma range_map_set: "rng_ok rng \<Longrightarrow> distinct (map fst m) \<Longrightarrow> set (range_map rng m) = set m"
  using range_map_mset by (metis set_mset_mset)

lemma GetVoterCap_nonneg: "0 \<le> GetVoterCap K st m v"
  by (simp add: GetVoterCap_def Hash_Big_def Let_def)

lemma voters_share:
  assumes "rng_ok rng" and "0 \<le> T" and "nonneg_map bal"
    and "voter_caps once (GetVoterCap K st masterAddr) voters (0, []) = (C, caps)" and "0 < C"
  shows "nonneg_map (share_caps T C (range_map rng caps) bal) \<and> map_total (share_caps T C (range_map rng caps) bal) \<le> map_total bal + T"
proof -
  have c: "nonneg_map caps" "map_total caps \<le> C"
    using voter_caps_bound [of "GetVoterCap K st masterAddr" "[]" 0 once voters C caps] assms(4) GetVoterCap_nonneg
    by (auto simp: nonneg_map_def)
  then have r: "\<forall>(a, x)\<in>set (range_map rng caps). 0 \<le> x" "map_total (range_map rng caps) = map_total caps"
    using range_map_set [OF assms(1), of caps] range_map_total [OF assms(1), of caps] by (simp_all add: nonneg_map_def)
  note s = share_caps_bound [OF assms(3,2,5) r(1)]
  have "C * (map_total (share_caps T C (range_map rng caps) bal) - map_total bal) \<le> T * C"
    using s r(2) mult_left_mono [OF c(2) assms(2)] by simp
  then have "map_total (share_caps T C (range_map rng caps) bal) - map_total bal \<le> T"
    using assms(5) by (simp add: mult.commute)
  then show ?thesis using s by simp
qed

lemma percent_le: "100 * (x div 100) \<le> (x :: int)"
  using mult_div_mod_eq [of 100 x] pos_mod_sign [of 100 x] by linarith

lemma holders_bound:
  assumes "rng_ok rng" and "0 \<le> R"
  shows "nonneg_map (GetRewardBalancesRate rng tip K foundation st masterAddr R n)
    \<and> map_total (GetRewardBalancesRate rng tip K foundation st masterAddr R n) \<le> R"
proof -
  let ?once = "big_Uint64 tip \<le> n" and ?voters = "GetVoters K st masterAddr"
  let ?T = "R * RewardVoterPercent div 100" and ?M = "R * RewardMasterPercent div 100" and ?F = "R * RewardFoundationPercent div 100"
  obtain C caps where c: "voter_caps ?once (GetVoterCap K st masterAddr) ?voters (0, []) = (C, caps)" by fastforce
  define bal where "bal = [(GetCandidateOwner K st masterAddr, ?M)]"
  define bal' where "bal' = (if ?voters = [] then bal else if 0 < C then share_caps ?T C (range_map rng caps) bal else bal)"
  have p: "0 \<le> ?T" "0 \<le> ?M" "0 \<le> ?F" "?M + ?T + ?F \<le> R"
    using assms(2) percent_le [of "R * 90"] percent_le [of "R * 10"]
    by (simp_all add: RewardVoterPercent_def RewardMasterPercent_def RewardFoundationPercent_def)
  have b: "nonneg_map bal" "map_total bal = ?M" using p by (simp_all add: bal_def nonneg_map_def)
  have "nonneg_map bal' \<and> map_total bal' \<le> ?M + ?T"
    using voters_share [OF assms(1) p(1) b(1) c] b p by (auto simp: bal'_def)
  moreover from this have "map_total (AList.update foundation ?F bal') \<le> map_total bal' + ?F"
    using nonneg_lookup [of bal' foundation] by (simp add: update_total nonneg_map_def)
  moreover have "GetRewardBalancesRate rng tip K foundation st masterAddr R n = AList.update foundation ?F bal'"
    by (simp add: GetRewardBalancesRate_def Let_def c bal_def bal'_def)
  ultimately show ?thesis using nonneg_update p by simp
qed

lemma reward_signers_bound:
  assumes "rng_ok rng"
  shows "(\<forall>(a, x)\<in>set rs. 0 \<le> x) \<Longrightarrow> reward_signers rng tip K foundation st n rs bal = (bal', res) \<Longrightarrow>
    (\<Sum>a\<in>UNIV. bal' a) \<le> (\<Sum>a\<in>UNIV. bal a) + map_total rs"
proof (induction rs arbitrary: bal res)
  case (Cons p rs)
  obtain s R where p: "p = (s, R)" by (cases p)
  define rewards where "rewards = GetRewardBalancesRate rng tip K foundation st s R n"
  have b: "nonneg_map rewards" "map_total rewards \<le> R"
    using holders_bound [OF assms, of R] Cons.prems(1) p by (auto simp: rewards_def)
  then have "map_total (range_map rng rewards) \<le> R" using range_map_total [OF assms] by (simp add: nonneg_map_def)
  moreover obtain res' where "reward_signers rng tip K foundation st n rs (add_rewards (range_map rng rewards) bal) = (bal', res')"
    using Cons.prems(2) p by (auto simp: rewards_def Let_def split: prod.splits)
  ultimately show ?case
    using Cons.IH [of "add_rewards (range_map rng rewards) bal" res'] Cons.prems(1) p add_rewards_total [of "range_map rng rewards" bal] by simp
qed simp

lemma signers_bound:
  assumes "0 \<le> chainReward" and "sum_list (map (\<lambda>(a, l). uint (Sign l)) signers) \<le> uint totalSigner"
  shows "(\<forall>(a, x)\<in>set (snd (CalculateRewardForSigner chainReward signers totalSigner)). 0 \<le> x)
    \<and> map_total (snd (CalculateRewardForSigner chainReward signers totalSigner)) \<le> chainReward"
proof (cases "0 < totalSigner")
  case True
  let ?q = "chainReward div uint totalSigner"
  have q: "0 \<le> ?q" "?q * uint totalSigner \<le> chainReward"
    using assms(1) True by (auto simp: pos_imp_zdiv_nonneg_iff word_less_def minus_mod_eq_div_mult [symmetric])
  have "map_total (map (\<lambda>(a, l). (a, signer_reward chainReward totalSigner l)) ls) = ?q * sum_list (map (\<lambda>(a, l). uint (Sign l)) ls)" for ls :: "(address \<times> RewardLog) list"
    by (induction ls) (auto simp: signer_reward_def algebra_simps)
  then have "map_total (snd (CalculateRewardForSigner chainReward signers totalSigner)) = ?q * sum_list (map (\<lambda>(a, l). uint (Sign l)) signers)"
    using True by (simp add: CalculateRewardForSigner_def)
  also have "\<dots> \<le> ?q * uint totalSigner" using assms(2) q(1) by (rule mult_left_mono)
  finally show ?thesis using q True by (auto simp: CalculateRewardForSigner_def signer_reward_def)
qed (use assms in \<open>simp add: CalculateRewardForSigner_def\<close>)

lemma RewardInflation_bound: "0 \<le> r \<Longrightarrow> 0 \<le> RewardInflation tip r n y \<and> RewardInflation tip r n y \<le> r"
  by (auto simp: RewardInflation_def Let_def intro: order_trans [OF zdiv_mono2 [of r 1]])

section \<open>Who gets what\<close>

lemma share_nothing:
  "map_of (share_caps 0 C caps bal) a = (if map_of bal a = None \<and> (\<exists>c>0. (a, c) \<in> set caps) then Some 0 else map_of bal a)"
proof (induction caps arbitrary: bal)
  case (Cons p caps)
  then show ?case by (cases p) (auto simp: update_conv' split: option.split)
qed simp

lemma voter_caps_entries:
  "map_of (snd (voter_caps once voterCap voters (C, caps))) a
    = (if a \<in> set voters \<and> (map_of caps a = None \<or> \<not> once) then Some (voterCap a) else map_of caps a)"
proof (induction voters arbitrary: C caps)
  case (Cons v voters)
  then show ?case by (auto simp: update_conv')
qed simp

lemma voter_caps_distinct: "distinct (map fst caps) \<Longrightarrow> distinct (map fst (snd (voter_caps once voterCap voters (C, caps))))"
  by (induction voters arbitrary: C caps) (auto simp: AList.distinct_update)

text \<open>The voters of a masternode who have a positive stake.\<close>

definition voters_paid :: "(byte list \<Rightarrow> hash) \<Rightarrow> storage \<Rightarrow> address \<Rightarrow> address set" where
  "voters_paid K st masterAddr = {v \<in> set (GetVoters K st masterAddr). 0 < GetVoterCap K st masterAddr v}"

lemma member_le_total: "(\<forall>(a, x)\<in>set m. 0 \<le> x) \<Longrightarrow> (k, v) \<in> set m \<Longrightarrow> v \<le> map_total m"
proof (induction m)
  case (Cons p m)
  then show ?case using nonneg_total [of m] by (cases p) fastforce
qed simp

lemma total_positive:
  assumes "voter_caps once (GetVoterCap K st masterAddr) voters (0, []) = (C, caps)" and "v \<in> set voters" and "0 < GetVoterCap K st masterAddr v"
  shows "0 < C"
proof -
  have n: "nonneg_map caps" "map_total caps \<le> C"
    using voter_caps_bound [of "GetVoterCap K st masterAddr" "[]" 0 once voters C caps] assms(1) GetVoterCap_nonneg
    by (auto simp: nonneg_map_def)
  have "map_of caps v = Some (GetVoterCap K st masterAddr v)"
    using voter_caps_entries [of once "GetVoterCap K st masterAddr" voters 0 "[]" v] assms(1,2) by simp
  then have "(v, GetVoterCap K st masterAddr v) \<in> set caps" by (rule map_of_SomeD)
  then have "GetVoterCap K st masterAddr v \<le> map_total caps"
    using n(1) member_le_total by (auto simp: nonneg_map_def)
  then show ?thesis using assms(3) n(2) by linarith
qed

lemma holders_exact:
  assumes "rng_ok rng"
  shows "map_of (GetRewardBalancesRate rng tip K foundation st masterAddr R n) a =
    (if a = foundation then Some (R * 10 div 100)
     else if a = GetCandidateOwner K st masterAddr then Some (R * 90 div 100)
     else if a \<in> voters_paid K st masterAddr then Some 0 else None)"
proof -
  let ?once = "big_Uint64 tip \<le> n" and ?voters = "GetVoters K st masterAddr" and ?cap = "GetVoterCap K st masterAddr"
  obtain C caps where c: "voter_caps ?once ?cap ?voters (0, []) = (C, caps)" by fastforce
  define bal where "bal = [(GetCandidateOwner K st masterAddr, R * RewardMasterPercent div 100)]"
  have m: "map_of caps a = (if a \<in> set ?voters then Some (?cap a) else None)" for a
    using voter_caps_entries [of ?once ?cap ?voters 0 "[]" a] c by simp
  have d: "distinct (map fst caps)" using voter_caps_distinct [of "[]" ?once ?cap ?voters 0] c by simp
  have s: "(\<exists>c>0. (a, c) \<in> set (range_map rng caps)) \<longleftrightarrow> a \<in> voters_paid K st masterAddr" for a
  proof -
    have "(a, c) \<in> set (range_map rng caps) \<longleftrightarrow> a \<in> set ?voters \<and> c = ?cap a" for c
      using range_map_set [OF assms d] map_of_eq_Some_iff [OF d, of a c] m [of a] by (simp split: if_splits) blast
    then show ?thesis by (auto simp: voters_paid_def)
  qed
  have z: "0 < C" if "a \<in> voters_paid K st masterAddr" for a
    using that total_positive [OF c] by (auto simp: voters_paid_def)
  show ?thesis
    using s [of a] z [of a] share_nothing [of C "range_map rng caps" bal a]
    by (auto simp: GetRewardBalancesRate_def Let_def c bal_def update_conv' RewardMasterPercent_def RewardVoterPercent_def
        RewardFoundationPercent_def voters_paid_def)
qed

text \<open>C9: how the reward of one masternode is split, whatever the order in which the maps are visited: the foundation wallet gets ten
percent; the owner, unless the owner is the foundation wallet, gets ninety percent; every other voter with a stake gets nothing, nobody else
appears, and the parts together never exceed the reward.\<close>
theorem holder_rewards:
  assumes "rng_ok rng" and "0 \<le> R"
  shows "(\<forall>a. map_of (GetRewardBalancesRate rng tip K foundation st masterAddr R n) a =
      (if a = foundation then Some (R * 10 div 100)
       else if a = GetCandidateOwner K st masterAddr then Some (R * 90 div 100)
       else if a \<in> voters_paid K st masterAddr then Some 0 else None))
    \<and> map_total (GetRewardBalancesRate rng tip K foundation st masterAddr R n) \<le> R"
  using holders_exact [OF assms(1)] holders_bound [OF assms] by blast

theorem holder_rewards_witness:
  "map_of (GetRewardBalancesRate rev 0 (\<lambda>_. 0) 7 (\<lambda>_ h. if h = 0 then 1 else 0) 5 1000 9) 1 = Some 900
    \<and> map_of (GetRewardBalancesRate rev 0 (\<lambda>_. 0) 7 (\<lambda>_ h. if h = 0 then 1 else 0) 5 1000 9) 7 = Some 100"
proof -
  have "rng_ok rev" by (simp add: rng_ok_def)
  moreover have "GetCandidateOwner (\<lambda>_. 0) (\<lambda>_ h. if h = 0 then 1 else 0) 5 = 1"
    by (simp add: GetCandidateOwner_def GetLocMappingAtKey_def BigToHash_def Hash_Big_def hash_address_def)
  ultimately show ?thesis
    using holder_rewards [of rev 1000 0 "\<lambda>_. 0" 7 "\<lambda>_ h. if h = 0 then 1 else 0" 5 9] by simp
qed

end
