(* ===== verification/Hooks.thy ===== *)
theory Hooks
  imports Rewards Engine_Mining
begin

text \<open>
  The hooks that \<^verbatim>\<open>src/eth/hooks/engine_v2_hooks.go\<close> attaches to the engine: which masternodes are penalised
  for the next epoch, and how the reward of an epoch is paid. The signing transactions of a block are
  cached by the adaptor \<^verbatim>\<open>src/consensus/BRDPoS/BRDPoS.go\<close>. \<open>body\<close> gives the transactions of a block of the chain.
\<close>

section \<open>Signing transactions\<close>

record Transaction =
  tx_To :: "address option"
  tx_Data :: "byte list"
  tx_From :: "address option"

definition SignMethod :: string where
  "SignMethod = ''0xe341eaa4''"

definition IsSigningTransaction :: "Transaction \<Rightarrow> bool" where
  "IsSigningTransaction tx =
    (case tx_To tx of
       None \<Rightarrow> False
     | Some to \<Rightarrow>
         if to \<noteq> BlockSignersBinary then False
         else if length (tx_Data tx) \<noteq> 32 * 2 + 4 then False
         else ''0x'' @ Bytes2Hex (take 4 (tx_Data tx)) = SignMethod)"

record Adaptor =
  EngineV2 :: BRDPoS_v2
  signingTxsCache :: "(hash, Transaction list) lru"

type_synonym 'a adp = "(Adaptor, error, 'a) comp"

type_synonym bodies = "hash \<Rightarrow> u64 \<Rightarrow> Transaction list option"

definition on_v2 :: "'a eng \<Rightarrow> 'a adp" where
  "on_v2 m = (\<lambda>c. case m (EngineV2 c) of (x, r) \<Rightarrow> (c\<lparr>EngineV2 := x\<rparr>, r))"

definition CacheSigningTxs :: "hash \<Rightarrow> Transaction list \<Rightarrow> Transaction list adp" where
  "CacheSigningTxs hsh txs =
    (let signTxs = filter IsSigningTransaction txs
     in (\<lambda>c. (c\<lparr>signingTxsCache := fst (lru_Add hsh signTxs (signingTxsCache c))\<rparr>, Inr signTxs)))"

definition GetCachedSigningTxs :: "hash \<Rightarrow> Transaction list option adp" where
  "GetCachedSigningTxs hsh = (\<lambda>c. case lru_Get hsh (signingTxsCache c) of (l, v) \<Rightarrow> (c\<lparr>signingTxsCache := l\<rparr>, Inr v))"

text \<open>The lookup both hooks make: the cache first, then the block, which is dereferenced without a check.\<close>

definition signing_txs :: "bodies \<Rightarrow> hash \<Rightarrow> u64 \<Rightarrow> Transaction list adp" where
  "signing_txs body bhash blockNumber =
    bindE (GetCachedSigningTxs bhash) (\<lambda>r. case r of
      Some signingTxs \<Rightarrow> ok signingTxs
    | None \<Rightarrow> (case body bhash blockNumber of None \<Rightarrow> fail Panic | Some txs \<Rightarrow> CacheSigningTxs bhash txs))"

text \<open>The hash of the signed block and the sender of a signing transaction.\<close>

definition signing_entry :: "Transaction \<Rightarrow> error + hash \<times> address" where
  "signing_entry tx =
    (if length (tx_Data tx) < 32 then Inl Panic
     else (case tx_From tx of
             None \<Rightarrow> Inl Panic
           | Some from \<Rightarrow> Inr (of_nat (be_val (drop (length (tx_Data tx) - 32) (tx_Data tx))), from)))"

section \<open>Penalties\<close>

definition MinimunMinerBlockPerEpoch :: int where "MinimunMinerBlockPerEpoch = 1"
definition LimitPenaltyEpochV2 :: int where "LimitPenaltyEpochV2 = 0"
definition MergeSignRange :: u64 where "MergeSignRange = 15"
definition RangeReturnSigner :: int where "RangeReturnSigner = 150"

definition count_miner :: "address \<Rightarrow> (address \<times> int) list \<Rightarrow> (address \<times> int) list" where
  "count_miner miner statMiners =
    (case map_of statMiners miner of
       Some n \<Rightarrow> AList.update miner (n + 1) statMiners
     | None \<Rightarrow> AList.update miner 1 statMiners)"

fun epoch_miners ::
  "nat \<Rightarrow> env \<Rightarrow> ChainReader \<Rightarrow> hash \<Rightarrow> u64 \<Rightarrow> (address \<times> int) list \<Rightarrow> hash list \<Rightarrow> ((address \<times> int) list \<times> hash list) adp" where
  "epoch_miners 0 E chain parentHash parentNumber statMiners listBlockHash = fail OutOfFuel"
| "epoch_miners (Suc fuel) E chain parentHash parentNumber statMiners listBlockHash =
    (case GetHeader chain parentHash parentNumber of
       None \<Rightarrow> fail Panic
     | Some parentHeader \<Rightarrow>
         bindE (on_v2 (IsEpochSwitch E parentHeader)) (\<lambda>(isEpochSwitch, _).
           if isEpochSwitch then ok (statMiners, listBlockHash)
           else epoch_miners fuel E chain (ParentHash parentHeader) (parentNumber - 1)
                  (count_miner (Coinbase parentHeader) statMiners) (listBlockHash @ [ParentHash parentHeader])))"

definition idle_nodes :: "(address list \<Rightarrow> address list) \<Rightarrow> (address \<times> int) list \<Rightarrow> address list \<Rightarrow> address list" where
  "idle_nodes rng statMiners preMasternodes =
    map fst (filter (\<lambda>(miner, total). total < MinimunMinerBlockPerEpoch) (range_map rng statMiners))
    @ filter (\<lambda>addr. map_of statMiners addr = None) preMasternodes"

definition pen_comebacks :: "env \<Rightarrow> ChainReader \<Rightarrow> int \<Rightarrow> hash \<Rightarrow> address list \<Rightarrow> address list adp" where
  "pen_comebacks E chain number currentHash candidates =
    reads (\<lambda>c. config (EngineV2 c)) (\<lambda>cfg.
      let comebackHeight = (word_of_int LimitPenaltyEpochV2 + 1) * Epoch cfg + big_Uint64 (SwitchBlock (cfg_V2 cfg))
      in if comebackHeight < big_Uint64 number
         then bindE (on_v2 (GetPreviousPenaltyByHash E chain currentHash LimitPenaltyEpochV2)) (\<lambda>pens.
                ok (filter (\<lambda>p. p \<in> set candidates) pens))
         else ok [])"

fun remove_signers :: "hash list \<Rightarrow> Transaction list \<Rightarrow> address list \<Rightarrow> error + address list" where
  "remove_signers mapBlockHash [] penComebacks = Inr penComebacks"
| "remove_signers mapBlockHash (tx # txs) penComebacks =
    (case signing_entry tx of
       Inl e \<Rightarrow> Inl e
     | Inr (blkHash, from) \<Rightarrow>
         remove_signers mapBlockHash txs (if blkHash \<in> set mapBlockHash then remove1 from penComebacks else penComebacks))"

fun check_signs :: "bodies \<Rightarrow> u64 \<Rightarrow> hash list \<Rightarrow> nat \<Rightarrow> hash list \<Rightarrow> address list \<Rightarrow> address list adp" where
  "check_signs body number listBlockHash i mapBlockHash penComebacks =
    (if penComebacks = [] then ok []
     else let blockNumber = number - of_nat i - 1;
              bhash = listBlockHash ! i;
              mapBlockHash = (if blockNumber mod MergeSignRange = 0 then bhash # mapBlockHash else mapBlockHash)
          in bindE (signing_txs body bhash blockNumber) (\<lambda>signingTxs.
               bindE (liftE (remove_signers mapBlockHash signingTxs penComebacks)) (\<lambda>penComebacks.
                 case i of
                   0 \<Rightarrow> ok penComebacks
                 | Suc j \<Rightarrow> check_signs body number listBlockHash j mapBlockHash penComebacks)))"

fun add_comebacks :: "address list \<Rightarrow> address list \<Rightarrow> address list" where
  "add_comebacks penalties [] = penalties"
| "add_comebacks penalties (comeback # rest) =
    add_comebacks (if comeback \<in> set penalties then penalties else penalties @ [comeback]) rest"

definition HookPenalty ::
  "nat \<Rightarrow> (address list \<Rightarrow> address list) \<Rightarrow> env \<Rightarrow> ChainReader \<Rightarrow> bodies \<Rightarrow> int \<Rightarrow> hash \<Rightarrow> address list \<Rightarrow> address list adp" where
  "HookPenalty fuel rng E chain body number currentHash candidates =
    (let parentNumber = big_Uint64 number - 1
     in if GetHeader chain currentHash parentNumber = None then fail (Errorf ''parentHeader is nil'')
        else bindE (epoch_miners fuel E chain currentHash parentNumber [] [currentHash]) (\<lambda>(statMiners, listBlockHash).
          bindE (on_v2 (GetMasternodesByHash E chain currentHash)) (\<lambda>preMasternodes.
            let penalties = idle_nodes rng statMiners preMasternodes
            in bindE (pen_comebacks E chain number currentHash candidates) (\<lambda>penComebacks.
                 let startRange = min (nat (RangeReturnSigner - 1)) (length listBlockHash - 1)
                 in bindE (check_signs body (big_Uint64 number) listBlockHash startRange [] penComebacks) (\<lambda>penComebacks.
                      ok (add_comebacks penalties penComebacks))))))"

declare epoch_miners.simps [simp del] check_signs.simps [simp del]

section \<open>Rewards\<close>

definition v1_IsEpochSwitch :: "BRDPoSConfig \<Rightarrow> Header \<Rightarrow> error + bool \<times> u64" where
  "v1_IsEpochSwitch cfg h =
    (if Epoch cfg = 0 then Inl Panic
     else Inr (big_Uint64 (Number h) mod Epoch cfg = 0, big_Uint64 (Number h) div Epoch cfg))"

definition adaptor_IsEpochSwitch :: "env \<Rightarrow> Header \<Rightarrow> (bool \<times> u64) adp" where
  "adaptor_IsEpochSwitch E h =
    reads (\<lambda>c. config (EngineV2 c)) (\<lambda>cfg. case BlockConsensusVersion cfg (Number h) of
      ConsensusEngineVersion2 \<Rightarrow> on_v2 (IsEpochSwitch E h)
    | ConsensusEngineVersion1 \<Rightarrow> liftE (v1_IsEpochSwitch cfg h))"

definition GetMasternodesFromCheckpointHeader :: "BRDPoSConfig \<Rightarrow> Header \<Rightarrow> error + address list" where
  "GetMasternodesFromCheckpointHeader cfg h =
    (case BlockConsensusVersion cfg (Number h) of
       ConsensusEngineVersion2 \<Rightarrow> Inr (GetMasternodesFromEpochSwitchHeader (Some h))
     | ConsensusEngineVersion1 \<Rightarrow> decodeMasternodesFromHeaderExtra h)"

fun add_signers :: "Transaction list \<Rightarrow> (hash \<Rightarrow> address list) \<Rightarrow> error + (hash \<Rightarrow> address list)" where
  "add_signers [] data = Inr data"
| "add_signers (tx # txs) data =
    (case signing_entry tx of
       Inl e \<Rightarrow> Inl e
     | Inr (blkHash, from) \<Rightarrow> add_signers txs (data(blkHash := data blkHash @ [from])))"

text \<open>The walk back over two epochs; it ends early, without a result, at the genesis block.\<close>

fun scan_epochs ::
  "env \<Rightarrow> ChainReader \<Rightarrow> bodies \<Rightarrow> nat \<Rightarrow> Header \<Rightarrow> nat \<Rightarrow> u64 \<Rightarrow> (u64 \<Rightarrow> hash) \<Rightarrow> (hash \<Rightarrow> address list)
     \<Rightarrow> (u64 \<times> u64 \<times> address list \<times> (u64 \<Rightarrow> hash) \<times> (hash \<Rightarrow> address list)) option adp" where
  "scan_epochs E chain body i header epochCount endBlockNumber mapBlkHash data =
    (case GetHeader chain (ParentHash header) (of_nat i) of
       None \<Rightarrow> fail Panic
     | Some header \<Rightarrow>
         bindE (adaptor_IsEpochSwitch E header) (\<lambda>(isEpochSwitch, _).
           reads (\<lambda>c. config (EngineV2 c)) (\<lambda>cfg.
             let counted = isEpochSwitch \<and> of_nat i \<noteq> big_Uint64 (SwitchBlock (cfg_V2 cfg)) + 1;
                 epochCount = (if counted then epochCount + 1 else epochCount);
                 endBlockNumber = (if counted \<and> epochCount = 1 then big_Uint64 (Number header) - 1 else endBlockNumber)
             in if counted \<and> epochCount = 2
                then bindE (liftE (GetMasternodesFromCheckpointHeader cfg header)) (\<lambda>masternodes.
                       ok (Some (big_Uint64 (Number header) + 1, endBlockNumber, masternodes, mapBlkHash, data)))
                else let hsh = Header_Hash (keccak E) header
                     in bindE (signing_txs body hsh (of_nat i)) (\<lambda>signingTxs.
                          bindE (liftE (add_signers signingTxs data)) (\<lambda>data.
                            case i of
                              0 \<Rightarrow> ok None
                            | Suc j \<Rightarrow> scan_epochs E chain body j header epochCount endBlockNumber (mapBlkHash(of_nat i := hsh)) data)))))"

definition count_sign :: "address \<Rightarrow> (address \<times> RewardLog) list \<times> u64 \<Rightarrow> (address \<times> RewardLog) list \<times> u64" where
  "count_sign addr st =
    (case st of (signers, totalSigner) \<Rightarrow>
      (case map_of signers addr of
         Some rLog \<Rightarrow> AList.update addr (rLog\<lparr>Sign := Sign rLog + 1\<rparr>) signers
       | None \<Rightarrow> AList.update addr \<lparr>Sign = 1, RL_Reward = 0\<rparr> signers, totalSigner + 1))"

fun count_blocks ::
  "(address list \<Rightarrow> address list) \<Rightarrow> address list \<Rightarrow> (u64 \<Rightarrow> hash) \<Rightarrow> (hash \<Rightarrow> address list) \<Rightarrow> u64 list
     \<Rightarrow> (address \<times> RewardLog) list \<times> u64 \<Rightarrow> (address \<times> RewardLog) list \<times> u64" where
  "count_blocks rng masternodes mapBlkHash data [] st = st"
| "count_blocks rng masternodes mapBlkHash data (i # is) st =
    count_blocks rng masternodes mapBlkHash data is
      (if i mod MergeSignRange = 0
       then let addrs = data (mapBlkHash i)
            in fold count_sign (rng (remdups (filter (\<lambda>masternode. masternode \<in> set addrs) masternodes))) st
       else st)"

definition GetSigningTxCount ::
  "(address list \<Rightarrow> address list) \<Rightarrow> env \<Rightarrow> ChainReader \<Rightarrow> bodies \<Rightarrow> Header \<Rightarrow> ((address \<times> RewardLog) list \<times> u64) adp" where
  "GetSigningTxCount rng E chain body header =
    (let number = big_Uint64 (Number header)
     in if number = 0 then ok ([], 0)
        else bindE (scan_epochs E chain body (unat (number - 1)) header 0 0 (\<lambda>_. 0) (\<lambda>_. [])) (\<lambda>r. case r of
          None \<Rightarrow> ok ([], 0)
        | Some (startBlockNumber, endBlockNumber, masternodes, mapBlkHash, data) \<Rightarrow>
            if endBlockNumber = - 1 then fail OutOfFuel
            else ok (count_blocks rng masternodes mapBlkHash data
                       (map of_nat [unat startBlockNumber..<Suc (unat endBlockNumber)]) ([], 0))))"

definition Ether :: int where "Ether = 10 ^ 18"
definition BlocksPerYear :: u64 where "BlocksPerYear = 15768000"

record reward_config =
  TIPNoHalvingMNReward :: "int option"
  TIP2019Block :: int

definition HookReward ::
  "(address list \<Rightarrow> address list) \<Rightarrow> reward_config \<Rightarrow> env \<Rightarrow> ChainReader \<Rightarrow> bodies \<Rightarrow> storage \<Rightarrow> Header \<Rightarrow> (address \<Rightarrow> int)
     \<Rightarrow> ((address \<Rightarrow> int) \<times> (address \<times> RewardLog) list \<times> (address \<times> (address \<times> int) list) list) adp" where
  "HookReward rng tips E chain body parentState header stateBlock =
    reads (\<lambda>c. config (EngineV2 c)) (\<lambda>cfg.
      let number = big_Uint64 (Number header); foundationWalletAddr = FoudationWalletAddr cfg
      in if foundationWalletAddr = 0 then fail (Errorf ''foundation wallet address is empty'')
         else if number = big_Uint64 (SwitchBlock (cfg_V2 cfg)) + 1 then ok (stateBlock, [], [])
         else let chainReward = RewardInflation (TIPNoHalvingMNReward tips) (uint (Reward cfg) * Ether) number BlocksPerYear
              in bindE (GetSigningTxCount rng E chain body header) (\<lambda>(signers, totalSigner).
                   let (signers, rewardSigners) = CalculateRewardForSigner chainReward signers totalSigner;
                       (stateBlock, voterResults) =
                         (if signers = [] then (stateBlock, [])
                          else reward_signers rng (TIP2019Block tips) (keccak E) foundationWalletAddr parentState number
                                 (range_map rng rewardSigners) stateBlock)
                   in ok (stateBlock, signers, voterResults)))"

declare scan_epochs.simps [simp del]

end
