(* ===== verification/Hooks_Correct.thy ===== *)
theory Hooks_Correct
  imports Hooks
begin

text \<open>
  What the reward hook guarantees: the cache of signing transactions holds what the blocks hold, the counts of the signers
  add up to their total, and the rewards of an epoch never exceed the reward of the configuration.
\<close>

section \<open>Adaptor computations\<close>

lemma on_v2_eval [comp_simps]: "on_v2 m c = (case m (EngineV2 c) of (x, r) \<Rightarrow> (c\<lparr>EngineV2 := x\<rparr>, r))"
  by (simp add: on_v2_def)

lemma on_v2_Inr: "on_v2 m c = (c', Inr a) \<Longrightarrow> \<exists>x. m (EngineV2 c) = (x, Inr a) \<and> c' = c\<lparr>EngineV2 := x\<rparr>"
  by (auto simp: on_v2_def split: prod.splits)

section \<open>The cache of signing transactions\<close>

text \<open>A block hash stands for one list of transactions, and the cache holds nothing but their signing transactions.\<close>

definition body_fun :: "bodies \<Rightarrow> bool" where
  "body_fun body \<longleftrightarrow> (\<forall>h m n txs txs'. body h m = Some txs \<longrightarrow> body h n = Some txs' \<longrightarrow> txs = txs')"

definition block_txs :: "bodies \<Rightarrow> hash \<Rightarrow> Transaction list \<Rightarrow> bool" where
  "block_txs body h txs \<longleftrightarrow> (\<exists>n b. body h n = Some b \<and> txs = filter IsSigningTransaction b)"

definition cache_true :: "bodies \<Rightarrow> Adaptor \<Rightarrow> bool" where
  "cache_true body c \<longleftrightarrow> lru_inv (signingTxsCache c) \<and>
    (\<forall>h txs. lru_Peek (signingTxsCache c) h = Some txs \<longrightarrow> block_txs body h txs)"

lemma signing_txs_true:
  assumes "body_fun body" and c: "cache_true body c" and b: "body h n = Some b"
  shows "\<exists>c'. signing_txs body h n c = (c', Inr (filter IsSigningTransaction b)) \<and> cache_true body c' \<and> EngineV2 c' = EngineV2 c"
proof (cases "lru_Peek (signingTxsCache c) h")
  case None
  obtain l where l: "lru_Get h (signingTxsCache c) = (l, None)"
    using None by (metis lru_get_value prod.collapse)
  let ?v = "filter IsSigningTransaction b"
  have "lru_Peek l = lru_Peek (signingTxsCache c)" "lru_inv l" using l c lru_peek_get [of h "signingTxsCache c"] lru_inv_Get [of "signingTxsCache c" h]
    by (simp_all add: cache_true_def)
  moreover have "block_txs body h ?v" using b by (auto simp: block_txs_def)
  ultimately have "lru_inv (fst (lru_Add h ?v l))" and "\<And>k t. lru_Peek (fst (lru_Add h ?v l)) k = Some t \<Longrightarrow> block_txs body k t"
    using lru_inv_Add [of l h ?v] lruc.entries_add [of l "block_txs body" h ?v] c by (auto simp: cache_true_def)
  then show ?thesis using b l by (simp add: signing_txs_def GetCachedSigningTxs_def CacheSigningTxs_def Let_def comp_simps cache_true_def)
next
  case (Some txs)
  then obtain l where l: "lru_Get h (signingTxsCache c) = (l, Some txs)" by (metis lru_get_value prod.collapse)
  have "lru_Peek l = lru_Peek (signingTxsCache c)" "lru_inv l" using l c lru_peek_get [of h "signingTxsCache c"] lru_inv_Get [of "signingTxsCache c" h]
    by (simp_all add: cache_true_def)
  moreover have "txs = filter IsSigningTransaction b" using Some c b assms(1) unfolding cache_true_def body_fun_def block_txs_def by blast
  ultimately show ?thesis using c l by (auto simp: signing_txs_def GetCachedSigningTxs_def comp_simps cache_true_def)
qed

section \<open>Counting signatures\<close>

definition total_signs :: "(address \<times> RewardLog) list \<Rightarrow> int" where
  "total_signs signers = sum_list (map (\<lambda>(a, l). uint (Sign l)) signers)"

lemma total_signs_simps [simp]: "total_signs [] = 0" "total_signs ((a, l) # ls) = uint (Sign l) + total_signs ls"
  by (simp_all add: total_signs_def)

lemma total_signs_update:
  "distinct (map fst m) \<Longrightarrow>
    total_signs (AList.update k l m) = total_signs m - (case map_of m k of None \<Rightarrow> 0 | Some r \<Rightarrow> uint (Sign r)) + uint (Sign l)"
  by (induction m) auto

text \<open>After \<open>n\<close> counted signatures, fewer than the counter can hold, the signers' counts add up to the total.\<close>

definition counted :: "nat \<Rightarrow> (address \<times> RewardLog) list \<times> u64 \<Rightarrow> bool" where
  "counted n st \<longleftrightarrow> distinct (map fst (fst st)) \<and> total_signs (fst st) = int n \<and> snd st = of_nat n"

lemma sign_le_total: "map_of m k = Some l \<Longrightarrow> uint (Sign l) \<le> total_signs m"
proof (induction m)
  case (Cons p m)
  have "0 \<le> total_signs m" by (induction m) auto
  then show ?case using Cons by (cases p) (auto split: if_splits simp: order_trans)
qed simp

lemma count_sign_counted:
  assumes "counted n st" and "Suc n < 2 ^ 64"
  shows "counted (Suc n) (count_sign a st)"
proof -
  obtain signers tot where st: "st = (signers, tot)" by (cases st)
  have d: "distinct (map fst signers)" "total_signs signers = int n" "tot = of_nat n" using assms(1) st by (auto simp: counted_def)
  show ?thesis
  proof (cases "map_of signers a")
    case None
    then show ?thesis using d st total_signs_update [OF d(1)] by (simp add: counted_def count_sign_def AList.distinct_update)
  next
    case (Some l)
    have "uint (Sign l) + 1 < 2 ^ 64" using sign_le_total [OF Some] d(2) assms(2) by simp
    then have "uint (Sign l + 1) = uint (Sign l) + 1" by (simp add: uint_word_ariths)
    then show ?thesis using d st Some total_signs_update [OF d(1)] by (simp add: counted_def count_sign_def AList.distinct_update)
  qed
qed

lemma fold_count_sign: "counted n st \<Longrightarrow> n + length as < 2 ^ 64 \<Longrightarrow> counted (n + length as) (fold count_sign as st)"
proof (induction as arbitrary: n st)
  case (Cons a as)
  then show ?case using count_sign_counted [of n st a] Cons.IH [of "Suc n" "count_sign a st"] by simp
qed simp

lemma count_blocks_counted:
  assumes "rng_ok rng"
  shows "counted n st \<Longrightarrow> n + length is * length masternodes < 2 ^ 64 \<Longrightarrow>
    \<exists>k. counted k (count_blocks rng masternodes mapBlkHash data is st) \<and> k < 2 ^ 64"
proof (induction "is" arbitrary: n st)
  case (Cons i "is")
  define as where "as = remdups (filter (\<lambda>m. m \<in> set (data (mapBlkHash i))) masternodes)"
  have l: "length (rng as) = length as" using assms by (metis as_def distinct_remdups rng_ok_def size_mset)
  have "length as \<le> length masternodes" unfolding as_def by (meson length_filter_le length_remdups_leq order_trans)
  then have "n + length as + length is * length masternodes < 2 ^ 64" using Cons.prems(2) by simp
  then show ?case
    using Cons.IH [of "n + length as" "fold count_sign (rng as) st"] Cons.IH [of n st] Cons.prems fold_count_sign [of n st "rng as"] l
    by (auto simp: as_def [symmetric] Let_def)
qed auto

section \<open>The two epochs\<close>

text \<open>Headers are stored under their number and have the size of real headers.\<close>

definition chain_sized :: "ChainReader \<Rightarrow> bool" where
  "chain_sized chain \<longleftrightarrow> (\<forall>h n x. GetHeader chain h n = Some x \<longrightarrow>
     big_Uint64 (Number x) = n \<and> length (Extra x) < 2 ^ 24 \<and> length (Validators x) < 2 ^ 24)"

lemma checkpoint_masternodes:
  assumes "chain_sized chain" and "GetHeader chain h n = Some x" and "GetMasternodesFromCheckpointHeader cfg x = Inr ms"
  shows "length ms < 2 ^ 20"
proof -
  have "length (Extra x) < 2 ^ 24" "length (Validators x) < 2 ^ 24" using assms(1,2) by (auto simp: chain_sized_def)
  then show ?thesis
    using assms(3) by (auto simp: GetMasternodesFromCheckpointHeader_def GetMasternodesFromEpochSwitchHeader_def
      decodeMasternodesFromHeaderExtra_def addresses_at_def split: consensus_version.splits if_splits)
qed

lemma scan_step:
  assumes "scan_epochs E chain body i x ec e mb data c = (c', Inr (Some res))"
  shows "\<exists>h cnt cfg. GetHeader chain (ParentHash x) (of_nat i) = Some h \<and>
    (let ec' = (if cnt then ec + 1 else ec); e' = (if cnt \<and> ec' = 1 then big_Uint64 (Number h) - 1 else e)
     in if cnt \<and> ec' = 2 then \<exists>ms. GetMasternodesFromCheckpointHeader cfg h = Inr ms \<and> res = (big_Uint64 (Number h) + 1, e', ms, mb, data)
        else \<exists>j c1 mb1 d1. i = Suc j \<and> scan_epochs E chain body j h ec' e' mb1 d1 c1 = (c', Inr (Some res)))"
proof -
  obtain h where h: "GetHeader chain (ParentHash x) (of_nat i) = Some h"
    using assms by (subst (asm) scan_epochs.simps) (auto simp: comp_simps split: option.splits)
  obtain c1 sw ep where s: "adaptor_IsEpochSwitch E h c = (c1, Inr (sw, ep))"
    using assms h by (subst (asm) scan_epochs.simps) (auto simp: comp_simps split: prod.splits sum.splits)
  define cfg where "cfg = config (EngineV2 c1)"
  define cnt where "cnt \<longleftrightarrow> sw \<and> of_nat i \<noteq> big_Uint64 (SwitchBlock (cfg_V2 cfg)) + 1"
  define ec' where "ec' = (if cnt then ec + 1 else ec)"
  define e' where "e' = (if cnt \<and> ec' = 1 then big_Uint64 (Number h) - 1 else e)"
  have "(if cnt \<and> ec' = 2
         then bindE (liftE (GetMasternodesFromCheckpointHeader cfg h)) (\<lambda>masternodes.
                ok (Some (big_Uint64 (Number h) + 1, e', masternodes, mb, data)))
         else bindE (signing_txs body (Header_Hash (keccak E) h) (of_nat i)) (\<lambda>signingTxs.
                bindE (liftE (add_signers signingTxs data)) (\<lambda>data.
                  case i of
                    0 \<Rightarrow> ok None
                  | Suc j \<Rightarrow> scan_epochs E chain body j h ec' e' (mb(of_nat i := Header_Hash (keccak E) h)) data))) c1 = (c', Inr (Some res))"
    using assms by (subst (asm) scan_epochs.simps) (simp only: h s option.case comp_eval bindE_eval prod.case sum.case Let_def cfg_def cnt_def ec'_def e'_def)
  then have "if cnt \<and> ec' = 2 then \<exists>ms. GetMasternodesFromCheckpointHeader cfg h = Inr ms \<and> res = (big_Uint64 (Number h) + 1, e', ms, mb, data)
     else \<exists>j c1 mb1 d1. i = Suc j \<and> scan_epochs E chain body j h ec' e' mb1 d1 c1 = (c', Inr (Some res))"
    by (auto simp: comp_simps split: if_splits sum.splits prod.splits nat.splits)
  then show ?thesis unfolding ec'_def e'_def
    by (intro exI [of _ h] exI [of _ cnt] exI [of _ cfg] conjI h) (simp only: Let_def)
qed

lemma scan_bound:
  assumes "chain_sized chain" and "N < 2 ^ 64"
  shows "scan_epochs E chain body i x ec e mb data c = (c', Inr (Some (s, e1, ms, mb', d'))) \<Longrightarrow>
    i < N \<Longrightarrow> ec \<le> 1 \<Longrightarrow> (ec = 1 \<Longrightarrow> unat e < N) \<Longrightarrow> unat e1 < N \<and> length ms < 2 ^ 20"
proof (induction i arbitrary: x ec e mb data c)
  case 0
  then show ?case
    using scan_step [OF 0(1)] checkpoint_masternodes [OF assms(1)] by (auto simp: Let_def split: if_splits)
next
  case (Suc i)
  obtain h cnt cfg where h: "GetHeader chain (ParentHash x) (of_nat (Suc i)) = Some h" and
    r: "let ec' = (if cnt then ec + 1 else ec); e' = (if cnt \<and> ec' = 1 then big_Uint64 (Number h) - 1 else e)
     in if cnt \<and> ec' = 2
        then \<exists>ms'. GetMasternodesFromCheckpointHeader cfg h = Inr ms' \<and> (s, e1, ms, mb', d') = (big_Uint64 (Number h) + 1, e', ms', mb, data)
        else \<exists>j c1 mb1 d1. Suc i = Suc j \<and> scan_epochs E chain body j h ec' e' mb1 d1 c1 = (c', Inr (Some (s, e1, ms, mb', d')))"
    using scan_step [OF Suc.prems(1)] by blast
  define ec' where "ec' = (if cnt then ec + 1 else ec)"
  define e' where "e' = (if cnt \<and> ec' = 1 then big_Uint64 (Number h) - 1 else e)"
  have r': "if cnt \<and> ec' = 2
        then \<exists>ms'. GetMasternodesFromCheckpointHeader cfg h = Inr ms' \<and> (s, e1, ms, mb', d') = (big_Uint64 (Number h) + 1, e', ms', mb, data)
        else \<exists>j c1 mb1 d1. Suc i = Suc j \<and> scan_epochs E chain body j h ec' e' mb1 d1 c1 = (c', Inr (Some (s, e1, ms, mb', d')))"
    using r by (simp only: Let_def ec'_def e'_def)
  have "unat (of_nat i :: u64) = i" using Suc.prems(2) assms(2) by (simp add: unsigned_of_nat take_bit_nat_eq_self)
  moreover have "big_Uint64 (Number h) = of_nat (Suc i)" using h assms(1) unfolding chain_sized_def by blast
  ultimately have n: "unat (big_Uint64 (Number h) - 1) < N" using Suc.prems(2) by simp
  show ?case
  proof (cases "cnt \<and> ec' = 2")
    case True
    then have "GetMasternodesFromCheckpointHeader cfg h = Inr ms" "e1 = e'" using r' by simp_all
    moreover have "ec = 1" "e' = e" using True by (simp_all add: ec'_def e'_def split: if_splits)
    ultimately show ?thesis using Suc.prems(4) checkpoint_masternodes [OF assms(1) h] by blast
  next
    case False
    then obtain c1 mb1 d1 where "scan_epochs E chain body i h ec' e' mb1 d1 c1 = (c', Inr (Some (s, e1, ms, mb', d')))"
      using r' by auto
    moreover have "ec' \<le> 1" using False Suc.prems(3) by (auto simp: ec'_def)
    moreover have "ec' = 1 \<Longrightarrow> unat e' < N" using n Suc.prems(4) by (auto simp: e'_def ec'_def)
    ultimately show ?thesis using Suc.IH Suc.prems(2) by simp
  qed
qed

section \<open>The reward of an epoch\<close>

lemma GetSigningTxCount_counted:
  assumes "rng_ok rng" and "chain_sized chain" and n: "big_Uint64 (Number x) < 2 ^ 40"
    and g: "GetSigningTxCount rng E chain body x c = (c', Inr (signers, tot))"
  shows "distinct (map fst signers) \<and> total_signs signers = uint tot"
proof -
  let ?n = "big_Uint64 (Number x)"
  have z: "counted 0 ([], 0)" by (simp add: counted_def)
  have u: "uint tot = int k" "distinct (map fst signers)" "total_signs signers = int k" if "counted k (signers, tot)" "k < 2 ^ 64" for k
    using that by (auto simp: counted_def unsigned_of_nat take_bit_nat_eq_self simp flip: uint_nat)
  consider "(signers, tot) = ([], 0)" | c1 s e ms mb d where
      "scan_epochs E chain body (unat (?n - 1)) x 0 0 (\<lambda>_. 0) (\<lambda>_. []) c = (c1, Inr (Some (s, e, ms, mb, d)))" "?n \<noteq> 0"
      "(signers, tot) = count_blocks rng ms mb d (map of_nat [unat s..<Suc (unat e)]) ([], 0)"
    using g by (auto simp: GetSigningTxCount_def comp_simps Let_def split: if_splits prod.splits sum.splits option.splits)
  then show ?thesis
  proof cases
    case 2
    have "unat (?n - 1) < unat ?n" using 2(2) by (simp add: unat_minus_one unat_gt_0)
    moreover have l: "unat ?n < 2 ^ 40" using n by (simp add: word_less_nat_alt)
    ultimately have b: "unat e < unat ?n" "length ms < 2 ^ 20"
      using scan_bound [OF assms(2) _ 2(1), of "unat ?n"] by auto
    have "length (map (of_nat :: nat \<Rightarrow> u64) [unat s..<Suc (unat e)]) \<le> 2 ^ 40" using b(1) l by (simp; linarith)
    then have "length (map (of_nat :: nat \<Rightarrow> u64) [unat s..<Suc (unat e)]) * length ms \<le> 2 ^ 40 * 2 ^ 20"
      using b(2) by (intro mult_le_mono) simp_all
    then obtain k where "counted k (signers, tot)" "k < 2 ^ 64"
      using count_blocks_counted [OF assms(1) z, of "map of_nat [unat s..<Suc (unat e)]" ms mb d] 2(3) by auto
    then show ?thesis using u by simp
  qed simp
qed

lemma add_rewards_mono: "(\<forall>(a, r)\<in>set rs. 0 \<le> r) \<Longrightarrow> bal a \<le> add_rewards rs bal a"
proof (induction rs arbitrary: bal)
  case (Cons p rs)
  obtain h r where p: "p = (h, r)" by (cases p)
  then have "bal a \<le> (bal(h := bal h + r)) a" using Cons.prems by simp
  also have "\<dots> \<le> add_rewards rs (bal(h := bal h + r)) a" using Cons.prems p by (intro Cons.IH) simp
  finally show ?case using p by simp
qed simp

lemma reward_signers_mono:
  assumes "rng_ok rng"
  shows "(\<forall>(s, r)\<in>set rs. 0 \<le> r) \<Longrightarrow> reward_signers rng tip K foundation st n rs bal = (bal', res) \<Longrightarrow> bal a \<le> bal' a"
proof (induction rs arbitrary: bal res)
  case (Cons p rs)
  obtain s r where p: "p = (s, r)" by (cases p)
  define rewards where "rewards = GetRewardBalancesRate rng tip K foundation st s r n"
  have "nonneg_map rewards" using holders_bound [OF assms, of r] Cons.prems(1) p by (auto simp: rewards_def)
  then have "\<forall>(h, x)\<in>set (range_map rng rewards). 0 \<le> x" using range_map_set [OF assms, of rewards] by (simp add: nonneg_map_def)
  then have "bal a \<le> add_rewards (range_map rng rewards) bal a" by (rule add_rewards_mono)
  moreover obtain res' where "reward_signers rng tip K foundation st n rs (add_rewards (range_map rng rewards) bal) = (bal', res')"
    using Cons.prems(2) p by (auto simp: rewards_def Let_def split: prod.splits)
  ultimately show ?case using Cons.IH [of "add_rewards (range_map rng rewards) bal" res'] Cons.prems(1) p by auto
qed simp

lemma HookReward_paid:
  assumes r: "rng_ok rng" and "chain_sized chain" and "big_Uint64 (Number x) < 2 ^ 40"
    and h: "HookReward rng tips E chain body st x bal c = (c', Inr (bal', signers, res))"
  shows "(\<forall>a. bal a \<le> bal' a) \<and>
    (\<Sum>a\<in>UNIV. bal' a) \<le> (\<Sum>a\<in>UNIV. bal a)
       + RewardInflation (TIPNoHalvingMNReward tips) (uint (Reward (config (EngineV2 c))) * Ether) (big_Uint64 (Number x)) BlocksPerYear"
proof -
  let ?n = "big_Uint64 (Number x)" and ?cfg = "config (EngineV2 c)"
  let ?R = "RewardInflation (TIPNoHalvingMNReward tips) (uint (Reward ?cfg) * Ether) ?n BlocksPerYear"
  have R: "0 \<le> ?R" using RewardInflation_bound [of "uint (Reward ?cfg) * Ether"] by (simp add: Ether_def)
  consider "bal' = bal" | signers1 tot rs where "GetSigningTxCount rng E chain body x c = (c', Inr (signers1, tot))"
      "rs = snd (CalculateRewardForSigner ?R signers1 tot)"
      "reward_signers rng (TIP2019Block tips) (keccak E) (FoudationWalletAddr ?cfg) st ?n (range_map rng rs) bal = (bal', res)"
    using h by (auto simp: HookReward_def comp_simps Let_def split: if_splits prod.splits sum.splits)
  then show ?thesis
  proof cases
    case 2
    note g = GetSigningTxCount_counted [OF assms(1-3) 2(1)]
    have rs: "\<forall>(a, y)\<in>set rs. 0 \<le> y" "map_total rs \<le> ?R"
      using signers_bound [OF R, of signers1 tot] g 2(2) by (auto simp: total_signs_def)
    have "distinct (map fst rs)" using g 2(2) by (auto simp: CalculateRewardForSigner_def comp_def case_prod_beta')
    then have "\<forall>(a, y)\<in>set (range_map rng rs). 0 \<le> y" "map_total (range_map rng rs) = map_total rs"
      using range_map_set [OF r, of rs] range_map_total [OF r, of rs] rs(1) by simp_all
    then show ?thesis using reward_signers_bound [OF r _ 2(3)] reward_signers_mono [OF r _ 2(3)] rs(2) by fastforce
  qed (use R in simp)
qed

text \<open>C7: the reward paid at the start of an epoch is bounded: \<open>HookReward\<close> lowers no balance, and what it adds to all balances
together is at most the inflation-adjusted reward of the configuration, which is at most that reward itself; for a chain with fewer than
two to the forty blocks whose headers answer to the number they are asked for and are not oversized.\<close>
theorem epoch_reward_bounded:
  assumes "rng_ok rng" and "chain_sized chain" and "big_Uint64 (Number x) < 2 ^ 40"
    and "HookReward rng tips E chain body st x bal c = (c', Inr (bal', signers, res))"
  shows "(\<forall>a. bal a \<le> bal' a) \<and>
    (\<Sum>a\<in>UNIV. bal' a) \<le> (\<Sum>a\<in>UNIV. bal a)
       + RewardInflation (TIPNoHalvingMNReward tips) (uint (Reward (config (EngineV2 c))) * Ether) (big_Uint64 (Number x)) BlocksPerYear \<and>
    (\<Sum>a\<in>UNIV. bal' a) \<le> (\<Sum>a\<in>UNIV. bal a) + uint (Reward (config (EngineV2 c))) * Ether"
  using HookReward_paid [OF assms] RewardInflation_bound [of "uint (Reward (config (EngineV2 c))) * Ether" "TIPNoHalvingMNReward tips"
      "big_Uint64 (Number x)" BlocksPerYear] by (simp add: Ether_def)

definition pay_config :: BRDPoSConfig where
  "pay_config = sample_config\<lparr>Epoch := 2, FoudationWalletAddr := 7\<rparr>"

definition sign_tx :: Transaction where
  "sign_tx = \<lparr>tx_To = Some BlockSignersBinary, tx_Data = [227, 65, 234, 164] @ replicate 63 0 @ [5], tx_From = Some 5\<rparr>"

definition pay_header :: "int \<Rightarrow> Header" where
  "pay_header n = sample_header\<lparr>Number := n, Extra := replicate 51 0 @ [5] @ replicate 65 0\<rparr>"

definition pay_chain :: ChainReader where
  "pay_chain = sample_chain\<lparr>GetHeader := (\<lambda>_ n. Some (pay_header (uint n)))\<rparr>"

definition pay_adaptor :: Adaptor where
  "pay_adaptor = \<lparr>EngineV2 = sample_engine\<lparr>config := pay_config\<rparr>, signingTxsCache = NewBasicLRU 4\<rparr>"

lemma pay_header_fields [simp]: "Number (pay_header n) = n" "Extra (pay_header n) = replicate 51 0 @ [5] @ replicate 65 0"
  by (simp_all add: pay_header_def)

lemma pay_lookup [simp]: "GetHeader pay_chain k n = Some (pay_header (uint n))"
  by (simp add: pay_chain_def)

lemma pay_config_fields [simp]: "Epoch pay_config = 2" "FoudationWalletAddr pay_config = 7" "SwitchBlock (cfg_V2 pay_config) = 900"
    "Reward pay_config = 5000"
  by (simp_all add: pay_config_def sample_config_def)

lemma pay_switch: "0 \<le> n \<Longrightarrow> n < 900 \<Longrightarrow> config (EngineV2 c) = pay_config \<Longrightarrow>
    \<exists>e. adaptor_IsEpochSwitch sample_env (pay_header n) c = (c, Inr (big_Uint64 n mod 2 = 0, e))"
  by (simp add: adaptor_IsEpochSwitch_def BlockConsensusVersion_def v1_IsEpochSwitch_def comp_simps)

lemma sign_tx_entry: "IsSigningTransaction sign_tx" "signing_entry sign_tx = Inr (5, 5)"
  by (code_simp, simp add: sign_tx_def signing_entry_def be_val_zeros)


lemma nat_case_pos: "0 < i \<Longrightarrow> (case i of 0 \<Rightarrow> a | Suc j \<Rightarrow> f j) = f (i - 1)"
  by (cases i) simp_all

lemma pay_scan:
  assumes "config (EngineV2 c) = pay_config" "cache_true (\<lambda>_ _. Some [sign_tx]) c" "i < 900" "0 < i"
  shows "\<exists>c'. config (EngineV2 c') = pay_config \<and> cache_true (\<lambda>_ _. Some [sign_tx]) c' \<and>
    scan_epochs sample_env pay_chain (\<lambda>_ _. Some [sign_tx]) i x ec e mb d c =
      (let ec' = (if even i then ec + 1 else ec); e' = (if even i \<and> ec' = 1 then of_nat i - 1 else e)
       in if even i \<and> ec' = 2 then (c, Inr (Some (of_nat i + 1, e', [5], mb, d)))
          else scan_epochs sample_env pay_chain (\<lambda>_ _. Some [sign_tx]) (i - 1) (pay_header (int i)) ec' e' (mb(of_nat i := 5)) (d(5 := d 5 @ [5])) c')"
proof -
  have i: "uint (of_nat i :: u64) = int i" using assms(3) by (simp add: unsigned_of_nat take_bit_nat_eq_self)
  obtain c' where "signing_txs (\<lambda>_ _. Some [sign_tx]) 5 (of_nat i) c = (c', Inr [sign_tx])" "cache_true (\<lambda>_ _. Some [sign_tx]) c'" "EngineV2 c' = EngineV2 c"
    using signing_txs_true [of "\<lambda>_ _. Some [sign_tx]" c 5 "of_nat i" "[sign_tx]"] assms(2) by (auto simp: body_fun_def sign_tx_entry)
  moreover have m: "big_Uint64 (int i) mod 2 = 0 \<longleftrightarrow> even i"
    using i by (simp add: big_Uint64_def word_uint_eq_iff uint_mod even_iff_mod_2_eq_zero) presburger
  moreover have "big_Uint64 (int i) = of_nat i" "of_nat i \<noteq> (901 :: u64)"
    using i assms(3) by (auto simp: big_Uint64_def)
  moreover obtain ep where "adaptor_IsEpochSwitch sample_env (pay_header (int i)) c = (c, Inr (even i, ep))"
    using pay_switch [of "int i" c] assms(1,3) m by auto
  moreover have "GetMasternodesFromCheckpointHeader pay_config (pay_header (int i)) = Inr [5]"
    using assms(3) by (simp add: GetMasternodesFromCheckpointHeader_def BlockConsensusVersion_def
      decodeMasternodesFromHeaderExtra_def addresses_at_def address_of_bytes_def copy_fixed_def be_val_zeros)
  moreover have "big_Uint64 900 = 900" by (simp add: big_Uint64_def)
  ultimately show ?thesis
    by (subst scan_epochs.simps) (auto simp: comp_simps i assms sign_tx_entry Let_def nat_case_pos intro!: exI [of _ c'])
qed

lemma pay_signers:
  "\<exists>c'. GetSigningTxCount rev sample_env pay_chain (\<lambda>_ _. Some [sign_tx]) (pay_header 18) pay_adaptor =
    (c', Inr ([(5, \<lparr>Sign = 1, RL_Reward = 0\<rparr>)], 1))"
proof -
  have "config (EngineV2 pay_adaptor) = pay_config" "cache_true (\<lambda>_ _. Some [sign_tx]) pay_adaptor"
    using lru_inv_new [of 4] by (auto simp: pay_adaptor_def cache_true_def NewBasicLRU_def lru_Peek_def)
  then obtain c1 where 1: "config (EngineV2 c1) = pay_config" "cache_true (\<lambda>_ _. Some [sign_tx]) c1"
    "scan_epochs sample_env pay_chain (\<lambda>_ _. Some [sign_tx]) 17 (pay_header 18) 0 0 (\<lambda>_. 0) (\<lambda>_. []) pay_adaptor =
     scan_epochs sample_env pay_chain (\<lambda>_ _. Some [sign_tx]) 16 (pay_header 17) 0 0 ((\<lambda>_. 0)(17 := 5)) ((\<lambda>_. [])(5 := [5])) c1"
    using pay_scan [of pay_adaptor 17 "pay_header 18" 0 0 "\<lambda>_. 0" "\<lambda>_. []"] by (auto simp: Let_def)
  then obtain c2 where 2: "config (EngineV2 c2) = pay_config" "cache_true (\<lambda>_ _. Some [sign_tx]) c2"
    "scan_epochs sample_env pay_chain (\<lambda>_ _. Some [sign_tx]) 16 (pay_header 17) 0 0 ((\<lambda>_. 0)(17 := 5)) ((\<lambda>_. [])(5 := [5])) c1 =
     scan_epochs sample_env pay_chain (\<lambda>_ _. Some [sign_tx]) 15 (pay_header 16) 1 15 ((\<lambda>_. 0)(17 := 5, 16 := 5)) ((\<lambda>_. [])(5 := [5, 5])) c2"
    using pay_scan [of c1 16 "pay_header 17" 0 0 "(\<lambda>_. 0)(17 := 5)" "(\<lambda>_. [])(5 := [5])"] by (auto simp: Let_def)
  then obtain c3 where 3: "config (EngineV2 c3) = pay_config" "cache_true (\<lambda>_ _. Some [sign_tx]) c3"
    "scan_epochs sample_env pay_chain (\<lambda>_ _. Some [sign_tx]) 15 (pay_header 16) 1 15 ((\<lambda>_. 0)(17 := 5, 16 := 5)) ((\<lambda>_. [])(5 := [5, 5])) c2 =
     scan_epochs sample_env pay_chain (\<lambda>_ _. Some [sign_tx]) 14 (pay_header 15) 1 15 ((\<lambda>_. 0)(17 := 5, 16 := 5, 15 := 5)) ((\<lambda>_. [])(5 := [5, 5, 5])) c3"
    using pay_scan [of c2 15 "pay_header 16" 1 15 "(\<lambda>_. 0)(17 := 5, 16 := 5)" "(\<lambda>_. [])(5 := [5, 5])"] by (auto simp: Let_def)
  have "\<exists>c'. scan_epochs sample_env pay_chain (\<lambda>_ _. Some [sign_tx]) 17 (pay_header 18) 0 0 (\<lambda>_. 0) (\<lambda>_. []) pay_adaptor =
      (c', Inr (Some (15, 15, [5], (\<lambda>_. 0)(17 := 5, 16 := 5, 15 := 5), (\<lambda>_. [])(5 := [5, 5, 5]))))"
    using pay_scan [OF 3(1,2), of 14 "pay_header 15" 1 15 "(\<lambda>_. 0)(17 := 5, 16 := 5, 15 := 5)" "(\<lambda>_. [])(5 := [5, 5, 5])"] 1(3) 2(3) 3(3)
    by (auto simp: Let_def)
  then show ?thesis by (auto simp: GetSigningTxCount_def big_Uint64_def comp_simps Let_def MergeSignRange_def count_sign_def)
qed

lemma pay_reward:
  "\<exists>c' s r. HookReward rev \<lparr>TIPNoHalvingMNReward = None, TIP2019Block = 0\<rparr> sample_env pay_chain (\<lambda>_ _. Some [sign_tx])
      (\<lambda>_ _. 0) (pay_header 18) (\<lambda>_. 0) pay_adaptor =
    (c', Inr ((\<lambda>_. 0)(0 := 4500 * Ether, 7 := 500 * Ether), s, r))"
proof -
  obtain c' where "GetSigningTxCount rev sample_env pay_chain (\<lambda>_ _. Some [sign_tx]) (pay_header 18) pay_adaptor =
    (c', Inr ([(5, \<lparr>Sign = 1, RL_Reward = 0\<rparr>)], 1))" using pay_signers by auto
  moreover have "config (EngineV2 pay_adaptor) = pay_config" by (simp add: pay_adaptor_def)
  moreover have "GetRewardBalancesRate rev 0 (keccak sample_env) 7 (\<lambda>_ _. 0) 5 (5000 * Ether) 18 = [(0, 4500 * Ether), (7, 500 * Ether)]"
    by (simp add: GetRewardBalancesRate_def GetCandidateOwner_def hash_address_def GetVoters_def array_words_def Hash_Big_def
      big_Uint64_def RewardMasterPercent_def RewardFoundationPercent_def Ether_def Let_def)
  ultimately show ?thesis
    by (simp add: HookReward_def comp_simps Let_def CalculateRewardForSigner_def signer_reward_def RewardInflation_def isForked_def
      big_Uint64_def BlocksPerYear_def range_map_def fun_eq_iff)
qed

theorem epoch_reward_bounded_witness:
  "\<exists>c' bal' s r. HookReward rev \<lparr>TIPNoHalvingMNReward = None, TIP2019Block = 0\<rparr> sample_env pay_chain (\<lambda>_ _. Some [sign_tx])
      (\<lambda>_ _. 0) (pay_header 18) (\<lambda>_. 0) pay_adaptor = (c', Inr (bal', s, r))
    \<and> bal' 0 = 4500 * Ether \<and> bal' 7 = 500 * Ether \<and> (\<Sum>a\<in>UNIV. bal' a) \<le> 5000 * Ether"
proof -
  let ?bal = "(\<lambda>_ :: address. 0)(0 := 4500 * Ether, 7 := 500 * Ether)"
  obtain c' s r where h: "HookReward rev \<lparr>TIPNoHalvingMNReward = None, TIP2019Block = 0\<rparr> sample_env pay_chain (\<lambda>_ _. Some [sign_tx])
      (\<lambda>_ _. 0) (pay_header 18) (\<lambda>_. 0) pay_adaptor = (c', Inr (?bal, s, r))" using pay_reward by blast
  have "rng_ok rev" "chain_sized pay_chain" "big_Uint64 (Number (pay_header 18)) < 2 ^ 40" "Reward (config (EngineV2 pay_adaptor)) = 5000"
    by (simp_all add: rng_ok_def chain_sized_def big_Uint64_def pay_adaptor_def) (simp add: pay_header_def sample_header_def)
  then have "(\<Sum>a\<in>UNIV. ?bal a) \<le> 5000 * Ether" using epoch_reward_bounded [OF _ _ _ h] by simp
  then show ?thesis using h by (intro exI [of _ c'] exI [of _ ?bal] exI [of _ s] exI [of _ r]) simp
qed

end
