(* ===== verification/Penalties.thy ===== *)
theory Penalties
  imports Hooks_Correct
begin

text \<open>
  What the penalty hook guarantees: it ends, and the nodes it penalises are exactly the masternodes that mined no block of the epoch
  and the candidates penalised before that signed too little of the merged blocks of the epoch's end.
\<close>

section \<open>The walk over the epoch\<close>

text \<open>The headers from a block back to the block that starts its epoch, which is not among them.\<close>

inductive epoch_walk :: "BRDPoSConfig \<Rightarrow> ChainReader \<Rightarrow> hash \<Rightarrow> u64 \<Rightarrow> Header list \<Rightarrow> bool" for cfg chain
where
  at_start: "GetHeader chain h n = Some x \<Longrightarrow> switch_result cfg x = Inr (True, e) \<Longrightarrow> epoch_walk cfg chain h n []"
| to_parent: "GetHeader chain h n = Some x \<Longrightarrow> switch_result cfg x = Inr (False, e) \<Longrightarrow>
    epoch_walk cfg chain (ParentHash x) (n - 1) xs \<Longrightarrow> epoch_walk cfg chain h n (x # xs)"

definition engine_only :: "Adaptor \<Rightarrow> Adaptor \<Rightarrow> bool" where
  "engine_only c c' \<longleftrightarrow> cache_only (EngineV2 c) (EngineV2 c') \<and> signingTxsCache c' = signingTxsCache c"

lemma engine_only_refl: "engine_only c c"
  by (simp add: engine_only_def cache_only_def)

lemma engine_only_trans: "engine_only a b \<Longrightarrow> engine_only b c \<Longrightarrow> engine_only a c"
  by (simp add: engine_only_def cache_only_def)

lemma engine_only_config: "engine_only c c' \<Longrightarrow> config (EngineV2 c') = config (EngineV2 c)"
  using cache_only_fields(1) by (simp add: engine_only_def)

lemma on_v2_engine_only: "keeps cache_only m \<Longrightarrow> on_v2 m c = (c', r) \<Longrightarrow> engine_only c c'"
  by (auto simp: on_v2_def engine_only_def keeps_def split: prod.splits) (metis fst_conv)

lemma epoch_miners_walk:
  "epoch_miners fuel E chain h n st l c = (c', Inr (st', l')) \<Longrightarrow>
    \<exists>walk. epoch_walk (config (EngineV2 c)) chain h n walk \<and> l' = l @ map ParentHash walk
      \<and> st' = fold count_miner (map Coinbase walk) st \<and> engine_only c c'"
proof (induction fuel arbitrary: h n st l c)
  case 0
  then show ?case by (simp add: epoch_miners.simps comp_simps)
next
  case (Suc fuel)
  obtain x where x: "GetHeader chain h n = Some x"
    using Suc.prems by (auto simp: epoch_miners.simps comp_simps split: option.splits)
  obtain c1 sw ep where s: "on_v2 (IsEpochSwitch E x) c = (c1, Inr (sw, ep))"
    using Suc.prems x by (auto simp: epoch_miners.simps bindE_eval split: prod.splits sum.splits)
  have sr: "switch_result (config (EngineV2 c)) x = Inr (sw, ep)"
    using on_v2_Inr [OF s] IsEpochSwitch_result [of E x "EngineV2 c"] by auto
  have e: "engine_only c c1" using on_v2_engine_only [OF IsEpochSwitch_co s] .
  show ?case
  proof (cases sw)
    case True
    then show ?thesis using Suc.prems x s e sr epoch_walk.at_start [OF x]
      by (intro exI [of _ "[]"]) (auto simp: epoch_miners.simps bindE_eval comp_eval)
  next
    case False
    then have "epoch_miners fuel E chain (ParentHash x) (n - 1) (count_miner (Coinbase x) st) (l @ [ParentHash x]) c1 = (c', Inr (st', l'))"
      using Suc.prems x s by (simp add: epoch_miners.simps bindE_eval)
    from Suc.IH [OF this] obtain walk where w: "epoch_walk (config (EngineV2 c)) chain (ParentHash x) (n - 1) walk"
      "l' = (l @ [ParentHash x]) @ map ParentHash walk" "st' = fold count_miner (map Coinbase walk) (count_miner (Coinbase x) st)"
      "engine_only c1 c'" using engine_only_config [OF e] by auto
    then show ?thesis using epoch_walk.to_parent [OF x _ w(1)] sr False engine_only_trans [OF e w(4)]
      by (intro exI [of _ "x # walk"]) auto
  qed
qed

lemma walk_headers:
  "epoch_walk cfg chain h n walk \<Longrightarrow> k \<le> length walk \<Longrightarrow> GetHeader chain ((h # map ParentHash walk) ! k) (n - of_nat k) \<noteq> None"
proof (induction arbitrary: k rule: epoch_walk.induct)
  case (to_parent h n x e xs)
  show ?case
  proof (cases k)
    case (Suc j)
    then show ?thesis using to_parent.IH [of j] to_parent.prems by (simp add: diff_diff_eq add.commute)
  qed (use to_parent in simp)
qed simp

section \<open>Idle nodes\<close>

lemma miners_counted:
  "map_of (fold count_miner as st) a = (if a \<in> set as \<or> map_of st a \<noteq> None
     then Some (int (count_list as a) + (case map_of st a of None \<Rightarrow> 0 | Some n \<Rightarrow> n)) else None)"
proof (induction as arbitrary: st)
  case (Cons b as)
  have "map_of (count_miner b st) a = (if a = b then Some (1 + (case map_of st a of None \<Rightarrow> 0 | Some n \<Rightarrow> n)) else map_of st a)"
    by (auto simp: count_miner_def update_conv' split: option.splits)
  then show ?case using Cons.IH [of "count_miner b st"] by (auto split: option.splits)
qed (auto split: option.splits)

lemma miners_distinct: "distinct (map fst st) \<Longrightarrow> distinct (map fst (fold count_miner as st))"
  by (induction as arbitrary: st) (auto simp: count_miner_def AList.distinct_update split: option.splits)

lemma idle_exact:
  assumes "rng_ok rng"
  shows "idle_nodes rng (fold count_miner as []) ms = filter (\<lambda>a. a \<notin> set as) ms"
proof -
  let ?st = "fold count_miner as []"
  have d: "distinct (map fst ?st)" by (rule miners_distinct) simp
  have "\<not> t < MinimunMinerBlockPerEpoch" if "(a, t) \<in> set (range_map rng ?st)" for a t
  proof -
    have "map_of ?st a = Some t" using that range_map_set [OF assms d] d by simp
    then show ?thesis using count_list_0_iff [of as a] by (auto simp: miners_counted MinimunMinerBlockPerEpoch_def split: if_splits)
  qed
  then have "filter (\<lambda>(miner, tot). tot < MinimunMinerBlockPerEpoch) (range_map rng ?st) = []" by (auto simp: filter_empty_conv)
  then show ?thesis by (simp add: idle_nodes_def miners_counted)
qed

section \<open>Nodes that come back\<close>

text \<open>
  The hashes of the merged blocks between two places of the walk, how many transactions of a list sign one of a set of blocks for a
  node, and how many the blocks of the window do; a block only counts for the merged blocks before it.
\<close>

definition is_merged :: "u64 \<Rightarrow> nat \<Rightarrow> bool" where
  "is_merged number k \<longleftrightarrow> (number - of_nat k - 1) mod MergeSignRange = 0"

definition merged :: "u64 \<Rightarrow> hash list \<Rightarrow> nat \<Rightarrow> nat \<Rightarrow> hash set" where
  "merged number hs i start = {hs ! k |k. i \<le> k \<and> k \<le> start \<and> is_merged number k}"

definition signs_in :: "Transaction list \<Rightarrow> hash set \<Rightarrow> address \<Rightarrow> nat" where
  "signs_in txs M a = length (filter (\<lambda>tx. \<exists>b\<in>M. signing_entry tx = Inr (b, a)) txs)"

definition block_signing :: "bodies \<Rightarrow> hash \<Rightarrow> u64 \<Rightarrow> Transaction list" where
  "block_signing body h n = (case body h n of None \<Rightarrow> [] | Some txs \<Rightarrow> filter IsSigningTransaction txs)"

definition window_signs :: "bodies \<Rightarrow> u64 \<Rightarrow> hash list \<Rightarrow> nat \<Rightarrow> address \<Rightarrow> nat" where
  "window_signs body number hs start a =
    (\<Sum>j\<in>{..start}. signs_in (block_signing body (hs ! j) (number - of_nat j - 1)) (merged number hs j start) a)"

lemma count_remove1: "count_list (remove1 x xs) a = count_list xs a - (if x = a then 1 else 0)"
  by (induction xs) (auto simp: count_list_0_iff)

lemma remove_signers_count:
  "remove_signers M txs ps = Inr ps' \<Longrightarrow> count_list ps' a = count_list ps a - signs_in txs (set M) a"
proof (induction txs arbitrary: ps)
  case (Cons tx txs)
  obtain b from1 where e: "signing_entry tx = Inr (b, from1)" using Cons.prems by (auto split: sum.splits)
  then show ?case using Cons.IH [of "if b \<in> set M then remove1 from1 ps else ps"] Cons.prems
    by (auto simp: signs_in_def count_remove1)
qed (simp add: signs_in_def)

lemma merged_step:
  "j \<le> i \<Longrightarrow> merged number hs j (Suc i) = (if is_merged number (Suc i) then {hs ! Suc i} else {}) \<union> merged number hs j i"
  by (auto simp: merged_def le_Suc_eq)

lemma merged_self: "merged number hs i i = (if is_merged number i then {hs ! i} else {})"
  by (auto simp: merged_def)

lemma check_signs_step:
  assumes bf: "body_fun body" and c: "cache_true body c" and b: "body (hs ! i) (number - of_nat i - 1) \<noteq> None" and "ps \<noteq> []"
    and run: "check_signs body number hs i M ps c = (c', Inr ps')"
  shows "\<exists>c1 ps1 M1. cache_true body c1 \<and> set M1 = set M \<union> merged number hs i i \<and>
    (\<forall>a. count_list ps1 a = count_list ps a - signs_in (block_signing body (hs ! i) (number - of_nat i - 1)) (set M1) a) \<and>
    (case i of 0 \<Rightarrow> c' = c1 \<and> ps' = ps1 | Suc j \<Rightarrow> check_signs body number hs j M1 ps1 c1 = (c', Inr ps'))"
proof -
  let ?n = "number - of_nat i - 1"
  define M1 where "M1 = (if is_merged number i then hs ! i # M else M)"
  obtain txs where t: "body (hs ! i) ?n = Some txs" using b by auto
  then obtain c1 where c1: "signing_txs body (hs ! i) ?n c = (c1, Inr (block_signing body (hs ! i) ?n))" "cache_true body c1"
    using signing_txs_true [OF bf c t] by (auto simp: block_signing_def)
  have r: "bindE (liftE (remove_signers M1 (block_signing body (hs ! i) ?n) ps)) (\<lambda>penComebacks.
      case i of 0 \<Rightarrow> ok penComebacks | Suc j \<Rightarrow> check_signs body number hs j M1 penComebacks) c1 = (c', Inr ps')"
    using run assms(4) by (subst (asm) check_signs.simps) (simp only: if_False Let_def bindE_eval c1(1) prod.case sum.case M1_def is_merged_def)
  then obtain ps1 where p: "remove_signers M1 (block_signing body (hs ! i) ?n) ps = Inr ps1"
    by (auto simp: comp_simps split: sum.splits)
  have "set M1 = set M \<union> merged number hs i i" by (auto simp: M1_def merged_self)
  then show ?thesis using c1(2) remove_signers_count [OF p] r p
    by (intro exI [of _ c1] exI [of _ ps1] exI [of _ M1]) (auto simp: comp_simps split: nat.splits)
qed

lemma check_signs_count:
  assumes bf: "body_fun body"
  shows "cache_true body c \<Longrightarrow> (\<And>k. k \<le> i \<Longrightarrow> body (hs ! k) (number - of_nat k - 1) \<noteq> None) \<Longrightarrow>
    check_signs body number hs i M ps c = (c', Inr ps') \<Longrightarrow>
    cache_true body c' \<and> count_list ps' a = count_list ps a -
      (\<Sum>j\<in>{..i}. signs_in (block_signing body (hs ! j) (number - of_nat j - 1)) (set M \<union> merged number hs j i) a)"
proof (induction i arbitrary: M ps c)
  case 0
  then show ?case
    using check_signs_step [OF bf 0(1) 0(2) _ 0(3)] by (cases "ps = []") (auto simp: check_signs.simps comp_simps)
next
  case (Suc i)
  show ?case
  proof (cases "ps = []")
    case True
    then show ?thesis using Suc.prems by (auto simp: check_signs.simps comp_simps)
  next
    case False
    obtain c1 ps1 M1 where 1: "cache_true body c1" "set M1 = set M \<union> merged number hs (Suc i) (Suc i)"
      "\<And>a. count_list ps1 a = count_list ps a - signs_in (block_signing body (hs ! Suc i) (number - of_nat (Suc i) - 1)) (set M1) a"
      "check_signs body number hs i M1 ps1 c1 = (c', Inr ps')"
      using check_signs_step [OF bf Suc.prems(1) Suc.prems(2) [OF order_refl] False Suc.prems(3)] unfolding nat.case by blast
    have m: "set M1 \<union> merged number hs j i = set M \<union> merged number hs j (Suc i)" if "j \<le> i" for j
      using 1(2) merged_step [OF that, of number hs] by (auto simp: merged_self)
    have "cache_true body c' \<and> count_list ps' a = count_list ps1 a -
      (\<Sum>j\<in>{..i}. signs_in (block_signing body (hs ! j) (number - of_nat j - 1)) (set M1 \<union> merged number hs j i) a)"
      using Suc.IH [OF 1(1) _ 1(4)] Suc.prems(2) by simp
    then show ?thesis using 1(2,3) m by (simp add: atMost_Suc)
  qed
qed

lemma add_comebacks_set: "set (add_comebacks ps cs) = set ps \<union> set cs"
  by (induction cs arbitrary: ps) auto

section \<open>Fuel\<close>

text \<open>The chain answers a lookup with a header of the number it was asked for.\<close>

definition chain_numbered :: "ChainReader \<Rightarrow> bool" where
  "chain_numbered chain \<longleftrightarrow> (\<forall>h n x. GetHeader chain h n = Some x \<longrightarrow> Number x = uint n)"

lemma epoch_miners_fuelled:
  assumes "chain_numbered chain"
  shows "0 \<le> SwitchBlock (cfg_V2 (config (EngineV2 c))) \<Longrightarrow> SwitchBlock (cfg_V2 (config (EngineV2 c))) \<le> uint n \<Longrightarrow>
    nat (uint n - SwitchBlock (cfg_V2 (config (EngineV2 c)))) < fuel \<Longrightarrow> snd (epoch_miners fuel E chain h n st l c) \<noteq> Inl OutOfFuel"
proof (induction fuel arbitrary: h n st l c)
  case (Suc fuel)
  let ?s = "\<lambda>c. SwitchBlock (cfg_V2 (config (EngineV2 c)))"
  show ?case
  proof (cases "GetHeader chain h n")
    case (Some x)
    then have x: "Number x = uint n" using assms by (auto simp: chain_numbered_def)
    obtain c1 r where s: "on_v2 (IsEpochSwitch E x) c = (c1, r)" by fastforce
    have e: "engine_only c c1" using on_v2_engine_only [OF IsEpochSwitch_co s] .
    have sr: "r = switch_result (config (EngineV2 c)) x"
      using s IsEpochSwitch_result [of E x "EngineV2 c"] by (auto simp: on_v2_def split: prod.splits)
    show ?thesis
    proof (cases r)
      case (Inl err)
      then have "err \<noteq> OutOfFuel" using fuelledD [OF IsEpochSwitch_fuelled, of E x "EngineV2 c"] sr by (simp add: IsEpochSwitch_result)
      then show ?thesis using Some s Inl by (simp add: epoch_miners.simps bindE_eval)
    next
      case (Inr q)
      obtain sw ep where q: "q = (sw, ep)" by fastforce
      have "sw" if "uint n = ?s c" using that sr Inr q x by (simp add: switch_result_def)
      moreover have "uint (n - 1) = uint n - 1" if "?s c < uint n" using that Suc.prems(1) uint_sub_lem [of 1 n] by simp
      ultimately show ?thesis
        using Some s Inr q Suc.prems engine_only_config [OF e] Suc.IH [of c1 "n - 1" "ParentHash x"]
        by (cases "uint n = ?s c") (auto simp: epoch_miners.simps bindE_eval comp_eval)
    qed
  qed (simp add: epoch_miners.simps comp_simps)
qed simp

lemma on_v2_fuelled: "fuelled m \<Longrightarrow> fuelled (on_v2 m)"
  by (auto simp: fuelled_def on_v2_def split: prod.splits) (metis snd_conv)

lemma GetMasternodesByHash_fuelled: "chain_ok E chain \<Longrightarrow> fuelled (GetMasternodesByHash E chain h)"
  unfolding GetMasternodesByHash_def epoch_list_def by (intro fuelled_rules getEpochSwitchInfo_fuelled) auto

lemma pen_comebacks_fuelled: "chain_ok E chain \<Longrightarrow> fuelled (pen_comebacks E chain number h candidates)"
  unfolding pen_comebacks_def GetPreviousPenaltyByHash_def getPreviousEpochSwitchInfoByHash_def LimitPenaltyEpochV2_def
  by (intro fuelled_rules on_v2_fuelled getEpochSwitchInfo_fuelled fuelled_fail) (auto simp: fuelled_ok)

lemma signing_entry_panics: "signing_entry tx = Inl e \<Longrightarrow> e = Panic"
  by (auto simp: signing_entry_def split: if_splits option.splits)

lemma remove_signers_panics: "remove_signers M txs ps = Inl e \<Longrightarrow> e = Panic"
  by (induction M txs ps rule: remove_signers.induct) (auto split: sum.splits dest: signing_entry_panics)

lemma liftE_fuelled: "r \<noteq> Inl OutOfFuel \<Longrightarrow> fuelled (liftE r)"
  by (simp add: fuelled_def liftE_def)

lemma signing_txs_fuelled: "fuelled (signing_txs body h n)"
  unfolding signing_txs_def CacheSigningTxs_def GetCachedSigningTxs_def
  by (intro fuelled_rules fuelled_fail) (auto simp: fuelled_def split: prod.splits)

lemma check_signs_fuelled: "fuelled (check_signs body number hs i M ps)"
proof (induction i arbitrary: M ps)
  case 0
  show ?case
    by (subst check_signs.simps, unfold nat.case, intro fuelled_rules signing_txs_fuelled liftE_fuelled) (auto dest: remove_signers_panics)
next
  case (Suc i)
  show ?case
    by (subst check_signs.simps, unfold nat.case, intro fuelled_rules signing_txs_fuelled liftE_fuelled Suc) (auto dest: remove_signers_panics)
qed

section \<open>The penalty hook\<close>

text \<open>Every header the chain answers with has its block.\<close>

definition bodies_full :: "ChainReader \<Rightarrow> bodies \<Rightarrow> bool" where
  "bodies_full chain body \<longleftrightarrow> (\<forall>h n. GetHeader chain h n \<noteq> None \<longrightarrow> body h n \<noteq> None)"

text \<open>The hook after the walk over the epoch.\<close>

definition penalise ::
  "(address list \<Rightarrow> address list) \<Rightarrow> env \<Rightarrow> ChainReader \<Rightarrow> bodies \<Rightarrow> int \<Rightarrow> hash \<Rightarrow> address list \<Rightarrow> (address \<times> int) list \<Rightarrow> hash list
     \<Rightarrow> address list adp" where
  "penalise rng E chain body number h candidates st l =
    bindE (on_v2 (GetMasternodesByHash E chain h)) (\<lambda>preMasternodes.
      bindE (pen_comebacks E chain number h candidates) (\<lambda>penComebacks.
        bindE (check_signs body (big_Uint64 number) l (min (nat (RangeReturnSigner - 1)) (length l - 1)) [] penComebacks) (\<lambda>penComebacks.
          ok (add_comebacks (idle_nodes rng st preMasternodes) penComebacks))))"

lemma HookPenalty_eq:
  "HookPenalty fuel rng E chain body number h candidates =
    (if GetHeader chain h (big_Uint64 number - 1) = None then fail (Errorf ''parentHeader is nil'')
     else bindE (epoch_miners fuel E chain h (big_Uint64 number - 1) [] [h]) (\<lambda>(st, l). penalise rng E chain body number h candidates st l))"
  by (simp only: HookPenalty_def penalise_def Let_def)

lemma penalise_fuelled: "chain_ok E chain \<Longrightarrow> fuelled (penalise rng E chain body number h candidates st l)"
  unfolding penalise_def by (intro fuelled_rules on_v2_fuelled GetMasternodesByHash_fuelled pen_comebacks_fuelled check_signs_fuelled)

lemma HookPenalty_fuelled:
  assumes "chain_numbered chain" and "chain_ok E chain"
    and "0 \<le> SwitchBlock (cfg_V2 (config (EngineV2 c)))" "SwitchBlock (cfg_V2 (config (EngineV2 c))) < number" "number < 2 ^ 64"
    and "nat number \<le> fuel"
  shows "snd (HookPenalty fuel rng E chain body number h candidates c) \<noteq> Inl OutOfFuel"
proof -
  let ?n = "big_Uint64 number - 1"
  have "uint ?n = number - 1"
    using assms(3-5) uint_sub_lem [of 1 "big_Uint64 number"] by (simp add: big_Uint64_def uint_word_of_int)
  then have m: "snd (epoch_miners fuel E chain h ?n [] [h] c) \<noteq> Inl OutOfFuel"
    using epoch_miners_fuelled [OF assms(1), of c ?n fuel] assms(3-6) by simp
  obtain c1 q where q: "epoch_miners fuel E chain h ?n [] [h] c = (c1, q)" by fastforce
  then show ?thesis using m fuelledD [OF penalise_fuelled [OF assms(2)]]
    by (cases q) (auto simp: HookPenalty_eq bindE_eval comp_eval split: prod.splits)
qed

lemma pen_comebacks_engine_only: "pen_comebacks E chain number h candidates c = (c', r) \<Longrightarrow> engine_only c c'"
proof -
  assume r: "pen_comebacks E chain number h candidates c = (c', r)"
  have "keeps cache_only (GetPreviousPenaltyByHash E chain h LimitPenaltyEpochV2)"
    unfolding GetPreviousPenaltyByHash_def by (intro co_rules getPreviousEpochSwitchInfoByHash_co)
  from on_v2_engine_only [OF this] show "engine_only c c'"
    using r engine_only_refl by (auto simp: pen_comebacks_def comp_eval bindE_eval Let_def split: if_splits prod.splits sum.splits)
qed

lemma engine_only_cache_true: "engine_only c c' \<Longrightarrow> cache_true body c' = cache_true body c"
  by (simp add: engine_only_def cache_true_def)

lemma penalise_exact:
  assumes "rng_ok rng" "body_fun body" "cache_true body c" and b: "\<And>k. k < length l \<Longrightarrow> body (l ! k) (big_Uint64 number - of_nat k - 1) \<noteq> None"
    and "l \<noteq> []"
    and run: "penalise rng E chain body number h candidates (fold count_miner miners []) l c = (c', Inr pens)"
  shows "cache_true body c' \<and> (\<exists>ms again z y.
    GetMasternodesByHash E chain h (EngineV2 c) = (y, Inr ms) \<and> pen_comebacks E chain number h candidates (c\<lparr>EngineV2 := y\<rparr>) = (z, Inr again) \<and>
    (\<forall>a. a \<in> set pens \<longleftrightarrow> a \<in> set ms \<and> a \<notin> set miners \<or> window_signs body (big_Uint64 number) l (min 149 (length l - 1)) a < count_list again a))"
proof -
  let ?start = "min 149 (length l - 1)"
  obtain y ms z again ps where m: "GetMasternodesByHash E chain h (EngineV2 c) = (y, Inr ms)"
    and p: "pen_comebacks E chain number h candidates (c\<lparr>EngineV2 := y\<rparr>) = (z, Inr again)"
    and s: "check_signs body (big_Uint64 number) l ?start [] again z = (c', Inr ps)"
    and r: "pens = add_comebacks (idle_nodes rng (fold count_miner miners []) ms) ps"
    using run by (auto simp: penalise_def on_v2_eval bindE_eval comp_eval RangeReturnSigner_def split: prod.splits sum.splits)
  have "cache_true body z" using assms(3) engine_only_cache_true [OF pen_comebacks_engine_only [OF p]] by (simp add: cache_true_def)
  note c = check_signs_count [OF assms(2) this _ s]
  have "k < length l" if "k \<le> ?start" for k using that assms(5) by (cases l) auto
  then have "cache_true body c'" "\<And>a. count_list ps a = count_list again a - window_signs body (big_Uint64 number) l ?start a"
    using c b by (simp_all add: window_signs_def)
  moreover have "a \<in> set ps \<longleftrightarrow> 0 < count_list ps a" for a using count_list_0_iff [of ps a] by auto
  ultimately show ?thesis using m p r by (auto simp: add_comebacks_set idle_exact [OF assms(1)])
qed

lemma epoch_miners_coherent:
  "coherent E chain (EngineV2 c) \<Longrightarrow> epoch_miners fuel E chain h n st l c = (c', r) \<Longrightarrow> coherent E chain (EngineV2 c')"
proof (induction fuel arbitrary: h n st l c)
  case (Suc fuel)
  show ?case
  proof (cases "GetHeader chain h n")
    case (Some x)
    obtain c1 q where q: "on_v2 (IsEpochSwitch E x) c = (c1, q)" by fastforce
    then have "coherent E chain (EngineV2 c1)"
      using IsEpochSwitch_coherent(1) [OF Suc.prems(1)] by (auto simp: on_v2_def split: prod.splits)
    then show ?thesis using Suc.prems(2) Suc.IH q Some
      by (auto simp: epoch_miners.simps bindE_eval comp_eval split: sum.splits prod.splits if_splits)
  qed (use Suc.prems in \<open>simp add: epoch_miners.simps comp_simps\<close>)
qed (simp add: epoch_miners.simps comp_simps)

text \<open>
  The masternodes of the block's epoch and the candidates that were penalised for it, as the engine's lookups give them: if there are any,
  they are those of the epoch that the headers and snapshots say the block is in.
\<close>

definition epoch_masternodes :: "env \<Rightarrow> ChainReader \<Rightarrow> BRDPoS_v2 \<Rightarrow> hash \<Rightarrow> address list \<Rightarrow> bool" where
  "epoch_masternodes E chain x h ms \<longleftrightarrow> (\<exists>y y'. cache_only x y \<and> GetMasternodesByHash E chain h y = (y', Inr ms)) \<and>
    (ms \<noteq> [] \<longrightarrow> (\<exists>b info. Header_Hash (keccak E) b = h \<and> epoch_of E (config x) (db x) chain b info \<and> ms = es_Masternodes info))"

definition epoch_penalised :: "env \<Rightarrow> ChainReader \<Rightarrow> BRDPoS_v2 \<Rightarrow> int \<Rightarrow> hash \<Rightarrow> address list \<Rightarrow> address list \<Rightarrow> bool" where
  "epoch_penalised E chain x number h candidates ps \<longleftrightarrow>
    (\<exists>z z'. cache_only x (EngineV2 z) \<and> pen_comebacks E chain number h candidates z = (z', Inr ps)) \<and>
    (ps \<noteq> [] \<longrightarrow> (\<exists>b info s. Header_Hash (keccak E) b = h \<and> epoch_of E (config x) (db x) chain b info \<and>
       GetHeaderByHash chain (bi_Hash (es_EpochSwitchBlockInfo info)) = Some s \<and>
       ps = filter (\<lambda>p. p \<in> set candidates) (ExtractAddressFromBytes (Penalties s))))"

lemma epoch_masternodes_answer:
  assumes ok: "chain_ok E chain" and c: "coherent E chain y" and co: "cache_only x y" and g: "GetMasternodesByHash E chain h y = (y', Inr ms)"
  shows "epoch_masternodes E chain x h ms \<and> coherent E chain y' \<and> cache_only x y'"
proof -
  obtain z r where z: "getEpochSwitchInfo E chain None h y = (z, r)" by fastforce
  have a: "answers E chain y h z r" using getEpochSwitchInfo_sound [OF ok c _ z] by simp
  have y': "y' = z" "ms = (case r of Inl _ \<Rightarrow> [] | Inr info \<Rightarrow> es_Masternodes info)"
    using g z by (auto simp: GetMasternodesByHash_def epoch_list_def handleE_eval comp_eval split: if_splits sum.splits)
  have "cache_only x z" using co getEpochSwitchInfo_fields [OF z] by (simp add: cache_only_def)
  then show ?thesis using a y' co g cache_only_fields(1,2) [OF co]
    by (auto simp: epoch_masternodes_def split: sum.splits)
qed

lemma epoch_penalised_answer:
  assumes ok: "chain_ok E chain" and c: "coherent E chain (EngineV2 z)" and co: "cache_only x (EngineV2 z)"
    and g: "pen_comebacks E chain number h candidates z = (z', Inr ps)"
  shows "epoch_penalised E chain x number h candidates ps"
proof -
  obtain w r where w: "getEpochSwitchInfo E chain None h (EngineV2 z) = (w, r)" by fastforce
  have a: "answers E chain (EngineV2 z) h w r" using getEpochSwitchInfo_sound [OF ok c _ w] by simp
  have "ps = [] \<or> (\<exists>info s. r = Inr info \<and> GetHeaderByHash chain (bi_Hash (es_EpochSwitchBlockInfo info)) = Some s \<and>
       ps = filter (\<lambda>p. p \<in> set candidates) (ExtractAddressFromBytes (Penalties s)))"
    using g w by (auto simp: pen_comebacks_def GetPreviousPenaltyByHash_def getPreviousEpochSwitchInfoByHash_def LimitPenaltyEpochV2_def
      on_v2_eval handleE_eval bindE_eval comp_eval Let_def split: if_splits sum.splits prod.splits option.splits)
  moreover have "\<And>info. r = Inr info \<Longrightarrow> \<exists>b. Header_Hash (keccak E) b = h \<and> epoch_of E (config x) (db x) chain b info"
    using a cache_only_fields(1,2) [OF co] by auto
  ultimately show ?thesis unfolding epoch_penalised_def using co g by blast
qed

lemma HookPenalty_exact:
  assumes r: "rng_ok rng" and "body_fun body" "bodies_full chain body" and t: "cache_true body c" and ok: "chain_ok E chain"
    and co: "coherent E chain (EngineV2 c)"
    and run: "HookPenalty fuel rng E chain body number h candidates c = (c', Inr pens)"
  shows "cache_true body c' \<and> (\<exists>walk ms ps. epoch_walk (config (EngineV2 c)) chain h (big_Uint64 number - 1) walk \<and>
    epoch_masternodes E chain (EngineV2 c) h ms \<and> epoch_penalised E chain (EngineV2 c) number h candidates ps \<and>
    (\<forall>a. a \<in> set pens \<longleftrightarrow> a \<in> set ms \<and> a \<notin> Coinbase ` set walk \<or>
      window_signs body (big_Uint64 number) (h # map ParentHash walk) (min 149 (length walk)) a < count_list ps a))"
proof -
  obtain c1 st l where m: "epoch_miners fuel E chain h (big_Uint64 number - 1) [] [h] c = (c1, Inr (st, l))"
    and p: "penalise rng E chain body number h candidates st l c1 = (c', Inr pens)"
    using run by (auto simp: HookPenalty_eq bindE_eval comp_eval split: if_splits prod.splits sum.splits)
  obtain walk where w: "epoch_walk (config (EngineV2 c)) chain h (big_Uint64 number - 1) walk" "l = h # map ParentHash walk"
    "st = fold count_miner (map Coinbase walk) []" and e: "engine_only c c1" using epoch_miners_walk [OF m] by auto
  have co1: "coherent E chain (EngineV2 c1)" "cache_only (EngineV2 c) (EngineV2 c1)"
    using epoch_miners_coherent [OF co m] e by (simp_all add: engine_only_def)
  have b: "body (l ! k) (big_Uint64 number - of_nat k - 1) \<noteq> None" if "k < length l" for k
    using walk_headers [OF w(1), of k] that assms(3) w(2) by (simp add: bodies_full_def algebra_simps)
  obtain ms ps z y where q: "cache_true body c'" "GetMasternodesByHash E chain h (EngineV2 c1) = (y, Inr ms)"
    "pen_comebacks E chain number h candidates (c1\<lparr>EngineV2 := y\<rparr>) = (z, Inr ps)"
    "\<And>a. a \<in> set pens \<longleftrightarrow> a \<in> set ms \<and> a \<notin> set (map Coinbase walk) \<or>
      window_signs body (big_Uint64 number) l (min 149 (length l - 1)) a < count_list ps a"
    using penalise_exact [OF r assms(2) _ b _ p [unfolded w(3)]] t engine_only_cache_true [OF e] w(2) by blast
  have "epoch_masternodes E chain (EngineV2 c) h ms" "epoch_penalised E chain (EngineV2 c) number h candidates ps"
    using epoch_masternodes_answer [OF ok co1 q(2)] epoch_penalised_answer [OF ok _ _ q(3)] by simp_all
  then show ?thesis using q(1,4) w(1,2) by (intro conjI exI [of _ walk] exI [of _ ms] exI [of _ ps]) simp_all
qed


definition pen_chain :: ChainReader where
  "pen_chain = next_chain\<lparr>GetHeader := (\<lambda>k n. if k = 5 \<and> n = 901 then Some next_block else None)\<rparr>"

definition pen_adaptor :: Adaptor where
  "pen_adaptor = \<lparr>EngineV2 = sample_engine\<lparr>epochSwitches := fst (lru_Add 5 next_block_info (epochSwitches sample_engine))\<rparr>,
     signingTxsCache = NewBasicLRU 4\<rparr>"

lemma next_switch: "switch_result sample_config next_block = Inr (True, 1)"
  by (simp add: switch_result_def sample_switch next_masternodes sample_info) (simp add: sample_config_def)

lemma pen_coherent: "coherent sample_env pen_chain (EngineV2 pen_adaptor)"
proof -
  have "switch_info sample_env sample_config (db sample_engine) pen_chain next_block 5 = Inr next_block_info"
  proof -
    have "gap_snapshot sample_env sample_config (db sample_engine) pen_chain n = Inr (newSnapshot 450 5 [5])" for n
      by (simp add: gap_snapshot_def Header_ptr_Hash_def loadSnapshot_def sample_engine_def split: option.split)
    then show ?thesis
      by (simp add: switch_info_def next_masternodes big_Uint64_def Let_def next_block_info_def newSnapshot_def ExtractAddressFromBytes_def sample_qc_def)
  qed
  then have "epoch_of sample_env sample_config (db sample_engine) pen_chain next_block next_block_info"
    using epoch_of.at_switch [OF next_switch] by simp
  moreover have "config sample_engine = sample_config" by (simp add: sample_engine_def)
  ultimately show ?thesis using epochSwitches_Add_coherent [OF sample_coherent, of next_block 5 pen_chain next_block_info]
    by (simp add: pen_adaptor_def)
qed

lemma pen_run: "\<exists>c'. HookPenalty 902 rev sample_env pen_chain (\<lambda>_ _. Some []) 902 5 [] pen_adaptor = (c', Inr [5])"
proof -
  have c: "config (EngineV2 pen_adaptor) = sample_config" by (simp add: pen_adaptor_def sample_engine_def)
  have "IsEpochSwitch sample_env next_block (EngineV2 pen_adaptor) = (EngineV2 pen_adaptor, Inr (True, 1))"
    using c by (simp add: IsEpochSwitch_def comp_simps sample_switch next_masternodes sample_info) (simp add: sample_config_def)
  then have m: "epoch_miners (Suc fuel) sample_env pen_chain 5 901 [] [5] pen_adaptor = (pen_adaptor, Inr ([], [5]))" for fuel
    by (simp add: epoch_miners.simps pen_chain_def comp_simps)
  have "lru_Peek (epochSwitches (EngineV2 pen_adaptor)) 5 = Some next_block_info" by (simp add: pen_adaptor_def lruc.add_self)
  from getEpochSwitchInfo_hit [OF this, of sample_env pen_chain None] obtain y where
    y: "getEpochSwitchInfo sample_env pen_chain None 5 (EngineV2 pen_adaptor) = (y, Inr next_block_info)" "cache_only (EngineV2 pen_adaptor) y" by blast
  have "config y = sample_config" using cache_only_fields(1) [OF y(2)] c by simp
  then have "pen_comebacks sample_env pen_chain 902 5 [] (pen_adaptor\<lparr>EngineV2 := y\<rparr>) = (pen_adaptor\<lparr>EngineV2 := y\<rparr>, Inr [])"
    by (simp add: pen_comebacks_def comp_simps sample_switch sample_epoch LimitPenaltyEpochV2_def big_Uint64_def Let_def)
  then have p: "penalise rev sample_env pen_chain (\<lambda>_ _. Some []) 902 5 [] [] [5] pen_adaptor = (pen_adaptor\<lparr>EngineV2 := y\<rparr>, Inr [5])"
    using y(1) by (simp add: penalise_def comp_simps GetMasternodesByHash_def epoch_list_def next_block_info_def check_signs.simps idle_nodes_def range_map_def)
  have "epoch_miners 902 sample_env pen_chain 5 901 [] [5] pen_adaptor = (pen_adaptor, Inr ([], [5]))" using m [of 901] by simp
  moreover have "big_Uint64 902 - 1 = 901" by (simp add: big_Uint64_def)
  moreover have "GetHeader pen_chain 5 901 = Some next_block" by (simp add: pen_chain_def)
  ultimately show ?thesis using p by (simp only: HookPenalty_eq) (simp add: bindE_eval)
qed


end
